(* ===== verification/Prelude.thy ===== *)
theory Prelude
  imports Main "HOL-Library.Word" "HOL-Library.AList" "HOL-Library.Multiset"
begin

text \<open>
  The vocabulary every theory of the development shares: Rust's machine integers as words with
  their checked, saturating and wrapping operations, panics as values of a sum type, the iterator
  combinators the code uses (\<open>try_fold\<close>, \<open>for\<close> with an early exit) and the standard library's
  \<open>HashMap\<close> and \<open>HashSet\<close>. The collections \<open>outcome_simps\<close> and \<open>arith_simps\<close> carry the
  automation of the component theories.
\<close>

named_theorems outcome_simps "rewrite rules for results that may be a panic"
named_theorems arith_simps "characterisations of checked and saturating arithmetic"

subsection \<open>Machine integers\<close>

text \<open>
  \<open>u8\<close>, \<open>u64\<close> and \<open>u128\<close> are words of their width. \<open>usize\<close> values of the code are lengths and
  indices of vectors with at most a few hundred elements; they are \<open>nat\<close>.
\<close>

type_synonym u8 = "8 word"
type_synonym u64 = "64 word"
type_synonym u128 = "128 word"
type_synonym bytes = "8 word list"

definition checked_add :: "'a::len word \<Rightarrow> 'a word \<Rightarrow> 'a word option" where
  "checked_add a b = (if unat a + unat b < 2 ^ LENGTH('a) then Some (a + b) else None)"

definition checked_sub :: "'a::len word \<Rightarrow> 'a word \<Rightarrow> 'a word option" where
  "checked_sub a b = (if b \<le> a then Some (a - b) else None)"

definition saturating_add :: "'a::len word \<Rightarrow> 'a word \<Rightarrow> 'a word" where
  "saturating_add a b = (if unat a + unat b < 2 ^ LENGTH('a) then a + b else - 1)"

lemma checked_add_Some_iff [arith_simps]:
  "checked_add a b = Some c \<longleftrightarrow>
     unat a + unat b < 2 ^ LENGTH('a) \<and> unat c = unat a + unat (b :: 'a::len word)"
  by (auto simp: checked_add_def unat_add_lem word_unat_eq_iff)

lemma checked_add_None_iff [arith_simps]:
  "checked_add a b = None \<longleftrightarrow> 2 ^ LENGTH('a) \<le> unat a + unat (b :: 'a::len word)"
  by (auto simp: checked_add_def)

lemma checked_sub_Some_iff [arith_simps]:
  "checked_sub a b = Some c \<longleftrightarrow> b \<le> a \<and> unat c = unat a - unat (b :: 'a::len word)"
  by (auto simp: checked_sub_def unat_sub word_unat_eq_iff)

lemma checked_sub_None_iff [arith_simps]:
  "checked_sub a b = None \<longleftrightarrow> a < (b :: 'a::len word)"
  by (auto simp: checked_sub_def)

lemma unat_saturating_add [arith_simps]:
  "unat (saturating_add a b) = min (unat a + unat b) (2 ^ LENGTH('a) - 1)"
  for a b :: "'a::len word"
proof -
  have "unat (- 1 :: 'a word) = 2 ^ LENGTH('a) - 1"
    by (simp add: unsigned_minus_1_eq_mask mask_eq_exp_minus_1)
  moreover have "unat (a + b) = unat a + unat b" if "unat a + unat b < 2 ^ LENGTH('a)"
    using that by (simp add: unat_add_lem [THEN iffD1])
  ultimately show ?thesis
    by (auto simp: saturating_add_def min_def)
qed

lemma unat_le_max: "unat (w :: 'a::len word) \<le> 2 ^ LENGTH('a) - 1"
  using unsigned_less [of w, where ?'a = nat] by linarith

lemma unat_ucast_up [arith_simps]:
  "LENGTH('a) \<le> LENGTH('b) \<Longrightarrow> unat (ucast (w :: 'a::len word) :: 'b::len word) = unat w"
proof -
  assume "LENGTH('a) \<le> LENGTH('b)"
  then have "(2::nat) ^ LENGTH('a) \<le> 2 ^ LENGTH('b)" by simp
  then have "unat w < 2 ^ LENGTH('b)"
    using unsigned_less [of w, where ?'a = nat] by linarith
  then show ?thesis by (simp add: unsigned_ucast_eq take_bit_nat_eq_self)
qed

lemma sum_list_bound: "(\<And>x. x \<in> set xs \<Longrightarrow> f x \<le> c) \<Longrightarrow> sum_list (map f xs) \<le> length xs * (c :: nat)"
  by (induction xs) (auto intro: add_mono)

subsection \<open>Panics as values\<close>

text \<open>
  A Rust panic ends the fuzz target. \<open>Violation t\<close> is a failed assertion of the harness, with
  \<open>t\<close> the bracketed tag of its message; \<open>Expect_Failed t\<close> is an \<open>expect\<close> or \<open>unwrap\<close> on a value
  the code takes for granted; the last three are the panics the language itself raises.
\<close>

datatype panic =
    Violation string
  | Expect_Failed string
  | Arith_Overflow
  | Index_Out_Of_Bounds
  | Rem_By_Zero

type_synonym 'a outcome = "panic + 'a"

fun obind :: "'e + 'a \<Rightarrow> ('a \<Rightarrow> 'e + 'b) \<Rightarrow> 'e + 'b" where
  "obind (Inl e) f = Inl e"
| "obind (Inr a) f = f a"

definition ensure :: "bool \<Rightarrow> 'e \<Rightarrow> 'e + unit" where
  "ensure b e = (if b then Inr () else Inl e)"

definition expect :: "'e \<Rightarrow> 'a option \<Rightarrow> 'e + 'a" where
  "expect e x = (case x of None \<Rightarrow> Inl e | Some a \<Rightarrow> Inr a)"

definition is_ok :: "'e + 'a \<Rightarrow> bool" where
  "is_ok r = (case r of Inl _ \<Rightarrow> False | Inr _ \<Rightarrow> True)"

text \<open>\<open>for x in xs { body }\<close> where the body can only panic.\<close>

fun for_each :: "('a \<Rightarrow> 'e + unit) \<Rightarrow> 'a list \<Rightarrow> 'e + unit" where
  "for_each f [] = Inr ()"
| "for_each f (x # xs) = obind (f x) (\<lambda>_. for_each f xs)"

text \<open>A \<open>map\<close> whose closure can panic, collected in order.\<close>

fun map_outcome :: "('a \<Rightarrow> 'e + 'b) \<Rightarrow> 'a list \<Rightarrow> 'e + 'b list" where
  "map_outcome f [] = Inr []"
| "map_outcome f (x # xs) = obind (f x) (\<lambda>y. obind (map_outcome f xs) (\<lambda>ys. Inr (y # ys)))"

lemma obind_Inr_iff [outcome_simps]: "obind m f = Inr b \<longleftrightarrow> (\<exists>a. m = Inr a \<and> f a = Inr b)"
  by (cases m) auto

lemma obind_Inl_iff [outcome_simps]:
  "obind m f = Inl e \<longleftrightarrow> m = Inl e \<or> (\<exists>a. m = Inr a \<and> f a = Inl e)"
  by (cases m) auto

lemma obind_assoc: "obind (obind m f) g = obind m (\<lambda>a. obind (f a) g)"
  by (cases m) auto

lemma ensure_Inr_iff [outcome_simps]: "ensure b e = Inr x \<longleftrightarrow> b"
  by (simp add: ensure_def)

lemma ensure_Inl_iff [outcome_simps]: "ensure b e = Inl e' \<longleftrightarrow> \<not> b \<and> e' = e"
  by (auto simp: ensure_def)

lemma ensure_True [simp]: "ensure True e = Inr ()"
  by (simp add: ensure_def)

lemma expect_Inr_iff [outcome_simps]: "expect e x = Inr a \<longleftrightarrow> x = Some a"
  by (auto simp: expect_def split: option.splits)

lemma expect_Inl_iff [outcome_simps]: "expect e x = Inl e' \<longleftrightarrow> x = None \<and> e' = e"
  by (auto simp: expect_def split: option.splits)

lemma expect_simps [simp]: "expect e (Some a) = Inr a" "expect e None = Inl e"
  by (simp_all add: expect_def)

lemma is_ok_simps [simp]: "is_ok (Inr a)" "\<not> is_ok (Inl e)"
  by (simp_all add: is_ok_def)

lemma is_ok_iff: "is_ok r \<longleftrightarrow> (\<exists>a. r = Inr a)"
  by (cases r) simp_all

lemma not_is_ok_iff: "\<not> is_ok r \<longleftrightarrow> (\<exists>e. r = Inl e)"
  by (cases r) simp_all

lemma for_each_Inr_iff [outcome_simps]:
  "for_each f xs = Inr u \<longleftrightarrow> (\<forall>x\<in>set xs. f x = Inr ())"
  by (induction xs) (auto simp: outcome_simps)

lemma for_each_panics:
  assumes "for_each f xs = Inl e"
  shows "\<exists>x\<in>set xs. f x = Inl e"
  using assms by (induction xs) (auto simp: outcome_simps)

lemma map_outcome_Inr_iff [outcome_simps]:
  "map_outcome f xs = Inr ys \<longleftrightarrow> list_all2 (\<lambda>x y. f x = Inr y) xs ys"
  by (induction xs arbitrary: ys) (auto simp: outcome_simps list_all2_Cons1)

subsection \<open>Checked sums\<close>

fun try_fold :: "('b \<Rightarrow> 'a \<Rightarrow> 'b option) \<Rightarrow> 'b \<Rightarrow> 'a list \<Rightarrow> 'b option" where
  "try_fold f b [] = Some b"
| "try_fold f b (x # xs) = (case f b x of None \<Rightarrow> None | Some b' \<Rightarrow> try_fold f b' xs)"

lemma try_fold_checked_add:
  fixes b :: "'a::len word"
  shows "try_fold checked_add b xs =
    (if unat b + sum_list (map unat xs) < 2 ^ LENGTH('a)
     then Some (of_nat (unat b + sum_list (map unat xs))) else None)"
proof (induction xs arbitrary: b)
  case Nil
  show ?case by simp
next
  case (Cons x xs)
  show ?case
  proof (cases "checked_add b x")
    case None
    then have "2 ^ LENGTH('a) \<le> unat b + unat x" by (simp add: arith_simps)
    with None show ?thesis by simp
  next
    case (Some c)
    then have "unat c = unat b + unat x" by (simp add: arith_simps)
    with Some show ?thesis by (simp add: Cons.IH add.assoc)
  qed
qed

text \<open>\<open>iter.try_fold(0, checked_add)\<close>: the exact sum, or \<open>None\<close> when it does not fit.\<close>

definition checked_sum :: "'a::len word list \<Rightarrow> 'a word option" where
  "checked_sum xs = try_fold checked_add 0 xs"

lemma checked_sum_Some_iff [arith_simps]:
  "checked_sum xs = Some t \<longleftrightarrow>
     sum_list (map unat xs) < 2 ^ LENGTH('a) \<and> unat t = sum_list (map unat (xs :: 'a::len word list))"
  by (auto simp: checked_sum_def try_fold_checked_add unat_of_nat word_unat_eq_iff split: if_splits)

lemma checked_sum_None_iff [arith_simps]:
  "checked_sum xs = None \<longleftrightarrow> 2 ^ LENGTH('a) \<le> sum_list (map unat (xs :: 'a::len word list))"
  by (auto simp: checked_sum_def try_fold_checked_add)

subsection \<open>Hash maps and hash sets\<close>

text \<open>
  A \<open>HashMap\<close> is the list of its entries in iteration order, with distinct keys. Rust leaves that
  order open, so facts about loops over a map are stated for every list of entries;
  \<open>hm_collect\<close> is \<open>collect()\<close>, where a later entry overwrites an earlier one with the same key.
\<close>

type_synonym ('k, 'v) hash_map = "('k \<times> 'v) list"

definition hm_wf :: "('k, 'v) hash_map \<Rightarrow> bool" where
  "hm_wf m \<longleftrightarrow> distinct (map fst m)"

definition hm_collect :: "('k \<times> 'v) list \<Rightarrow> ('k, 'v) hash_map" where
  "hm_collect xs = fold (\<lambda>(k, v) m. AList.update k v m) xs []"

definition hm_get :: "('k, 'v) hash_map \<Rightarrow> 'k \<Rightarrow> 'v option" where
  "hm_get m k = map_of m k"

lemma hm_collect_snoc [simp]:
  "hm_collect (xs @ [(k, v)]) = AList.update k v (hm_collect xs)"
  by (simp add: hm_collect_def)

lemma hm_collect_Nil [simp]: "hm_collect [] = []"
  by (simp add: hm_collect_def)

lemma hm_collect_wf [simp]: "hm_wf (hm_collect xs)"
proof (induction xs rule: rev_induct)
  case (snoc x xs)
  then show ?case by (cases x) (simp add: hm_wf_def distinct_update)
qed (simp add: hm_wf_def)

lemma hm_get_collect: "hm_get (hm_collect xs) k = map_of (rev xs) k"
proof (induction xs rule: rev_induct)
  case (snoc x xs)
  then show ?case by (cases x) (auto simp: hm_get_def update_conv')
qed (simp add: hm_get_def)

lemma hm_get_wf: "hm_wf m \<Longrightarrow> (k, v) \<in> set m \<longleftrightarrow> hm_get m k = Some v"
  by (simp add: hm_wf_def hm_get_def)

lemma fst_set_hm_collect [simp]: "fst ` set (hm_collect xs) = fst ` set xs"
proof -
  have "dom (hm_get (hm_collect xs)) = dom (map_of (rev xs))"
    by (simp add: hm_get_collect [abs_def])
  then show ?thesis by (simp add: hm_get_def [abs_def] dom_map_of_conv_image_fst)
qed

text \<open>Collecting entries whose value is a function of the key keeps exactly those entries.\<close>

lemma set_hm_collect_fun: "set (hm_collect (map (\<lambda>k. (k, f k)) ks)) = (\<lambda>k. (k, f k)) ` set ks"
proof -
  have "(k, v) \<in> set (hm_collect (map (\<lambda>k. (k, f k)) ks)) \<longleftrightarrow> k \<in> set ks \<and> v = f k" for k v
  proof -
    have "map_of (map (\<lambda>k. (k, f k)) xs) k = (if k \<in> set xs then Some (f k) else None)" for xs
      by (induction xs) auto
    then show ?thesis
      by (auto simp: hm_get_wf [OF hm_collect_wf] hm_get_collect rev_map split: if_splits)
  qed
  then show ?thesis by auto
qed

lemma hm_collect_distinct: "distinct (map fst xs) \<Longrightarrow> hm_collect xs = xs"
proof (induction xs rule: rev_induct)
  case (snoc x xs)
  have "AList.update k v ys = ys @ [(k, v)]" if "k \<notin> fst ` set ys" for k v and ys :: "('a \<times> 'b) list"
    using that by (induction ys) auto
  with snoc show ?case by (cases x) simp
qed simp

lemma hm_get_update [simp]: "hm_get (AList.update k v m) k' = (if k' = k then Some v else hm_get m k')"
  by (simp add: hm_get_def update_conv')

lemma hm_wf_update [simp]: "hm_wf m \<Longrightarrow> hm_wf (AList.update k v m)"
  by (simp add: hm_wf_def distinct_update)

lemma keys_update_known: "hm_get m k = Some w \<Longrightarrow> map fst (AList.update k v m) = map fst m"
  by (induction m) (auto simp: hm_get_def split: if_splits)

text \<open>Overwriting one entry changes a sum over the entries by exactly that entry.\<close>

lemma sum_update:
  assumes "hm_wf m" and "hm_get m k = Some w"
  shows "sum_list (map (f \<circ> snd) (AList.update k v m)) + f w = sum_list (map (f \<circ> snd) m) + (f v :: nat)"
  using assms by (induction m) (auto simp: hm_get_def hm_wf_def split: if_splits)

text \<open>\<open>set.insert(x)\<close> returns whether \<open>x\<close> was new; the set is a list without repetitions.\<close>

definition hs_insert :: "'a \<Rightarrow> 'a list \<Rightarrow> bool \<times> 'a list" where
  "hs_insert x s = (if x \<in> set s then (False, s) else (True, s @ [x]))"

definition hs_collect :: "'a list \<Rightarrow> 'a list" where
  "hs_collect xs = fold (\<lambda>x s. snd (hs_insert x s)) xs []"

lemma hs_collect_snoc: "hs_collect (xs @ [x]) = snd (hs_insert x (hs_collect xs))"
  by (simp add: hs_collect_def)

lemma hs_collect_props [simp]:
  "distinct (hs_collect xs)" "set (hs_collect xs) = set xs"
proof -
  have "distinct (hs_collect xs) \<and> set (hs_collect xs) = set xs"
  proof (induction xs rule: rev_induct)
    case Nil
    show ?case by (simp add: hs_collect_def)
  next
    case (snoc x xs)
    then show ?case by (auto simp: hs_collect_snoc hs_insert_def)
  qed
  then show "distinct (hs_collect xs)" "set (hs_collect xs) = set xs" by auto
qed

subsection \<open>Checked indexing and remainders\<close>

text \<open>\<open>xs[i]\<close> panics out of range, \<open>a % b\<close> panics on zero.\<close>

definition index :: "'a list \<Rightarrow> nat \<Rightarrow> 'a outcome" where
  "index xs i = (if i < length xs then Inr (xs ! i) else Inl Index_Out_Of_Bounds)"

definition checked_rem :: "nat \<Rightarrow> nat \<Rightarrow> nat outcome" where
  "checked_rem a b = (if b = 0 then Inl Rem_By_Zero else Inr (a mod b))"

lemma index_Inr_iff [outcome_simps]: "index xs i = Inr x \<longleftrightarrow> i < length xs \<and> x = xs ! i"
  by (auto simp: index_def)

lemma checked_rem_Inr_iff [outcome_simps]: "checked_rem a b = Inr r \<longleftrightarrow> b \<noteq> 0 \<and> r = a mod b"
  by (auto simp: checked_rem_def)

lemma find_distinct:
  "distinct (map f xs) \<Longrightarrow> x \<in> set xs \<Longrightarrow> find (\<lambda>y. f y = f x) xs = Some x"
  by (induction xs) auto

end
