(* ===== verification/Lez_Types.thy ===== *)
theory Lez_Types
  imports Prelude
begin

text \<open>
  The values of the LEZ crates (\<open>nssa\<close>, \<open>nssa_core\<close>, \<open>common\<close>) that the harness builds, matches
  on or takes apart, and the interfaces of those crates that it calls.

  The crates are not part of the repository. A struct the code writes as a literal, or whose
  public fields it reads, is a record with those fields. A byte-valued type it only passes around
  and compares (ids, keys, hashes, proofs) is a newtype around its bytes, with no operation on it.
  The chain state \<open>V03State\<close>, the shard map of an account, the state diff and the error type are
  type parameters. Every function of the crates is a field of the records \<open>crypto\<close> and \<open>lez\<close>
  below, passed as an argument to the definitions that call it.
\<close>

subsection \<open>Accounts, keys and hashes\<close>

datatype account_id = AccountId bytes
datatype private_key = PrivateKey bytes
datatype public_key = PublicKey bytes
datatype nullifier = Nullifier bytes
datatype commitment = Commitment bytes
datatype zk_proof = Proof bytes
datatype program = Program bytes
datatype image_id = ImageId bytes
datatype ciphertext = Ciphertext bytes

type_synonym commitment_set_digest = bytes

record signature_t =
  sig_value :: bytes

text \<open>\<open>Account\<close>: the two public fields the code reads. \<open>'data\<close> is the account's shard map.\<close>

record 'data account =
  acc_nonce :: u128
  acc_data :: 'data

subsection \<open>Public transactions\<close>

datatype program_shard_selector = ProgramShardSelector account_id account_id

datatype fee_declaration = FeeDeclaration account_id u64 u64 u128

record pub_message =
  msg_program_account_id :: account_id
  msg_shard_selectors :: "program_shard_selector list"
  msg_nonces :: "u128 list"
  msg_instruction_data :: bytes
  msg_fee :: "fee_declaration option"

record witness_set =
  ws_signatures_and_public_keys :: "(signature_t \<times> public_key) list"

record public_transaction =
  pt_message :: pub_message
  pt_witness_set :: witness_set

subsection \<open>Privacy-preserving transactions\<close>

datatype native_effect = Debit u128 | Credit u128

record deferred_public_effect =
  eff_program_account_id :: account_id
  eff_shard_program_account_id :: account_id
  eff_data :: bytes

record public_action_with_id =
  pai_account_id :: account_id
  pai_effects :: "deferred_public_effect list"

record public_action =
  pa_account_id :: account_id
  pa_is_authorized :: bool
  pa_effects :: "deferred_public_effect list"

record encrypted_account_data =
  ead_ciphertext :: ciphertext
  ead_epk :: bytes
  ead_view_tag :: u8

record private_action =
  pra_nullifier :: nullifier
  pra_root :: commitment_set_digest
  pra_commitment :: commitment
  pra_encrypted_post_state :: encrypted_account_data

datatype program_image_claim =
    Disclosed account_id image_id
  | Undisclosed bytes

text \<open>A half-open window \<open>[from, to)\<close>; \<open>None\<close> is no bound.\<close>

datatype validity_window = ValidityWindow (vw_from: "u64 option") (vw_to: "u64 option")

record pp_message =
  ppm_public_actions :: "public_action_with_id list"
  ppm_nonces :: "u128 list"
  ppm_private_actions :: "private_action list"
  ppm_block_validity_window :: validity_window
  ppm_timestamp_validity_window :: validity_window
  ppm_program_image_claims :: "program_image_claim list"

record pp_circuit_output =
  pco_public_actions :: "public_action list"
  pco_private_actions :: "private_action list"
  pco_block_validity_window :: validity_window
  pco_timestamp_validity_window :: validity_window
  pco_program_image_claims :: "program_image_claim list"

record pp_witness_set =
  ppw_signatures_and_public_keys :: "(signature_t \<times> public_key) list"
  ppw_proof :: zk_proof

record pp_transaction =
  ppt_message :: pp_message
  ppt_witness_set :: pp_witness_set

datatype lee_transaction =
    Public public_transaction
  | PrivacyPreserving pp_transaction

record hashable_block_data =
  hbd_block_id :: u64
  hbd_prev_block_hash :: bytes
  hbd_timestamp :: u64
  hbd_transactions :: "lee_transaction list"

subsection \<open>Interfaces of the crates\<close>

text \<open>
  Key handling. \<open>try_new\<close> fails on bytes that are no scalar (no x-coordinate). The transaction
  builder is \<open>common::test_utils::create_transaction_native_token_transfer\<close>, with the arguments
  in its order: sender, nonce, recipient, amount, signing key.
\<close>

record crypto =
  private_key_try_new :: "bytes \<Rightarrow> private_key option"
  public_key_new_from_private_key :: "private_key \<Rightarrow> public_key"
  public_key_try_new :: "bytes \<Rightarrow> public_key option"
  account_id_from :: "public_key \<Rightarrow> account_id"
  create_transfer :: "account_id \<Rightarrow> u128 \<Rightarrow> account_id \<Rightarrow> u128 \<Rightarrow> private_key \<Rightarrow> lee_transaction"

text \<open>
  The chain state. Methods that take \<open>&mut self\<close> return the new state beside their result; a
  rejected \<open>execute_check_on_state\<close> returns a state too, because whether it left the state alone
  is what the harness checks.
\<close>

record ('st, 'data, 'err, 'diff) lez =
  get_account_by_id :: "'st \<Rightarrow> account_id \<Rightarrow> 'data account"
  data_native_balance :: "'data \<Rightarrow> 'err + u128"
  stateless_check :: "lee_transaction \<Rightarrow> 'err + lee_transaction"
  execute_check_on_state ::
    "lee_transaction \<Rightarrow> 'st \<Rightarrow> u64 \<Rightarrow> u64 \<Rightarrow> ('err + lee_transaction) \<times> 'st"
  validate_on_state :: "lee_transaction \<Rightarrow> 'st \<Rightarrow> u64 \<Rightarrow> u64 \<Rightarrow> 'err + 'diff"
  apply_state_diff :: "'diff \<Rightarrow> 'st \<Rightarrow> 'st"
  public_diff :: "'diff \<Rightarrow> (account_id, 'data account) hash_map"

end
