(* ===== verification/Unstructured.thy ===== *)
theory Unstructured
  imports Lez_Types
begin

text \<open>
  Generators: functions that read the fuzzer's input through \<open>arbitrary::Unstructured\<close>. The crate
  \<open>arbitrary\<close> is a parameter: \<open>'u\<close> is its cursor and the record \<open>arbitrary_api\<close> holds its
  primitive draws. A generator returns the cursor it leaves, and either a value, an
  \<open>arbitrary::Error\<close> (propagated by \<open>?\<close>) or a panic. Fuzz targets are generators as well: they
  consume the input, handle every draw error themselves and end with a value or a panic.

  The locale \<open>contract_gen\<close> is the contract of a generator: what its values satisfy, and which
  panics it can raise. Every generator of the harness is an interpretation of it.
\<close>

datatype arb_error = IncorrectFormat | NotEnoughData | EmptyChoose

datatype 'a draw = Drawn 'a | Failed arb_error | Panicked panic

type_synonym ('u, 'a) gen = "'u \<Rightarrow> 'a draw \<times> 'u"

record 'u arbitrary_api =
  draw_u8 :: "'u \<Rightarrow> (arb_error + u8) \<times> 'u"
  draw_u64 :: "'u \<Rightarrow> (arb_error + u64) \<times> 'u"
  draw_u128 :: "'u \<Rightarrow> (arb_error + u128) \<times> 'u"
  draw_bool :: "'u \<Rightarrow> (arb_error + bool) \<times> 'u"
  draw_bytes32 :: "'u \<Rightarrow> (arb_error + bytes) \<times> 'u"
  draw_bytes64 :: "'u \<Rightarrow> (arb_error + bytes) \<times> 'u"
  draw_vec_u8 :: "'u \<Rightarrow> (arb_error + bytes) \<times> 'u"

subsection \<open>Sequencing\<close>

definition gret :: "'a \<Rightarrow> ('u, 'a) gen" where
  "gret a = (\<lambda>u. (Drawn a, u))"

definition gfail :: "arb_error \<Rightarrow> ('u, 'a) gen" where
  "gfail e = (\<lambda>u. (Failed e, u))"

definition gpanic :: "panic \<Rightarrow> ('u, 'a) gen" where
  "gpanic p = (\<lambda>u. (Panicked p, u))"

text \<open>\<open>gbind g f\<close> is \<open>let a = g(u)?; f(a)\<close>.\<close>

definition gbind :: "('u, 'a) gen \<Rightarrow> ('a \<Rightarrow> ('u, 'b) gen) \<Rightarrow> ('u, 'b) gen" where
  "gbind g f = (\<lambda>u. case g u of
      (Drawn a, u') \<Rightarrow> f a u'
    | (Failed e, u') \<Rightarrow> (Failed e, u')
    | (Panicked p, u') \<Rightarrow> (Panicked p, u'))"

text \<open>A primitive draw of the crate.\<close>

definition prim :: "('u \<Rightarrow> (arb_error + 'a) \<times> 'u) \<Rightarrow> ('u, 'a) gen" where
  "prim d = (\<lambda>u. case d u of (Inl e, u') \<Rightarrow> (Failed e, u') | (Inr a, u') \<Rightarrow> (Drawn a, u'))"

text \<open>The \<open>Result\<close> of a draw as a value: \<open>match g(u) { Ok(a) => .., Err(e) => .. }\<close>.\<close>

definition gcatch :: "('u, 'a) gen \<Rightarrow> ('u, arb_error + 'a) gen" where
  "gcatch g = (\<lambda>u. case g u of
      (Drawn a, u') \<Rightarrow> (Drawn (Inr a), u')
    | (Failed e, u') \<Rightarrow> (Drawn (Inl e), u')
    | (Panicked p, u') \<Rightarrow> (Panicked p, u'))"

definition gunwrap_or :: "'a \<Rightarrow> ('u, 'a) gen \<Rightarrow> ('u, 'a) gen" where
  "gunwrap_or d g = gbind (gcatch g) (\<lambda>r. gret (case r of Inl _ \<Rightarrow> d | Inr a \<Rightarrow> a))"

definition glift :: "'a outcome \<Rightarrow> ('u, 'a) gen" where
  "glift r = (case r of Inl p \<Rightarrow> gpanic p | Inr a \<Rightarrow> gret a)"

text \<open>\<open>repeat_with(g).take(n).collect::<Result<Vec<_>>>()\<close>: stops at the first error.\<close>

fun grepeat :: "nat \<Rightarrow> ('u, 'a) gen \<Rightarrow> ('u, 'a list) gen" where
  "grepeat 0 g = gret []"
| "grepeat (Suc n) g = gbind g (\<lambda>x. gbind (grepeat n g) (\<lambda>xs. gret (x # xs)))"

lemmas gen_defs = gret_def gfail_def gpanic_def gbind_def prim_def gcatch_def gunwrap_or_def glift_def

lemma gbind_gret [simp]: "gbind (gret a) f = f a"
  by (simp add: gen_defs)

lemma gbind_Drawn_iff:
  "gbind g f u = (Drawn b, u2) \<longleftrightarrow> (\<exists>a u1. g u = (Drawn a, u1) \<and> f a u1 = (Drawn b, u2))"
  by (auto simp: gbind_def split: prod.splits draw.splits)

lemma gbind_assoc: "gbind (gbind g f) h = gbind g (\<lambda>a. gbind (f a) h)"
  by (auto simp: gbind_def fun_eq_iff split: prod.splits draw.splits)

subsection \<open>The contract of a generator\<close>

locale contract_gen =
  fixes g :: "('u, 'a) gen"
    and P :: "'a \<Rightarrow> bool"
    and Q :: "panic \<Rightarrow> bool"
  assumes value_ok: "g u = (Drawn a, u') \<Longrightarrow> P a"
    and panic_ok: "g u = (Panicked p, u') \<Longrightarrow> Q p"
begin

lemma grepeat_value:
  "grepeat n g u = (Drawn xs, u') \<Longrightarrow> length xs = n \<and> (\<forall>x\<in>set xs. P x)"
proof (induction n arbitrary: u u' xs)
  case (Suc n)
  then obtain x u1 ys where "g u = (Drawn x, u1)" "grepeat n g u1 = (Drawn ys, u')" "xs = x # ys"
    by (auto simp: gbind_Drawn_iff gret_def)
  with Suc.IH show ?case by (auto dest: value_ok)
qed (auto simp: gret_def)

lemma grepeat_panic: "grepeat n g u = (Panicked p, u') \<Longrightarrow> Q p"
proof (induction n arbitrary: u u')
  case (Suc n)
  then show ?case
    by (auto simp: gbind_def gret_def split: prod.splits draw.splits dest: panic_ok)
qed (auto simp: gret_def)

lemma unwrap_or_value: "gunwrap_or d g u = (Drawn a, u') \<Longrightarrow> P a \<or> a = d"
  by (auto simp: gen_defs split: prod.splits draw.splits dest: value_ok)

lemma never_panics: "\<not> Q p \<Longrightarrow> fst (g u) \<noteq> Panicked p"
  using panic_ok [of u p "snd (g u)"] by (cases "g u") auto

end

text \<open>Contracts compose along the combinators; \<open>gen_intros\<close> collects the rules.\<close>

named_theorems gen_intros "contracts of composed generators"

lemma contract_weaken:
  assumes "contract_gen g P Q" and "\<And>a. P a \<Longrightarrow> P' a" and "\<And>p. Q p \<Longrightarrow> Q' p"
  shows "contract_gen g P' Q'"
  using assms by (simp add: contract_gen_def)

lemma contract_gret [gen_intros]: "P a \<Longrightarrow> contract_gen (gret a) P Q"
  by (simp add: contract_gen_def gret_def)

lemma contract_gfail [gen_intros]: "contract_gen (gfail e) P Q"
  by (simp add: contract_gen_def gfail_def)

lemma contract_gpanic [gen_intros]: "Q p \<Longrightarrow> contract_gen (gpanic p) P Q"
  by (simp add: contract_gen_def gpanic_def)

lemma contract_prim [gen_intros]: "contract_gen (prim d) (\<lambda>_. True) Q"
  by (auto simp: contract_gen_def prim_def split: prod.splits sum.splits)

lemma contract_gbind:
  assumes "contract_gen g R Q" and "\<And>a. R a \<Longrightarrow> contract_gen (f a) P Q"
  shows "contract_gen (gbind g f) P Q"
proof
  show "P b" if bind: "gbind g f u = (Drawn b, u')" for u b u'
  proof -
    from bind obtain a u1 where "g u = (Drawn a, u1)" and f: "f a u1 = (Drawn b, u')"
      by (auto simp: gbind_Drawn_iff)
    with assms(1) have "R a" by (simp add: contract_gen.value_ok)
    from assms(2) [OF this] f show ?thesis by (simp add: contract_gen.value_ok)
  qed
  show "Q p" if bind: "gbind g f u = (Panicked p, u')" for u p u'
  proof (cases "\<exists>a u1. g u = (Drawn a, u1)")
    case True
    then obtain a u1 where g: "g u = (Drawn a, u1)" by blast
    with assms(1) have "R a" by (simp add: contract_gen.value_ok)
    from assms(2) [OF this] g bind show ?thesis
      by (simp add: gbind_def contract_gen.panic_ok)
  next
    case False
    with bind have "g u = (Panicked p, u')"
      by (auto simp: gbind_def split: prod.splits draw.splits)
    with assms(1) show ?thesis by (simp add: contract_gen.panic_ok)
  qed
qed

text \<open>A draw whose value does not matter for the contract.\<close>

lemma contract_gbind_any:
  assumes "contract_gen g (\<lambda>_. True) Q" and "\<And>a. contract_gen (f a) P Q"
  shows "contract_gen (gbind g f) P Q"
  using assms by (rule contract_gbind)

lemma contract_gcatch:
  assumes "contract_gen g P Q"
  shows "contract_gen (gcatch g) (\<lambda>r. case r of Inl _ \<Rightarrow> True | Inr a \<Rightarrow> P a) Q"
  using assms by (fastforce simp: contract_gen_def gcatch_def split: prod.splits draw.splits)

lemma contract_gunwrap_or [gen_intros]:
  assumes "contract_gen g P Q" and "P d"
  shows "contract_gen (gunwrap_or d g) P Q"
  unfolding gunwrap_or_def
  by (rule contract_gbind [OF contract_gcatch [OF assms(1)]])
    (auto intro!: contract_gret simp: assms(2) split: sum.splits)

lemma contract_grepeat [gen_intros]:
  assumes "contract_gen g P Q"
  shows "contract_gen (grepeat n g) (\<lambda>xs. length xs = n \<and> (\<forall>x\<in>set xs. P x)) Q"
  using contract_gen.grepeat_value [OF assms] contract_gen.grepeat_panic [OF assms]
  by (simp add: contract_gen_def)

lemma contract_glift:
  assumes "\<And>a. r = Inr a \<Longrightarrow> P a" and "\<And>p. r = Inl p \<Longrightarrow> Q p"
  shows "contract_gen (glift r) P Q"
  using assms by (cases r) (auto simp: glift_def intro: contract_gret contract_gpanic)

lemma contract_sum_case:
  assumes "\<And>e. r = Inl e \<Longrightarrow> contract_gen (f e) P Q" and "\<And>a. r = Inr a \<Longrightarrow> contract_gen (g a) P Q"
  shows "contract_gen (case r of Inl e \<Rightarrow> f e | Inr a \<Rightarrow> g a) P Q"
  using assms by (cases r) auto

lemma contract_if [gen_intros]:
  assumes "c \<Longrightarrow> contract_gen g P Q" and "\<not> c \<Longrightarrow> contract_gen h P Q"
  shows "contract_gen (if c then g else h) P Q"
  using assms by simp

subsection \<open>Targets return\<close>

text \<open>
  A fuzz target handles every draw error itself: it ends with a value or a panic. \<open>unfailing\<close> says
  so, and composes like the contracts; \<open>contract_case\<close> and \<open>verdict_case\<close> turn contracts into
  statements about one run.
\<close>

definition unfailing :: "('u, 'a) gen \<Rightarrow> bool" where
  "unfailing g \<longleftrightarrow> (\<forall>u e. fst (g u) \<noteq> Failed e)"

named_theorems unfailing_intros "generators that end with a value or a panic"

lemma unfailing_gret [unfailing_intros]: "unfailing (gret a)"
  by (simp add: unfailing_def gret_def)

lemma unfailing_glift [unfailing_intros]: "unfailing (glift r)"
  by (cases r) (simp_all add: unfailing_def glift_def gret_def gpanic_def)

lemma unfailing_gcatch [unfailing_intros]: "unfailing (gcatch g)"
  by (auto simp: unfailing_def gcatch_def split: prod.splits draw.splits)

lemma unfailing_gbind [unfailing_intros]:
  "unfailing g \<Longrightarrow> (\<And>a. unfailing (f a)) \<Longrightarrow> unfailing (gbind g f)"
  unfolding unfailing_def gbind_def by (auto split: prod.splits draw.splits) (metis fst_conv)

lemma unfailing_gunwrap_or [unfailing_intros]: "unfailing (gunwrap_or d g)"
  unfolding gunwrap_or_def by (intro unfailing_intros)

lemma unfailing_if [unfailing_intros]: "unfailing g \<Longrightarrow> unfailing h \<Longrightarrow> unfailing (if c then g else h)"
  by simp

lemma unfailing_sum [unfailing_intros]:
  "(\<And>a. unfailing (f a)) \<Longrightarrow> (\<And>b. unfailing (g b)) \<Longrightarrow> unfailing (case x of Inl a \<Rightarrow> f a | Inr b \<Rightarrow> g b)"
  by (cases x) simp_all

lemma unfailing_option [unfailing_intros]:
  "unfailing f \<Longrightarrow> (\<And>b. unfailing (g b)) \<Longrightarrow> unfailing (case x of None \<Rightarrow> f | Some b \<Rightarrow> g b)"
  by (cases x) simp_all

lemma unfailing_prod [unfailing_intros]: "(\<And>a b. unfailing (f a b)) \<Longrightarrow> unfailing (case x of (a, b) \<Rightarrow> f a b)"
  by (cases x) simp

lemma contract_case:
  "contract_gen g P Q \<Longrightarrow>
     (case fst (g u) of Drawn a \<Rightarrow> P a | Failed _ \<Rightarrow> True | Panicked p \<Rightarrow> Q p)"
  by (cases "g u") (auto dest: contract_gen.value_ok contract_gen.panic_ok split: draw.splits)

lemma verdict_case:
  "contract_gen g P Q \<Longrightarrow> unfailing g \<Longrightarrow>
     (case fst (g u) of Drawn a \<Rightarrow> P a | Failed _ \<Rightarrow> False | Panicked p \<Rightarrow> Q p)"
  using contract_case [of g P Q u] by (auto simp: unfailing_def split: draw.splits)

lemma verdict_returns:
  "contract_gen g P Q \<Longrightarrow> unfailing g \<Longrightarrow> (\<And>p. \<not> Q p) \<Longrightarrow> \<exists>a. fst (g u) = Drawn a \<and> P a"
  using verdict_case [of g P Q u] by (auto split: draw.splits)

subsection \<open>Small bounded draws\<close>

text \<open>\<open>(u8::arbitrary(u)? as usize) % n\<close> for a constant \<open>n\<close>.\<close>

definition draw_below :: "'u arbitrary_api \<Rightarrow> nat \<Rightarrow> ('u, nat) gen" where
  "draw_below A n = gbind (prim (draw_u8 A)) (\<lambda>b. gret (unat b mod n))"

text \<open>\<open>(u8::arbitrary(u)? as usize) % len\<close> for a length, which panics when it is zero.\<close>

definition draw_index :: "'u arbitrary_api \<Rightarrow> nat \<Rightarrow> ('u, nat) gen" where
  "draw_index A n = gbind (prim (draw_u8 A)) (\<lambda>b. glift (checked_rem (unat b) n))"

lemma contract_draw_below [gen_intros]: "0 < n \<Longrightarrow> contract_gen (draw_below A n) (\<lambda>i. i < n) Q"
  unfolding draw_below_def by (rule contract_gbind_any) (auto intro: gen_intros)

lemma contract_draw_index [gen_intros]:
  "0 < n \<Longrightarrow> contract_gen (draw_index A n) (\<lambda>i. i < n) Q"
  unfolding draw_index_def
  by (rule contract_gbind_any [OF contract_prim contract_glift]) (auto simp: checked_rem_def)

interpretation small_draw: contract_gen "draw_below A (Suc n)" "\<lambda>i. i < Suc n" "\<lambda>_. False"
  for A :: "'u arbitrary_api" and n
  by (rule contract_draw_below) simp

end
