(* ===== verification/Arbitrary_Types.thy ===== *)
theory Arbitrary_Types
  imports Unstructured
begin

text \<open>
  \<open>fuzz_props/src/arbitrary_types.rs\<close>: the newtype wrappers \<open>ArbXxx\<close>, each an \<open>Arbitrary\<close>
  implementation that builds one LEZ value from the fuzzer's bytes. The definitions take the
  primitive draws \<open>A\<close> and the key functions \<open>C\<close>. Each generator is an interpretation of
  \<open>contract_gen\<close>: its contract says what shape its values have (equally long selector and nonce
  lists of at most 7, at most 3 witness pairs, public transactions only, at most 7 transactions
  in a block) and that the only panic left is the \<open>expect("known-good seed")\<close> of the fallback key.
\<close>

subsection \<open>Ids, nonces, signatures and keys\<close>

definition arb_account_id :: "'u arbitrary_api \<Rightarrow> ('u, account_id) gen" where
  "arb_account_id A = gbind (prim (draw_bytes32 A)) (\<lambda>b. gret (AccountId b))"

definition arb_nonce :: "'u arbitrary_api \<Rightarrow> ('u, u128) gen" where
  "arb_nonce A = prim (draw_u128 A)"

definition arb_signature :: "'u arbitrary_api \<Rightarrow> ('u, signature_t) gen" where
  "arb_signature A = gbind (prim (draw_bytes64 A)) (\<lambda>b. gret \<lparr>sig_value = b\<rparr>)"

text \<open>\<open>PrivateKey::try_new([1_u8; 32]).expect("known-good seed")\<close>\<close>

definition seed_bytes :: bytes where
  "seed_bytes = replicate 32 1"

definition known_good_key :: "crypto \<Rightarrow> private_key outcome" where
  "known_good_key C = expect (Expect_Failed ''known-good seed'') (private_key_try_new C seed_bytes)"

definition arb_private_key :: "'u arbitrary_api \<Rightarrow> crypto \<Rightarrow> ('u, private_key) gen" where
  "arb_private_key A C = gbind (prim (draw_bytes32 A)) (\<lambda>bytes.
     case private_key_try_new C bytes of
       Some key \<Rightarrow> gret key
     | None \<Rightarrow> glift (known_good_key C))"

definition arb_public_key :: "'u arbitrary_api \<Rightarrow> crypto \<Rightarrow> ('u, public_key) gen" where
  "arb_public_key A C = gbind (prim (draw_bool A)) (\<lambda>derive.
     if derive then
       gbind (arb_private_key A C) (\<lambda>key. gret (public_key_new_from_private_key C key))
     else
       gbind (prim (draw_bytes32 A)) (\<lambda>bytes.
         case public_key_try_new C bytes of
           Some pk \<Rightarrow> gret pk
         | None \<Rightarrow> gbind (gcatch (arb_private_key A C)) (\<lambda>r.
             case r of
               Inl _ \<Rightarrow> gbind (glift (known_good_key C)) (\<lambda>key.
                 gret (public_key_new_from_private_key C key))
             | Inr key \<Rightarrow> gret (public_key_new_from_private_key C key))))"

subsection \<open>Messages, witness sets, transactions and blocks\<close>

definition arb_shard_selector :: "'u arbitrary_api \<Rightarrow> ('u, program_shard_selector) gen" where
  "arb_shard_selector A = gbind (arb_account_id A) (\<lambda>a. gbind (arb_account_id A) (\<lambda>p.
     gret (ProgramShardSelector a p)))"

definition arb_fee :: "'u arbitrary_api \<Rightarrow> ('u, fee_declaration option) gen" where
  "arb_fee A = gbind (prim (draw_bool A)) (\<lambda>paid.
     if paid then
       gbind (arb_account_id A) (\<lambda>payer. gbind (prim (draw_u64 A)) (\<lambda>x.
       gbind (prim (draw_u64 A)) (\<lambda>y. gbind (prim (draw_u128 A)) (\<lambda>z.
         gret (Some (FeeDeclaration payer x y z))))))
     else gret None)"

definition arb_pub_tx_message :: "'u arbitrary_api \<Rightarrow> ('u, pub_message) gen" where
  "arb_pub_tx_message A = gbind (arb_account_id A) (\<lambda>program.
     gbind (draw_below A 8) (\<lambda>len.
     gbind (grepeat len (arb_shard_selector A)) (\<lambda>selectors.
     gbind (grepeat len (arb_nonce A)) (\<lambda>nonces.
     gbind (prim (draw_vec_u8 A)) (\<lambda>instruction.
     gbind (arb_fee A) (\<lambda>fee.
       gret \<lparr>msg_program_account_id = program, msg_shard_selectors = selectors,
             msg_nonces = nonces, msg_instruction_data = instruction, msg_fee = fee\<rparr>))))))"

definition arb_witness_pair :: "'u arbitrary_api \<Rightarrow> crypto \<Rightarrow> ('u, signature_t \<times> public_key) gen" where
  "arb_witness_pair A C = gbind (arb_signature A) (\<lambda>s. gbind (arb_public_key A C) (\<lambda>pk.
     gret (s, pk)))"

definition arb_witness_set :: "'u arbitrary_api \<Rightarrow> crypto \<Rightarrow> ('u, witness_set) gen" where
  "arb_witness_set A C = gbind (draw_below A 4) (\<lambda>n.
     gbind (grepeat n (arb_witness_pair A C)) (\<lambda>pairs.
       gret \<lparr>ws_signatures_and_public_keys = pairs\<rparr>))"

definition arb_public_transaction :: "'u arbitrary_api \<Rightarrow> crypto \<Rightarrow> ('u, public_transaction) gen" where
  "arb_public_transaction A C = gbind (arb_pub_tx_message A) (\<lambda>m.
     gbind (arb_witness_set A C) (\<lambda>w. gret \<lparr>pt_message = m, pt_witness_set = w\<rparr>))"

definition arb_lee_transaction :: "'u arbitrary_api \<Rightarrow> crypto \<Rightarrow> ('u, lee_transaction) gen" where
  "arb_lee_transaction A C = gbind (arb_public_transaction A C) (\<lambda>t. gret (Public t))"

definition arb_hashable_block_data ::
  "'u arbitrary_api \<Rightarrow> crypto \<Rightarrow> ('u, hashable_block_data) gen" where
  "arb_hashable_block_data A C = gbind (draw_below A 8) (\<lambda>n.
     gbind (grepeat n (arb_lee_transaction A C)) (\<lambda>transactions.
     gbind (prim (draw_u64 A)) (\<lambda>block_id.
     gbind (prim (draw_bytes32 A)) (\<lambda>prev.
     gbind (prim (draw_u64 A)) (\<lambda>timestamp.
       gret \<lparr>hbd_block_id = block_id, hbd_prev_block_hash = prev,
             hbd_timestamp = timestamp, hbd_transactions = transactions\<rparr>)))))"

subsection \<open>Contracts\<close>

text \<open>The only panic: the fallback seed is no valid key.\<close>

definition bad_seed :: "crypto \<Rightarrow> panic \<Rightarrow> bool" where
  "bad_seed C p \<longleftrightarrow> p = Expect_Failed ''known-good seed'' \<and> private_key_try_new C seed_bytes = None"

definition valid_private_key :: "crypto \<Rightarrow> private_key \<Rightarrow> bool" where
  "valid_private_key C k \<longleftrightarrow> (\<exists>b. private_key_try_new C b = Some k)"

definition valid_public_key :: "crypto \<Rightarrow> public_key \<Rightarrow> bool" where
  "valid_public_key C pk \<longleftrightarrow> (\<exists>b. public_key_try_new C b = Some pk) \<or>
     (\<exists>k. valid_private_key C k \<and> pk = public_key_new_from_private_key C k)"

definition message_shape :: "pub_message \<Rightarrow> bool" where
  "message_shape m \<longleftrightarrow> length (msg_nonces m) = length (msg_shard_selectors m) \<and>
     length (msg_shard_selectors m) \<le> 7"

definition witness_shape :: "crypto \<Rightarrow> witness_set \<Rightarrow> bool" where
  "witness_shape C w \<longleftrightarrow> length (ws_signatures_and_public_keys w) \<le> 3 \<and>
     (\<forall>(s, pk) \<in> set (ws_signatures_and_public_keys w). valid_public_key C pk)"

definition public_tx_shape :: "crypto \<Rightarrow> public_transaction \<Rightarrow> bool" where
  "public_tx_shape C t \<longleftrightarrow> message_shape (pt_message t) \<and> witness_shape C (pt_witness_set t)"

definition lee_tx_shape :: "crypto \<Rightarrow> lee_transaction \<Rightarrow> bool" where
  "lee_tx_shape C t \<longleftrightarrow> (\<exists>p. t = Public p \<and> public_tx_shape C p)"

definition block_shape :: "crypto \<Rightarrow> hashable_block_data \<Rightarrow> bool" where
  "block_shape C b \<longleftrightarrow> length (hbd_transactions b) \<le> 7 \<and>
     (\<forall>t\<in>set (hbd_transactions b). lee_tx_shape C t)"

lemma contract_known_good_key [gen_intros]:
  "contract_gen (glift (known_good_key C)) (valid_private_key C) (bad_seed C)"
  by (rule contract_glift)
    (auto simp: known_good_key_def outcome_simps bad_seed_def valid_private_key_def)

lemma contract_account_id [gen_intros]: "contract_gen (arb_account_id A) (\<lambda>_. True) Q"
  unfolding arb_account_id_def by (rule contract_gbind_any) (auto intro: gen_intros)

lemma contract_nonce [gen_intros]: "contract_gen (arb_nonce A) (\<lambda>_. True) Q"
  unfolding arb_nonce_def by (rule gen_intros)

lemma contract_signature [gen_intros]: "contract_gen (arb_signature A) (\<lambda>_. True) Q"
  unfolding arb_signature_def by (rule contract_gbind_any) (auto intro: gen_intros)

lemma contract_private_key [gen_intros]:
  "contract_gen (arb_private_key A C) (valid_private_key C) (bad_seed C)"
  unfolding arb_private_key_def
  by (rule contract_gbind_any)
    (auto intro!: contract_prim contract_known_good_key contract_gret
      simp: valid_private_key_def split: option.splits)

interpretation priv: contract_gen "arb_private_key A C" "valid_private_key C" "bad_seed C"
  for A :: "'u arbitrary_api" and C
  by (rule contract_private_key)

lemma contract_derived_key:
  assumes "contract_gen g (valid_private_key C) Q"
  shows "contract_gen (gbind g (\<lambda>k. gret (public_key_new_from_private_key C k)))
    (valid_public_key C) Q"
  by (rule contract_gbind [OF assms]) (auto intro!: contract_gret simp: valid_public_key_def)

lemma contract_public_key [gen_intros]:
  "contract_gen (arb_public_key A C) (valid_public_key C) (bad_seed C)"
proof -
  have fallback: "contract_gen (gbind (gcatch (arb_private_key A C)) (\<lambda>r. case r of
        Inl _ \<Rightarrow> gbind (glift (known_good_key C)) (\<lambda>k. gret (public_key_new_from_private_key C k))
      | Inr k \<Rightarrow> gret (public_key_new_from_private_key C k))) (valid_public_key C) (bad_seed C)"
    by (rule contract_gbind [OF contract_gcatch [OF contract_private_key]])
      (auto intro!: contract_derived_key contract_known_good_key contract_gret
        simp: valid_public_key_def split: sum.splits)
  show ?thesis
    unfolding arb_public_key_def
    by (intro contract_gbind_any contract_prim contract_if contract_derived_key
        contract_private_key)
      (auto intro!: fallback contract_gret simp: valid_public_key_def split: option.splits)
qed

lemma contract_shard_selector [gen_intros]: "contract_gen (arb_shard_selector A) (\<lambda>_. True) Q"
  unfolding arb_shard_selector_def
  by (intro contract_gbind_any) (auto intro: gen_intros)

lemma contract_fee [gen_intros]: "contract_gen (arb_fee A) (\<lambda>_. True) Q"
  unfolding arb_fee_def
  by (intro contract_gbind_any contract_if) (auto intro: gen_intros)

lemma contract_pub_tx_message [gen_intros]: "contract_gen (arb_pub_tx_message A) message_shape Q"
  unfolding arb_pub_tx_message_def
  apply (rule contract_gbind_any [OF contract_account_id])
  apply (rule contract_gbind [OF contract_draw_below], simp)
  apply (rule contract_gbind [OF contract_grepeat [OF contract_shard_selector]])
  apply (rule contract_gbind [OF contract_grepeat [OF contract_nonce]])
  apply (intro contract_gbind_any contract_prim contract_fee contract_gret)
  apply (simp add: message_shape_def)
  done

interpretation pub_message: contract_gen "arb_pub_tx_message A" message_shape "\<lambda>_. False"
  for A :: "'u arbitrary_api"
  by (rule contract_pub_tx_message)

lemma contract_witness_pair [gen_intros]:
  "contract_gen (arb_witness_pair A C) (\<lambda>(s, pk). valid_public_key C pk) (bad_seed C)"
  unfolding arb_witness_pair_def
  by (rule contract_gbind_any [OF contract_signature],
      rule contract_gbind [OF contract_public_key]) (auto intro: gen_intros)

lemma contract_witness_set [gen_intros]:
  "contract_gen (arb_witness_set A C) (witness_shape C) (bad_seed C)"
  unfolding arb_witness_set_def
  by (rule contract_gbind [OF contract_draw_below], simp,
      rule contract_gbind [OF contract_grepeat [OF contract_witness_pair]])
    (auto intro!: contract_gret simp: witness_shape_def)

interpretation witness: contract_gen "arb_witness_set A C" "witness_shape C" "bad_seed C"
  for A :: "'u arbitrary_api" and C
  by (rule contract_witness_set)

lemma contract_public_transaction [gen_intros]:
  "contract_gen (arb_public_transaction A C) (public_tx_shape C) (bad_seed C)"
  unfolding arb_public_transaction_def
  by (rule contract_gbind [OF contract_pub_tx_message],
      rule contract_gbind [OF contract_witness_set])
    (auto intro!: contract_gret simp: public_tx_shape_def)

lemma contract_lee_transaction [gen_intros]:
  "contract_gen (arb_lee_transaction A C) (lee_tx_shape C) (bad_seed C)"
  unfolding arb_lee_transaction_def
  by (rule contract_gbind [OF contract_public_transaction])
    (auto intro!: contract_gret simp: lee_tx_shape_def)

interpretation lee_tx: contract_gen "arb_lee_transaction A C" "lee_tx_shape C" "bad_seed C"
  for A :: "'u arbitrary_api" and C
  by (rule contract_lee_transaction)

lemma contract_hashable_block_data [gen_intros]:
  "contract_gen (arb_hashable_block_data A C) (block_shape C) (bad_seed C)"
  unfolding arb_hashable_block_data_def
  by (rule contract_gbind [OF contract_draw_below], simp,
      rule contract_gbind [OF contract_grepeat [OF contract_lee_transaction]])
    (auto intro!: contract_gbind_any contract_prim contract_gret simp: block_shape_def)

interpretation block: contract_gen "arb_hashable_block_data A C" "block_shape C" "bad_seed C"
  for A :: "'u arbitrary_api" and C
  by (rule contract_hashable_block_data)

end
