(* ===== verification/Invariants.thy ===== *)
theory Invariants
  imports Lez_Types
begin

text \<open>
  \<open>fuzz_props/src/invariants.rs\<close>: the snapshots of balances and nonces, the trait
  \<open>ProtocolInvariant\<close> with its three implementations, the two standalone checks and the two
  dispatchers. The functions take the chain interface \<open>L\<close> (and the key interface \<open>C\<close> where a
  signer id is derived). The locale \<open>protocol_invariant\<close> is the trait's contract; each of the three
  implementations is an interpretation of it, and the dispatcher's correctness follows from those.
  Violation messages are modelled by the values they print.
\<close>

subsection \<open>Snapshots\<close>

type_synonym balance_snapshot = "(account_id, u128) hash_map"
type_synonym nonce_snapshot = "(account_id, u128) hash_map"

definition native_balance :: "('st, 'data, 'err, 'diff) lez \<Rightarrow> 'st \<Rightarrow> account_id \<Rightarrow> u128 outcome" where
  "native_balance L st aid = (case data_native_balance L (acc_data (get_account_by_id L st aid)) of
      Inl _ \<Rightarrow> Inl (Violation ''NativeBalanceEncoding'')
    | Inr b \<Rightarrow> Inr b)"

definition account_nonce :: "('st, 'data, 'err, 'diff) lez \<Rightarrow> 'st \<Rightarrow> account_id \<Rightarrow> u128" where
  "account_nonce L st aid = acc_nonce (get_account_by_id L st aid)"

definition snapshot_total :: "balance_snapshot \<Rightarrow> u128 outcome" where
  "snapshot_total s = expect (Violation ''BalanceOverflow'') (checked_sum (map snd s))"

text \<open>
  \<open>ids.map(native_balance).try_fold(0, checked_add).expect(..)\<close>. The iterator is lazy: balances are
  read one by one and the fold stops at the first overflow.
\<close>

fun fold_balances ::
  "('st, 'data, 'err, 'diff) lez \<Rightarrow> 'st \<Rightarrow> u128 \<Rightarrow> account_id list \<Rightarrow> u128 option outcome" where
  "fold_balances L st acc [] = Inr (Some acc)"
| "fold_balances L st acc (aid # ids) = obind (native_balance L st aid) (\<lambda>b.
     case checked_add acc b of
       None \<Rightarrow> Inr None
     | Some acc' \<Rightarrow> fold_balances L st acc' ids)"

definition sum_balances ::
  "('st, 'data, 'err, 'diff) lez \<Rightarrow> 'st \<Rightarrow> account_id list \<Rightarrow> u128 outcome" where
  "sum_balances L st ids =
     obind (fold_balances L st 0 ids) (expect (Violation ''BalanceOverflow''))"

subsection \<open>The trait and its implementations\<close>

record 'st invariant_ctx =
  ctx_state_before :: 'st
  ctx_state_after :: 'st
  ctx_execution_succeeded :: bool
  ctx_balances_before :: balance_snapshot
  ctx_nonces_before :: nonce_snapshot

datatype violation_message =
    BalanceChanged account_id u128 u128
  | TotalChanged u128 u128
  | NonceChanged account_id u128 u128

record invariant_violation =
  iv_invariant :: string
  iv_message :: violation_message

record 'st invariant_impl =
  inv_name :: string
  inv_check :: "'st invariant_ctx \<Rightarrow> invariant_violation option outcome"

fun first_balance_change ::
  "('st, 'data, 'err, 'diff) lez \<Rightarrow> 'st \<Rightarrow> balance_snapshot \<Rightarrow> invariant_violation option outcome" where
  "first_balance_change L st [] = Inr None"
| "first_balance_change L st ((aid, expected) # m) =
     obind (native_balance L st aid) (\<lambda>actual.
       if actual \<noteq> expected
       then Inr (Some \<lparr>iv_invariant = ''StateIsolationOnFailure'',
                       iv_message = BalanceChanged aid expected actual\<rparr>)
       else first_balance_change L st m)"

definition state_isolation_on_failure :: "('st, 'data, 'err, 'diff) lez \<Rightarrow> 'st invariant_impl" where
  "state_isolation_on_failure L = \<lparr>
     inv_name = ''StateIsolationOnFailure'',
     inv_check = (\<lambda>ctx.
       if \<not> ctx_execution_succeeded ctx
       then first_balance_change L (ctx_state_after ctx) (ctx_balances_before ctx)
       else Inr None)\<rparr>"

definition balance_conservation :: "('st, 'data, 'err, 'diff) lez \<Rightarrow> 'st invariant_impl" where
  "balance_conservation L = \<lparr>
     inv_name = ''BalanceConservation'',
     inv_check = (\<lambda>ctx.
       if ctx_execution_succeeded ctx
       then obind (snapshot_total (ctx_balances_before ctx)) (\<lambda>total_before.
            obind (sum_balances L (ctx_state_after ctx) (map fst (ctx_balances_before ctx))) (\<lambda>total_after.
              if total_before \<noteq> total_after
              then Inr (Some \<lparr>iv_invariant = ''BalanceConservation'',
                              iv_message = TotalChanged total_before total_after\<rparr>)
              else Inr None))
       else Inr None)\<rparr>"

fun first_nonce_change ::
  "('st, 'data, 'err, 'diff) lez \<Rightarrow> 'st \<Rightarrow> nonce_snapshot \<Rightarrow> invariant_violation option" where
  "first_nonce_change L st [] = None"
| "first_nonce_change L st ((aid, expected) # m) =
     (if account_nonce L st aid \<noteq> expected
      then Some \<lparr>iv_invariant = ''FailedTxNonceStability'',
                 iv_message = NonceChanged aid expected (account_nonce L st aid)\<rparr>
      else first_nonce_change L st m)"

definition failed_tx_nonce_stability :: "('st, 'data, 'err, 'diff) lez \<Rightarrow> 'st invariant_impl" where
  "failed_tx_nonce_stability L = \<lparr>
     inv_name = ''FailedTxNonceStability'',
     inv_check = (\<lambda>ctx.
       if \<not> ctx_execution_succeeded ctx
       then Inr (first_nonce_change L (ctx_state_after ctx) (ctx_nonces_before ctx))
       else Inr None)\<rparr>"

subsection \<open>Standalone checks and dispatchers\<close>

definition assert_replay_rejection ::
  "('st, 'data, 'err, 'diff) lez \<Rightarrow> lee_transaction \<Rightarrow> 'st \<Rightarrow> u64 \<Rightarrow> u64 \<Rightarrow> 'st outcome" where
  "assert_replay_rejection L applied_tx st next_block_id next_timestamp =
     (case execute_check_on_state L applied_tx st next_block_id next_timestamp of
        (replay, st') \<Rightarrow>
          obind (ensure (\<not> is_ok replay) (Violation ''ReplayRejection'')) (\<lambda>_. Inr st'))"

definition assert_nonce_increment_correctness ::
  "('st, 'data, 'err, 'diff) lez \<Rightarrow> account_id list \<Rightarrow> nonce_snapshot \<Rightarrow> 'st \<Rightarrow> unit outcome" where
  "assert_nonce_increment_correctness L signer_ids nonces_before state_after =
     for_each (\<lambda>aid. case hm_get nonces_before aid of
         None \<Rightarrow> Inr ()
       | Some nonce_before \<Rightarrow>
           obind (expect (Expect_Failed ''nonce overflow'') (checked_add nonce_before 1)) (\<lambda>expected.
             ensure (account_nonce L state_after aid = expected)
               (Violation ''NonceIncrementCorrectness''))) signer_ids"

definition check_invariant :: "'st invariant_ctx \<Rightarrow> 'st invariant_impl \<Rightarrow> unit outcome" where
  "check_invariant ctx impl = obind (inv_check impl ctx) (\<lambda>v. case v of
       None \<Rightarrow> Inr ()
     | Some violation \<Rightarrow> Inl (Violation (iv_invariant violation)))"

definition assert_invariants ::
  "('st, 'data, 'err, 'diff) lez \<Rightarrow> 'st invariant_ctx \<Rightarrow> unit outcome" where
  "assert_invariants L ctx = for_each (check_invariant ctx)
     [state_isolation_on_failure L, balance_conservation L, failed_tx_nonce_stability L]"

text \<open>The signer ids the dispatcher derives from the witness set of the applied transaction.\<close>

fun witness_signer_ids :: "crypto \<Rightarrow> lee_transaction \<Rightarrow> account_id list" where
  "witness_signer_ids C (Public pt) =
     map (\<lambda>(_, pk). account_id_from C pk) (ws_signatures_and_public_keys (pt_witness_set pt))"
| "witness_signer_ids C (PrivacyPreserving pt) =
     map (\<lambda>(_, pk). account_id_from C pk) (ppw_signatures_and_public_keys (ppt_witness_set pt))"

definition assert_tx_execution_invariants ::
  "('st, 'data, 'err, 'diff) lez \<Rightarrow> crypto \<Rightarrow> 'st \<Rightarrow> 'st \<Rightarrow> balance_snapshot \<Rightarrow> nonce_snapshot \<Rightarrow>
   'err + lee_transaction \<Rightarrow> u64 \<times> u64 \<Rightarrow> 'st outcome" where
  "assert_tx_execution_invariants L C state_before state_after balances_before nonces_before
     execution_result replay_context =
     obind (assert_invariants L \<lparr>
         ctx_state_before = state_before,
         ctx_state_after = state_after,
         ctx_execution_succeeded = is_ok execution_result,
         ctx_balances_before = balances_before,
         ctx_nonces_before = nonces_before\<rparr>) (\<lambda>_.
     case execution_result of
       Inl _ \<Rightarrow> Inr state_after
     | Inr applied_tx \<Rightarrow>
         obind (assert_nonce_increment_correctness L (witness_signer_ids C applied_tx)
                  nonces_before state_after) (\<lambda>_.
         case replay_context of (next_block_id, next_timestamp) \<Rightarrow>
           assert_replay_rejection L applied_tx state_after next_block_id next_timestamp))"

subsection \<open>What the checks mean\<close>

definition balances_stable :: "('st, 'data, 'err, 'diff) lez \<Rightarrow> 'st \<Rightarrow> balance_snapshot \<Rightarrow> bool" where
  "balances_stable L st m \<longleftrightarrow> (\<forall>(aid, b) \<in> set m. native_balance L st aid = Inr b)"

definition nonces_stable :: "('st, 'data, 'err, 'diff) lez \<Rightarrow> 'st \<Rightarrow> nonce_snapshot \<Rightarrow> bool" where
  "nonces_stable L st m \<longleftrightarrow> (\<forall>(aid, n) \<in> set m. account_nonce L st aid = n)"

text \<open>The exact total of the balances of \<open>ids\<close>, when all of them decode.\<close>

definition exact_total ::
  "('st, 'data, 'err, 'diff) lez \<Rightarrow> 'st \<Rightarrow> account_id list \<Rightarrow> nat \<Rightarrow> bool" where
  "exact_total L st ids t \<longleftrightarrow>
     (\<exists>bs. list_all2 (\<lambda>aid b. native_balance L st aid = Inr b) ids bs \<and> sum_list (map unat bs) = t)"

definition total_conserved :: "('st, 'data, 'err, 'diff) lez \<Rightarrow> 'st \<Rightarrow> balance_snapshot \<Rightarrow> bool" where
  "total_conserved L st m \<longleftrightarrow>
     sum_list (map (unat \<circ> snd) m) < 2 ^ 128 \<and>
     exact_total L st (map fst m) (sum_list (map (unat \<circ> snd) m))"

definition signers_incremented ::
  "('st, 'data, 'err, 'diff) lez \<Rightarrow> account_id list \<Rightarrow> nonce_snapshot \<Rightarrow> 'st \<Rightarrow> bool" where
  "signers_incremented L ids m st \<longleftrightarrow> (\<forall>aid\<in>set ids. \<forall>n. hm_get m aid = Some n \<longrightarrow>
     unat (account_nonce L st aid) = unat n + 1)"

lemma snapshot_total_Inr_iff [outcome_simps]:
  "snapshot_total m = Inr t \<longleftrightarrow>
     sum_list (map (unat \<circ> snd) m) < 2 ^ 128 \<and> unat t = sum_list (map (unat \<circ> snd) m)"
  by (simp add: snapshot_total_def outcome_simps arith_simps)

lemma fold_balances_Some_iff:
  "fold_balances L st acc ids = Inr (Some t) \<longleftrightarrow>
     (\<exists>bs. list_all2 (\<lambda>aid b. native_balance L st aid = Inr b) ids bs \<and>
       unat acc + sum_list (map unat bs) < 2 ^ 128 \<and> unat t = unat acc + sum_list (map unat bs))"
proof (induction ids arbitrary: acc)
  case Nil
  then show ?case using unsigned_less [of acc, where ?'a = nat] by (auto simp: word_unat_eq_iff)
next
  case (Cons aid ids)
  show ?case
  proof (cases "native_balance L st aid")
    case (Inl p)
    then show ?thesis by (simp add: list_all2_Cons1)
  next
    case (Inr b)
    show ?thesis
    proof (cases "checked_add acc b")
      case None
      then have "2 ^ 128 \<le> unat acc + unat b" by (simp add: arith_simps)
      with Inr None show ?thesis by (auto simp: list_all2_Cons1)
    next
      case (Some a)
      then have "unat a = unat acc + unat b" by (simp add: arith_simps)
      with Inr Some show ?thesis by (auto simp: Cons.IH list_all2_Cons1 add.assoc)
    qed
  qed
qed

lemma sum_balances_Inr_iff [outcome_simps]:
  "sum_balances L st ids = Inr t \<longleftrightarrow> exact_total L st ids (unat t)"
proof -
  have "sum_balances L st ids = Inr t \<longleftrightarrow> fold_balances L st 0 ids = Inr (Some t)"
    by (auto simp: sum_balances_def outcome_simps)
  then show ?thesis
    using unsigned_less [of t, where ?'a = nat]
    by (auto simp: fold_balances_Some_iff exact_total_def)
qed

lemma first_balance_change_None_iff [outcome_simps]:
  "first_balance_change L st m = Inr None \<longleftrightarrow> balances_stable L st m"
  by (induction m) (auto simp: balances_stable_def outcome_simps split: if_splits)

lemma first_balance_change_Some:
  "first_balance_change L st m = Inr (Some v) \<Longrightarrow>
     \<exists>aid b a. (aid, b) \<in> set m \<and> native_balance L st aid = Inr a \<and> a \<noteq> b \<and>
       v = \<lparr>iv_invariant = ''StateIsolationOnFailure'', iv_message = BalanceChanged aid b a\<rparr>"
  by (induction m)
    (auto simp: outcome_simps split: if_splits)

lemma first_nonce_change_None_iff [outcome_simps]:
  "first_nonce_change L st m = None \<longleftrightarrow> nonces_stable L st m"
  by (induction m) (auto simp: nonces_stable_def split: if_splits)

lemma first_nonce_change_Some:
  "first_nonce_change L st m = Some v \<Longrightarrow> iv_invariant v = ''FailedTxNonceStability''"
  by (induction m) (auto split: if_splits)

lemma native_balance_panic: "native_balance L st aid = Inl p \<Longrightarrow> p = Violation ''NativeBalanceEncoding''"
  by (auto simp: native_balance_def split: sum.splits)

lemma fold_balances_panic:
  "fold_balances L st acc ids = Inl p \<Longrightarrow> p = Violation ''NativeBalanceEncoding''"
  by (induction ids arbitrary: acc)
    (auto simp: outcome_simps dest: native_balance_panic split: option.splits)

lemma first_balance_change_panic:
  "first_balance_change L st m = Inl p \<Longrightarrow> p = Violation ''NativeBalanceEncoding''"
  by (induction m)
    (auto simp: outcome_simps dest: native_balance_panic split: if_splits)

subsection \<open>The contract of the trait\<close>

text \<open>
  An implementation is active on accepted or on rejected transactions only. Where it is active it
  reports nothing exactly when its rule holds; what it reports carries its name; and it panics
  itself only on a balance that does not decode or a total that does not fit.
\<close>

definition read_panic :: "panic \<Rightarrow> bool" where
  "read_panic p \<longleftrightarrow> p = Violation ''NativeBalanceEncoding'' \<or> p = Violation ''BalanceOverflow''"

locale protocol_invariant =
  fixes impl :: "'st invariant_impl"
    and active :: "'st invariant_ctx \<Rightarrow> bool"
    and rule_holds :: "'st invariant_ctx \<Rightarrow> bool"
  assumes inactive: "\<not> active ctx \<Longrightarrow> inv_check impl ctx = Inr None"
    and verdict: "active ctx \<Longrightarrow> inv_check impl ctx = Inr None \<longleftrightarrow> rule_holds ctx"
    and named: "inv_check impl ctx = Inr (Some v) \<Longrightarrow> iv_invariant v = inv_name impl"
    and panics: "inv_check impl ctx = Inl p \<Longrightarrow> read_panic p"
begin

lemma check_ok_iff: "check_invariant ctx impl = Inr () \<longleftrightarrow> (active ctx \<longrightarrow> rule_holds ctx)"
proof (cases "active ctx")
  case True
  with verdict show ?thesis
    by (auto simp: check_invariant_def outcome_simps split: option.splits)
next
  case False
  with inactive show ?thesis by (simp add: check_invariant_def)
qed

lemma check_panic:
  assumes "check_invariant ctx impl = Inl p"
  shows "active ctx \<and> \<not> rule_holds ctx \<and> (p = Violation (inv_name impl) \<or> read_panic p)"
proof -
  from assms have "check_invariant ctx impl \<noteq> Inr ()" by simp
  then have "active ctx \<and> \<not> rule_holds ctx" by (simp add: check_ok_iff)
  moreover from assms have "p = Violation (inv_name impl) \<or> read_panic p"
    by (auto simp: check_invariant_def outcome_simps dest: named panics split: option.splits)
  ultimately show ?thesis by simp
qed

end

interpretation isolation: protocol_invariant "state_isolation_on_failure L"
    "\<lambda>ctx. \<not> ctx_execution_succeeded ctx"
    "\<lambda>ctx. balances_stable L (ctx_state_after ctx) (ctx_balances_before ctx)"
  for L :: "('st, 'data, 'err, 'diff) lez"
  by unfold_locales
    (auto simp: state_isolation_on_failure_def outcome_simps read_panic_def
      dest: first_balance_change_Some first_balance_change_panic split: if_splits)

interpretation stability: protocol_invariant "failed_tx_nonce_stability L"
    "\<lambda>ctx. \<not> ctx_execution_succeeded ctx"
    "\<lambda>ctx. nonces_stable L (ctx_state_after ctx) (ctx_nonces_before ctx)"
  for L :: "('st, 'data, 'err, 'diff) lez"
  by unfold_locales
    (auto simp: failed_tx_nonce_stability_def outcome_simps
      dest: first_nonce_change_Some split: if_splits)

lemma conservation_check_iff:
  "obind (snapshot_total m) (\<lambda>b. obind (sum_balances L st (map fst m)) (\<lambda>a.
      if b \<noteq> a then Inr (Some (v b a)) else Inr None)) = Inr None \<longleftrightarrow> total_conserved L st m"
proof
  let ?s = "sum_list (map (unat \<circ> snd) m)"
  show "total_conserved L st m" if "obind (snapshot_total m) (\<lambda>b. obind (sum_balances L st (map fst m))
      (\<lambda>a. if b \<noteq> a then Inr (Some (v b a)) else Inr None)) = Inr None"
    using that by (auto simp: outcome_simps total_conserved_def split: if_splits)
  show "obind (snapshot_total m) (\<lambda>b. obind (sum_balances L st (map fst m))
      (\<lambda>a. if b \<noteq> a then Inr (Some (v b a)) else Inr None)) = Inr None" if t: "total_conserved L st m"
  proof -
    from t have "?s < 2 ^ 128" by (simp add: total_conserved_def)
    then have w: "unat (of_nat ?s :: u128) = ?s" by (simp add: unat_of_nat)
    with t show ?thesis
      by (auto simp: outcome_simps total_conserved_def intro!: exI [of _ "of_nat ?s"])
  qed
qed

lemma conservation_panic:
  "obind (snapshot_total m) (\<lambda>b. obind (sum_balances L st ids) (\<lambda>a.
      if b \<noteq> a then Inr (Some (v b a)) else Inr None)) = Inl p \<Longrightarrow> read_panic p"
  by (auto simp: obind_Inl_iff snapshot_total_def sum_balances_def expect_Inl_iff read_panic_def
      dest: fold_balances_panic split: if_splits)

lemma conservation_named:
  "obind (snapshot_total m) (\<lambda>b. obind (sum_balances L st ids) (\<lambda>a.
      if b \<noteq> a then Inr (Some \<lparr>iv_invariant = n, iv_message = w b a\<rparr>) else Inr None)) = Inr (Some v) \<Longrightarrow>
   iv_invariant v = n"
  by (auto simp: obind_Inr_iff split: if_splits)

interpretation conservation: protocol_invariant "balance_conservation L"
    "\<lambda>ctx. ctx_execution_succeeded ctx"
    "\<lambda>ctx. total_conserved L (ctx_state_after ctx) (ctx_balances_before ctx)"
  for L :: "('st, 'data, 'err, 'diff) lez"
  by unfold_locales
    (auto simp: balance_conservation_def conservation_check_iff
      dest: conservation_panic conservation_named split: if_splits)

subsection \<open>The dispatchers\<close>

lemma assert_invariants_iff:
  "assert_invariants L ctx = Inr () \<longleftrightarrow>
     (if ctx_execution_succeeded ctx
      then total_conserved L (ctx_state_after ctx) (ctx_balances_before ctx)
      else balances_stable L (ctx_state_after ctx) (ctx_balances_before ctx) \<and>
           nonces_stable L (ctx_state_after ctx) (ctx_nonces_before ctx))"
  unfolding assert_invariants_def for_each_Inr_iff
  by (simp add: isolation.check_ok_iff stability.check_ok_iff conservation.check_ok_iff)

lemma nonce_increment_iff:
  "assert_nonce_increment_correctness L ids m st = Inr () \<longleftrightarrow> signers_incremented L ids m st"
proof -
  have "(case hm_get m aid of None \<Rightarrow> Inr () | Some n \<Rightarrow>
      obind (expect (Expect_Failed ''nonce overflow'') (checked_add n 1)) (\<lambda>e.
        ensure (account_nonce L st aid = e) (Violation ''NonceIncrementCorrectness''))) = Inr () \<longleftrightarrow>
    (\<forall>n. hm_get m aid = Some n \<longrightarrow> unat (account_nonce L st aid) = unat n + 1)" for aid
    using unsigned_less [of "account_nonce L st aid", where ?'a = nat]
    by (auto simp: outcome_simps arith_simps split: option.splits)
  then show ?thesis
    by (simp add: assert_nonce_increment_correctness_def for_each_Inr_iff signers_incremented_def)
qed

lemma replay_rejection_iff:
  "assert_replay_rejection L tx st b t = Inr st' \<longleftrightarrow>
     \<not> is_ok (fst (execute_check_on_state L tx st b t)) \<and> st' = snd (execute_check_on_state L tx st b t)"
  by (auto simp: assert_replay_rejection_def outcome_simps split: prod.splits)

lemma tx_execution_invariants_iff:
  "assert_tx_execution_invariants L C st0 st bals nonces result (b, t) = Inr st' \<longleftrightarrow>
     (case result of
        Inl _ \<Rightarrow> balances_stable L st bals \<and> nonces_stable L st nonces \<and> st' = st
      | Inr tx \<Rightarrow> total_conserved L st bals \<and>
          signers_incremented L (witness_signer_ids C tx) nonces st \<and>
          \<not> is_ok (fst (execute_check_on_state L tx st b t)) \<and>
          st' = snd (execute_check_on_state L tx st b t))"
  by (cases result)
    (auto simp: assert_tx_execution_invariants_def obind_Inr_iff assert_invariants_iff
      nonce_increment_iff replay_rejection_iff)

end
