(* ===== verification/Genesis.thy ===== *)
theory Genesis
  imports Invariants
begin

text \<open>
  \<open>fuzz_props/src/genesis.rs\<close>: the genesis state built from fuzz-supplied balances and private
  accounts, and the ids it reserves for itself. The system accounts, the builtin programs and the
  builder methods of \<open>V03State\<close> come from the LEZ crates; they are the record \<open>genesis_api\<close>.
  \<open>lawful_genesis\<close> states what the code relies on about them.
\<close>

record ('st, 'data) genesis_api =
  account_funded :: "u128 \<Rightarrow> 'data account"
  account_default :: "'data account"
  sys_bridge_account_id :: account_id
  sys_bridge_account :: "'data account"
  sys_clock_account_ids :: "account_id list"
  sys_clock_account :: "'data account"
  sys_sequencer_stake_config_account_id :: account_id
  sys_sequencer_stake_config_account :: "'data account"
  sys_fee_state_account_id :: account_id
  sys_fee_state_account :: "'data account"
  sys_fee_escrow_account_id :: account_id
  sys_fee_inbox_account_id :: account_id
  sys_fee_account_ids :: "account_id list"
  prog_clock :: "account_id \<times> program"
  prog_fee :: "account_id \<times> program"
  prog_bridge :: "account_id \<times> program"
  prog_sequencer_stake :: "account_id \<times> program"
  state_new :: 'st
  with_public_accounts :: "'st \<Rightarrow> (account_id \<times> 'data account) list \<Rightarrow> 'st"
  with_private_accounts :: "'st \<Rightarrow> (commitment \<times> nullifier) list \<Rightarrow> 'st"
  with_named_programs :: "'st \<Rightarrow> (account_id \<times> program) list \<Rightarrow> 'st"

definition genesis_public_accounts ::
  "('st, 'data) genesis_api \<Rightarrow> (account_id \<times> u128) list \<Rightarrow> (account_id \<times> 'data account) list" where
  "genesis_public_accounts G balances =
     map (\<lambda>(account_id, balance). (account_id, account_funded G balance)) balances
     @ [(sys_bridge_account_id G, sys_bridge_account G)]
     @ map (\<lambda>clock_id. (clock_id, sys_clock_account G)) (sys_clock_account_ids G)
     @ [(sys_sequencer_stake_config_account_id G, sys_sequencer_stake_config_account G),
        (sys_fee_state_account_id G, sys_fee_state_account G),
        (sys_fee_escrow_account_id G, account_default G),
        (sys_fee_inbox_account_id G, account_default G)]"

definition genesis_programs :: "('st, 'data) genesis_api \<Rightarrow> (account_id \<times> program) list" where
  "genesis_programs G = [prog_clock G, prog_fee G, prog_bridge G, prog_sequencer_stake G]"

definition genesis_state ::
  "('st, 'data) genesis_api \<Rightarrow> (account_id \<times> u128) list \<Rightarrow> (commitment \<times> nullifier) list \<Rightarrow> 'st" where
  "genesis_state G balances private_accounts =
     with_named_programs G
       (with_private_accounts G
         (with_public_accounts G (state_new G) (genesis_public_accounts G balances))
         private_accounts)
       (genesis_programs G)"

definition reserved_account_ids :: "('st, 'data) genesis_api \<Rightarrow> account_id list" where
  "reserved_account_ids G =
     [sys_bridge_account_id G, sys_sequencer_stake_config_account_id G]
     @ sys_clock_account_ids G @ sys_fee_account_ids G"

subsection \<open>What the code relies on\<close>

text \<open>
  The builders: public accounts are inserted in order into a map, so the last entry of an id wins;
  private accounts live beside them; a named program writes at its own id only. A funded account
  starts at nonce 0 with its balance in the native shard. The fee accounts are the three the
  genesis code names.
\<close>

definition lawful_genesis :: "('st, 'data, 'err, 'diff) lez \<Rightarrow> ('st, 'data) genesis_api \<Rightarrow> bool" where
  "lawful_genesis L G \<longleftrightarrow>
     (\<forall>st xs aid. get_account_by_id L (with_public_accounts G st xs) aid =
        (case map_of (rev xs) aid of Some a \<Rightarrow> a | None \<Rightarrow> get_account_by_id L st aid)) \<and>
     (\<forall>st xs aid. get_account_by_id L (with_private_accounts G st xs) aid = get_account_by_id L st aid) \<and>
     (\<forall>st ps aid. aid \<notin> fst ` set ps \<longrightarrow>
        get_account_by_id L (with_named_programs G st ps) aid = get_account_by_id L st aid) \<and>
     (\<forall>b. acc_nonce (account_funded G b) = 0 \<and>
        data_native_balance L (acc_data (account_funded G b)) = Inr b) \<and>
     {sys_fee_state_account_id G, sys_fee_escrow_account_id G, sys_fee_inbox_account_id G}
       \<subseteq> set (sys_fee_account_ids G)"

text \<open>The ids genesis writes after the supplied balances.\<close>

definition system_ids :: "('st, 'data) genesis_api \<Rightarrow> account_id set" where
  "system_ids G = fst ` set (genesis_public_accounts G [])"

lemma system_ids_reserved:
  "lawful_genesis L G \<Longrightarrow> system_ids G \<subseteq> set (reserved_account_ids G)"
  by (auto simp: system_ids_def genesis_public_accounts_def reserved_account_ids_def lawful_genesis_def)

lemma genesis_public_accounts_split:
  "genesis_public_accounts G bals =
     map (\<lambda>(i, b). (i, account_funded G b)) bals @ genesis_public_accounts G []"
  by (simp add: genesis_public_accounts_def)

lemma genesis_account:
  assumes law: "lawful_genesis L G"
    and wf: "distinct (map fst bals)"
    and mem: "(aid, b) \<in> set bals"
    and free: "aid \<notin> set (reserved_account_ids G)" "aid \<notin> fst ` set (genesis_programs G)"
  shows "get_account_by_id L (genesis_state G bals priv) aid = account_funded G b"
proof -
  have "get_account_by_id L (genesis_state G bals priv) aid =
      (case map_of (rev (genesis_public_accounts G bals)) aid of
         Some a \<Rightarrow> a | None \<Rightarrow> get_account_by_id L (state_new G) aid)"
    using law free(2) by (simp add: lawful_genesis_def genesis_state_def)
  moreover have "map_of (rev (genesis_public_accounts G [])) aid = None"
    using system_ids_reserved [OF law] free(1) by (auto simp: system_ids_def map_of_eq_None_iff)
  moreover have "map_of (rev (map (\<lambda>(i, b). (i, account_funded G b)) bals)) aid
      = Some (account_funded G b)"
  proof (rule map_of_is_SomeI)
    show "distinct (map fst (rev (map (\<lambda>(i, b). (i, account_funded G b)) bals)))"
      using wf by (simp add: rev_map [symmetric] comp_def case_prod_unfold)
    show "(aid, account_funded G b) \<in> set (rev (map (\<lambda>(i, b). (i, account_funded G b)) bals))"
      using mem by force
  qed
  ultimately show ?thesis
    by (subst (asm) genesis_public_accounts_split) (simp add: map_add_def)
qed

lemma genesis_reads_back:
  assumes "lawful_genesis L G" and "distinct (map fst bals)" and "(aid, b) \<in> set bals"
    and "aid \<notin> set (reserved_account_ids G)" and "aid \<notin> fst ` set (genesis_programs G)"
  shows "native_balance L (genesis_state G bals priv) aid = Inr b"
    and "account_nonce L (genesis_state G bals priv) aid = 0"
  using genesis_account [OF assms, of priv] assms(1)
  by (simp_all add: native_balance_def account_nonce_def lawful_genesis_def)

end
