(* ===== verification/Generators.thy ===== *)
theory Generators
  imports Arbitrary_Types Genesis
begin

text \<open>
  \<open>fuzz_props/src/generators.rs\<close>: signer ids, the fuzz-driven accounts and the correlated
  transfers the fuzz targets use, and the bodies of the proptest strategies as functions of the
  values the strategy draws, each with the ranges of its draws.
\<close>

subsection \<open>Signers\<close>

fun signer_account_ids :: "crypto \<Rightarrow> lee_transaction \<Rightarrow> account_id list" where
  "signer_account_ids C (Public pt) =
     map (\<lambda>(_, pk). account_id_from C pk) (ws_signatures_and_public_keys (pt_witness_set pt))"
| "signer_account_ids C (PrivacyPreserving pt) =
     map (\<lambda>(_, pk). account_id_from C pk) (ppw_signatures_and_public_keys (ppt_witness_set pt))"

definition account_id_for_key :: "crypto \<Rightarrow> private_key \<Rightarrow> account_id" where
  "account_id_for_key C key = account_id_from C (public_key_new_from_private_key C key)"

lemma witness_signer_ids_eq [simp]: "witness_signer_ids C tx = signer_account_ids C tx"
  by (cases tx) simp_all

subsection \<open>Fuzz-driven accounts\<close>

record fuzz_account =
  fa_account_id :: account_id
  fa_balance :: u128
  fa_private_key :: private_key

fun fuzz_state_loop ::
  "'u arbitrary_api \<Rightarrow> crypto \<Rightarrow> account_id list \<Rightarrow> nat \<Rightarrow> account_id list \<Rightarrow> fuzz_account list \<Rightarrow>
   ('u, fuzz_account list) gen" where
  "fuzz_state_loop A C reserved 0 seen accounts = gret accounts"
| "fuzz_state_loop A C reserved (Suc k) seen accounts =
     gbind (arb_private_key A C) (\<lambda>private_key.
     gbind (prim (draw_u128 A)) (\<lambda>raw.
       let account_id = account_id_for_key C private_key;
           balance = raw div 8
       in if account_id \<in> set reserved then fuzz_state_loop A C reserved k seen accounts
          else case hs_insert account_id seen of
            (False, seen') \<Rightarrow> fuzz_state_loop A C reserved k seen' accounts
          | (True, seen') \<Rightarrow> fuzz_state_loop A C reserved k seen' (accounts @
              [\<lparr>fa_account_id = account_id, fa_balance = balance, fa_private_key = private_key\<rparr>])))"

definition arbitrary_fuzz_state ::
  "'u arbitrary_api \<Rightarrow> crypto \<Rightarrow> ('st, 'data) genesis_api \<Rightarrow> ('u, fuzz_account list) gen" where
  "arbitrary_fuzz_state A C G = gbind (draw_below A 8) (\<lambda>m.
     fuzz_state_loop A C (reserved_account_ids G) (m + 1) [] [])"

text \<open>The invariant of the generator: what its account lists satisfy.\<close>

definition fuzz_state_ok :: "crypto \<Rightarrow> account_id list \<Rightarrow> fuzz_account list \<Rightarrow> bool" where
  "fuzz_state_ok C reserved accs \<longleftrightarrow>
     distinct (map fa_account_id accs) \<and>
     (\<forall>a\<in>set accs. fa_account_id a \<notin> set reserved \<and>
        fa_account_id a = account_id_for_key C (fa_private_key a) \<and>
        valid_private_key C (fa_private_key a) \<and>
        unat (fa_balance a) \<le> (2 ^ 128 - 1) div 8)"

lemma contract_fuzz_state_loop:
  assumes "fuzz_state_ok C reserved accs" and "set seen = fa_account_id ` set accs"
  shows "contract_gen (fuzz_state_loop A C reserved n seen accs)
    (\<lambda>r. fuzz_state_ok C reserved r \<and> length r \<le> length accs + n) (bad_seed C)"
  using assms
proof (induction n arbitrary: seen accs)
  case 0
  then show ?case by (auto intro: contract_gret)
next
  case (Suc n)
  show ?case
    unfolding fuzz_state_loop.simps Let_def
  proof (intro contract_gbind [OF contract_private_key] contract_gbind_any contract_prim contract_if)
    fix key and raw :: u128
    let ?id = "account_id_for_key C key"
    let ?new = "\<lparr>fa_account_id = ?id, fa_balance = raw div 8, fa_private_key = key\<rparr>"
    assume key: "valid_private_key C key"
    have keep: "contract_gen (fuzz_state_loop A C reserved n seen accs)
      (\<lambda>r. fuzz_state_ok C reserved r \<and> length r \<le> length accs + Suc n) (bad_seed C)"
      by (rule contract_weaken [OF Suc.IH [OF Suc.prems]]) auto
    show "contract_gen (fuzz_state_loop A C reserved n seen accs)
      (\<lambda>r. fuzz_state_ok C reserved r \<and> length r \<le> length accs + Suc n) (bad_seed C)" by (rule keep)
    assume free: "?id \<notin> set reserved"
    have grow: "contract_gen (fuzz_state_loop A C reserved n (seen @ [?id]) (accs @ [?new]))
      (\<lambda>r. fuzz_state_ok C reserved r \<and> length r \<le> length accs + Suc n) (bad_seed C)"
      if "?id \<notin> set seen"
    proof (rule contract_weaken [OF Suc.IH])
      have "unat (raw div 8) \<le> (2 ^ 128 - 1) div 8"
        using unat_le_max [of raw] by (simp add: unat_div div_le_mono)
      with that free key Suc.prems show "fuzz_state_ok C reserved (accs @ [?new])"
        by (auto simp: fuzz_state_ok_def)
      show "set (seen @ [?id]) = fa_account_id ` set (accs @ [?new])"
        using Suc.prems by auto
    qed auto
    from keep grow show "contract_gen (case hs_insert ?id seen of
        (True, seen') \<Rightarrow> fuzz_state_loop A C reserved n seen' (accs @ [?new])
      | (False, seen') \<Rightarrow> fuzz_state_loop A C reserved n seen' accs)
      (\<lambda>r. fuzz_state_ok C reserved r \<and> length r \<le> length accs + Suc n) (bad_seed C)"
      by (auto simp: hs_insert_def)
  qed
qed

lemma contract_fuzz_state [gen_intros]:
  "contract_gen (arbitrary_fuzz_state A C G)
     (\<lambda>r. fuzz_state_ok C (reserved_account_ids G) r \<and> length r \<le> 8) (bad_seed C)"
  unfolding arbitrary_fuzz_state_def
proof (rule contract_gbind [OF contract_draw_below])
  fix m :: nat
  assume "m < 8"
  then show "contract_gen (fuzz_state_loop A C (reserved_account_ids G) (m + 1) [] [])
     (\<lambda>r. fuzz_state_ok C (reserved_account_ids G) r \<and> length r \<le> 8) (bad_seed C)"
    by (intro contract_weaken [OF contract_fuzz_state_loop]) (auto simp: fuzz_state_ok_def)
qed simp

interpretation fuzz_state: contract_gen "arbitrary_fuzz_state A C G"
    "\<lambda>r. fuzz_state_ok C (reserved_account_ids G) r \<and> length r \<le> 8" "bad_seed C"
  for A :: "'u arbitrary_api" and C and G :: "('st, 'data) genesis_api"
  by (rule contract_fuzz_state)

text \<open>Eight capped balances never overflow a \<open>u128\<close>.\<close>

lemma capped_total:
  assumes "fuzz_state_ok C reserved accs" and "length accs \<le> 8"
  shows "sum_list (map (unat \<circ> fa_balance) accs) \<le> 2 ^ 128 - 8"
proof -
  have "sum_list (map (unat \<circ> fa_balance) accs) \<le> length accs * ((2 ^ 128 - 1) div 8)"
    using assms(1) by (intro sum_list_bound) (simp add: fuzz_state_ok_def)
  also have "\<dots> \<le> 8 * ((2 ^ 128 - 1) div 8)"
    using assms(2) by (intro mult_right_mono) auto
  finally show ?thesis by simp
qed

subsection \<open>Correlated transfers\<close>

definition biased_valid_nonce_amount :: "u8 \<Rightarrow> u128 \<Rightarrow> u128 \<Rightarrow> u128 \<times> u128" where
  "biased_valid_nonce_amount nonce_byte amount_raw balance =
     (ucast nonce_byte mod 4, amount_raw mod saturating_add balance 1)"

definition arb_fuzz_native_transfer ::
  "'u arbitrary_api \<Rightarrow> crypto \<Rightarrow> fuzz_account list \<Rightarrow> ('u, lee_transaction) gen" where
  "arb_fuzz_native_transfer A C accounts =
     (if accounts = [] then gfail IncorrectFormat
      else gbind (draw_index A (length accounts)) (\<lambda>from_idx.
           gbind (draw_index A (length accounts)) (\<lambda>to_idx.
           gbind (glift (index accounts from_idx)) (\<lambda>from.
           gbind (glift (index accounts to_idx)) (\<lambda>to.
           gbind (prim (draw_bool A)) (\<lambda>biased.
           gbind (if biased
                  then gbind (prim (draw_u8 A)) (\<lambda>b. gbind (prim (draw_u128 A)) (\<lambda>raw.
                         gret (biased_valid_nonce_amount b raw (fa_balance from))))
                  else gbind (prim (draw_u128 A)) (\<lambda>n. gbind (prim (draw_u128 A)) (\<lambda>a.
                         gret (n, a)))) (\<lambda>(nonce, amount).
             gret (create_transfer C (fa_account_id from) nonce (fa_account_id to) amount
                     (fa_private_key from)))))))))"

text \<open>What a correlated transfer is: sender and recipient are generated accounts, signed by the sender's key.\<close>

definition correlated_transfer :: "crypto \<Rightarrow> fuzz_account list \<Rightarrow> lee_transaction \<Rightarrow> bool" where
  "correlated_transfer C accs tx \<longleftrightarrow> (\<exists>from\<in>set accs. \<exists>to\<in>set accs. \<exists>nonce amount.
     tx = create_transfer C (fa_account_id from) nonce (fa_account_id to) amount (fa_private_key from))"

lemma contract_index [gen_intros]:
  "i < length xs \<Longrightarrow> contract_gen (glift (index xs i)) (\<lambda>x. x \<in> set xs) Q"
  by (rule contract_glift) (auto simp: index_def)

lemma contract_fuzz_native_transfer [gen_intros]:
  "contract_gen (arb_fuzz_native_transfer A C accs) (correlated_transfer C accs) (\<lambda>_. False)"
proof (cases "accs = []")
  case True
  then show ?thesis by (simp add: arb_fuzz_native_transfer_def contract_gfail)
next
  case False
  then have pos: "0 < length accs" by simp
  let ?Q = "\<lambda>_::panic. False"
  have "contract_gen (gbind (if biased
      then gbind (prim (draw_u8 A)) (\<lambda>b. gbind (prim (draw_u128 A)) (\<lambda>raw.
             gret (biased_valid_nonce_amount b raw (fa_balance x))))
      else gbind (prim (draw_u128 A)) (\<lambda>n. gbind (prim (draw_u128 A)) (\<lambda>a. gret (n, a))))
      (\<lambda>(nonce, amount). gret (create_transfer C (fa_account_id x) nonce (fa_account_id y)
         amount (fa_private_key x)))) (correlated_transfer C accs) ?Q"
    if "x \<in> set accs" "y \<in> set accs" for biased x y
    using that by (intro contract_gbind_any contract_if contract_prim)
      (auto intro!: contract_gret simp: correlated_transfer_def, blast)
  then show ?thesis
    using False unfolding arb_fuzz_native_transfer_def
    by (simp, intro contract_gbind [OF contract_draw_index [OF pos]]
        contract_gbind [OF contract_index] contract_gbind_any [OF contract_prim]) auto
qed

interpretation transfers: contract_gen "arb_fuzz_native_transfer A C accs"
    "correlated_transfer C accs" "\<lambda>_. False"
  for A :: "'u arbitrary_api" and C and accs
  by (rule contract_fuzz_native_transfer)

definition arbitrary_transaction :: "'u arbitrary_api \<Rightarrow> crypto \<Rightarrow> ('u, lee_transaction) gen" where
  "arbitrary_transaction A C = arb_lee_transaction A C"

lemma unat_ucast_mod_4: "unat ((ucast (b :: u8) :: u128) mod 4) = unat b mod 4"
  by (simp add: unat_mod arith_simps)

lemma biased_bounds:
  "unat (fst (biased_valid_nonce_amount b raw bal)) \<le> 3 \<and>
   snd (biased_valid_nonce_amount b raw bal) \<le> bal"
proof -
  have "unat (saturating_add bal 1) = min (unat bal + 1) (2 ^ 128 - 1)"
    by (simp add: unat_saturating_add)
  then have pos: "0 < unat (saturating_add bal 1)" and le: "unat (saturating_add bal 1) \<le> unat bal + 1"
    by simp_all
  from mod_less_divisor [OF pos, of "unat raw"] le
  have "unat (raw mod saturating_add bal 1) \<le> unat bal"
    by (simp add: unat_mod)
  moreover have "unat b mod 4 \<le> 3" by simp
  ultimately show ?thesis
    by (simp add: biased_valid_nonce_amount_def unat_ucast_mod_4 word_le_nat_alt)
qed

subsection \<open>Proptest strategies\<close>

text \<open>
  A strategy draws values in the ranges of its head and maps them through its body. The body is a
  function of the drawn values; the ranges are a predicate on them.
\<close>

definition native_transfer_ranges :: "'a list \<Rightarrow> nat \<times> nat \<times> u128 \<times> u128 \<Rightarrow> bool" where
  "native_transfer_ranges accounts = (\<lambda>(from_idx, to_idx, nonce, amount).
     from_idx < length accounts \<and> to_idx < length accounts \<and> nonce < 1000 \<and> amount < 10000)"

definition arb_native_transfer_tx ::
  "crypto \<Rightarrow> (account_id \<times> private_key) list \<Rightarrow> nat \<times> nat \<times> u128 \<times> u128 \<Rightarrow> lee_transaction outcome" where
  "arb_native_transfer_tx C accounts = (\<lambda>(from_idx, to_idx, nonce, amount).
     obind (index accounts from_idx) (\<lambda>(from_id, from_key).
     obind (index accounts to_idx) (\<lambda>(to_id, _).
       Inr (create_transfer C from_id nonce to_id amount from_key))))"

definition arb_borsh_transaction_bytes ::
  "(bytes \<Rightarrow> 'err + lee_transaction) \<Rightarrow> (lee_transaction \<Rightarrow> bytes) \<Rightarrow> lee_transaction \<Rightarrow> bytes \<Rightarrow> bytes" where
  "arb_borsh_transaction_bytes from_slice to_vec dummy raw =
     (if is_ok (from_slice raw) then raw else to_vec dummy)"

definition block_tx_count_range :: "nat \<Rightarrow> bool" where
  "block_tx_count_range n \<longleftrightarrow> n < 8"

definition arb_hashable_block :: "lee_transaction list \<Rightarrow> hashable_block_data" where
  "arb_hashable_block txs = \<lparr>hbd_block_id = 1, hbd_prev_block_hash = replicate 32 0,
     hbd_timestamp = 0, hbd_transactions = txs\<rparr>"

definition invalid_account_ranges :: "bytes \<times> u128 \<times> u128 \<Rightarrow> bool" where
  "invalid_account_ranges = (\<lambda>(phantom_id_bytes, amount, nonce).
     length phantom_id_bytes = 32 \<and> - 1 div 2 \<le> amount \<and> amount < - 1 \<and> nonce < 10)"

definition arb_invalid_account_state_tx ::
  "crypto \<Rightarrow> (account_id \<times> private_key) list \<Rightarrow> bytes \<times> u128 \<times> u128 \<Rightarrow> lee_transaction outcome" where
  "arb_invalid_account_state_tx C test_accounts = (\<lambda>(phantom_id_bytes, amount, nonce).
     obind (expect (Expect_Failed ''phantom signing key'') (private_key_try_new C phantom_id_bytes)) (\<lambda>signing_key.
     obind (expect (Expect_Failed ''at least one account'') (case test_accounts of [] \<Rightarrow> None | a # _ \<Rightarrow> Some a))
       (\<lambda>(valid_to_id, _).
         Inr (create_transfer C (AccountId phantom_id_bytes) nonce valid_to_id amount signing_key))))"

definition arb_duplicate_tx_sequence :: "lee_transaction list \<Rightarrow> lee_transaction list" where
  "arb_duplicate_tx_sequence txs = txs @ txs @ rev txs"

definition pathological_ranges :: "nat \<Rightarrow> nat \<times> nat \<times> u128 \<times> bool \<Rightarrow> bool" where
  "pathological_ranges n = (\<lambda>(from_idx, to_idx, nonce, zero_amount).
     from_idx < n \<and> to_idx < n \<and> nonce < 5)"

definition arb_pathological_sequence ::
  "crypto \<Rightarrow> (account_id \<times> private_key) list \<Rightarrow> (nat \<times> nat \<times> u128 \<times> bool) list \<Rightarrow>
   lee_transaction list outcome" where
  "arb_pathological_sequence C accounts = map_outcome (\<lambda>(from_idx, to_idx, nonce, zero_amount).
     obind (index accounts from_idx) (\<lambda>(from_id, from_key).
     obind (index accounts to_idx) (\<lambda>(to_id, _).
       let amount = (if zero_amount then 0 else - 1)
       in Inr (create_transfer C from_id nonce to_id amount from_key))))"

end
