(* ===== verification/Model_Lockstep.thy ===== *)
theory Model_Lockstep
  imports Generators
begin

text \<open>
  \<open>fuzz/fuzz_targets/fuzz_stateful_model_lockstep.rs\<close>: the reference model of native transfers and
  the fuzz target that steps it beside the chain state.

  The derived \<open>Arbitrary\<close> instance of \<open>Command\<close> is generated code; it is the parameter
  \<open>draw_command\<close>. Additions and subtractions that Rust checks in debug builds are checked here;
  \<open>lockstep_step\<close> in \<open>Lockstep_Correct\<close> shows that none of them overflows, so release builds agree.
\<close>

datatype nonce_kind = Correct | Off u8 | Nonce_Raw u128

datatype amount_kind = Zero | WithinBalance u128 | All | Excessive u128 | Amount_Raw u128

datatype command =
    Transfer u8 u8 nonce_kind amount_kind
  | AdvanceBlock u8
  | ReplayLast

subsection \<open>The reference model\<close>

type_synonym model = "(account_id, u128 \<times> u128) hash_map"

datatype predict = Reject | Accept u128

definition model_new :: "(account_id \<times> u128) list \<Rightarrow> model" where
  "model_new accounts = hm_collect (map (\<lambda>(aid, bal). (aid, (bal, 0))) accounts)"

definition model_balance :: "model \<Rightarrow> account_id \<Rightarrow> u128" where
  "model_balance m aid = (case hm_get m aid of None \<Rightarrow> 0 | Some (b, _) \<Rightarrow> b)"

definition model_nonce :: "model \<Rightarrow> account_id \<Rightarrow> u128" where
  "model_nonce m aid = (case hm_get m aid of None \<Rightarrow> 0 | Some (_, n) \<Rightarrow> n)"

definition model_predict :: "model \<Rightarrow> account_id \<Rightarrow> account_id \<Rightarrow> u128 \<Rightarrow> u128 \<Rightarrow> predict" where
  "model_predict m src dst declared_nonce amount =
     (if declared_nonce \<noteq> model_nonce m src then Reject
      else if model_balance m src < amount then Reject
      else if checked_add (model_balance m dst) amount = None then Reject
      else Accept amount)"

definition model_apply_transfer :: "model \<Rightarrow> account_id \<Rightarrow> account_id \<Rightarrow> u128 \<Rightarrow> model outcome" where
  "model_apply_transfer m src dst amount =
     obind (expect Index_Out_Of_Bounds (hm_get m src)) (\<lambda>(from_bal, from_nonce).
     obind (expect Index_Out_Of_Bounds (hm_get m dst)) (\<lambda>(to_bal, to_nonce).
     obind (expect Arith_Overflow (checked_sub from_bal amount)) (\<lambda>from_bal'.
     obind (expect Arith_Overflow (checked_add from_nonce 1)) (\<lambda>from_nonce'.
     let m1 = AList.update src (from_bal', from_nonce') m in
     obind (expect Arith_Overflow (checked_add to_bal amount)) (\<lambda>to_bal'.
       Inr (AList.update dst (to_bal', to_nonce) m1))))))"

subsection \<open>Resolving a command against the model\<close>

definition resolve_recipient :: "u8 \<Rightarrow> nat \<Rightarrow> nat \<Rightarrow> nat outcome" where
  "resolve_recipient raw from_idx len =
     (if len = 0 then Inl Arith_Overflow
      else obind (checked_rem (unat raw) (len - 1)) (\<lambda>r.
           checked_rem (from_idx + (1 + r)) len))"

fun resolve_nonce :: "nonce_kind \<Rightarrow> u128 \<Rightarrow> u128" where
  "resolve_nonce Correct current = current"
| "resolve_nonce (Off d) current = current + max (ucast d) 1"
| "resolve_nonce (Nonce_Raw n) current = n"

fun resolve_amount :: "amount_kind \<Rightarrow> u128 \<Rightarrow> u128" where
  "resolve_amount Zero balance = 0"
| "resolve_amount (WithinBalance raw) balance = raw mod saturating_add balance 1"
| "resolve_amount All balance = balance"
| "resolve_amount (Excessive raw) balance = saturating_add (saturating_add balance 1) (raw mod 1024)"
| "resolve_amount (Amount_Raw n) balance = n"

subsection \<open>The fuzz target\<close>

definition assert_state_agreement ::
  "('st, 'data, 'err, 'diff) lez \<Rightarrow> 'st \<Rightarrow> model \<Rightarrow> unit outcome" where
  "assert_state_agreement L st m = for_each (\<lambda>(aid, (model_bal, model_nonce)).
     let acc = get_account_by_id L st aid in
     obind (ensure (data_native_balance L (acc_data acc) = Inr model_bal)
              (Violation ''ModelStateAgreement'')) (\<lambda>_.
       ensure (acc_nonce acc = model_nonce) (Violation ''ModelStateAgreement''))) m"

record 'st lockstep =
  ls_state :: 'st
  ls_model :: model
  ls_block_id :: u64
  ls_timestamp :: u64
  ls_last_applied :: "lee_transaction option"

text \<open>\<open>block_id += blocks; timestamp += time; assert_state_agreement(..)\<close>: the end of every arm.\<close>

definition lockstep_advance ::
  "('st, 'data, 'err, 'diff) lez \<Rightarrow> u64 \<Rightarrow> u64 \<Rightarrow> 'st lockstep \<Rightarrow> 'st lockstep outcome" where
  "lockstep_advance L blocks time s =
     obind (expect Arith_Overflow (checked_add (ls_block_id s) blocks)) (\<lambda>block_id.
     obind (expect Arith_Overflow (checked_add (ls_timestamp s) time)) (\<lambda>timestamp.
     obind (assert_state_agreement L (ls_state s) (ls_model s)) (\<lambda>_.
       Inr (s\<lparr>ls_block_id := block_id, ls_timestamp := timestamp\<rparr>))))"

text \<open>A transfer between two resolved accounts: resolve, predict, submit, compare.\<close>

definition lockstep_transfer ::
  "('st, 'data, 'err, 'diff) lez \<Rightarrow> crypto \<Rightarrow> fuzz_account \<Rightarrow> account_id \<Rightarrow> nonce_kind \<Rightarrow> amount_kind \<Rightarrow>
   'st lockstep \<Rightarrow> 'st lockstep outcome" where
  "lockstep_transfer L C from_acc to_id nonce amount s =
     (let from_id = fa_account_id from_acc;
          declared_nonce = resolve_nonce nonce (model_nonce (ls_model s) from_id);
          amt = resolve_amount amount (model_balance (ls_model s) from_id);
          tx = create_transfer C from_id declared_nonce to_id amt (fa_private_key from_acc);
          prediction = model_predict (ls_model s) from_id to_id declared_nonce amt
      in case execute_check_on_state L tx (ls_state s) (ls_block_id s) (ls_timestamp s) of
        (result, st') \<Rightarrow>
          obind (case prediction of
              Accept a \<Rightarrow> obind (ensure (is_ok result) (Violation ''ModelAcceptanceAgreement'')) (\<lambda>_.
                  model_apply_transfer (ls_model s) from_id to_id a)
            | Reject \<Rightarrow> obind (ensure (\<not> is_ok result) (Violation ''ModelAcceptanceAgreement'')) (\<lambda>_.
                  Inr (ls_model s))) (\<lambda>m'.
            lockstep_advance L 1 1000 (s\<lparr>ls_state := st', ls_model := m',
              ls_last_applied := (case result of Inr applied \<Rightarrow> Some applied
                                   | Inl _ \<Rightarrow> ls_last_applied s)\<rparr>)))"

fun lockstep_command ::
  "('st, 'data, 'err, 'diff) lez \<Rightarrow> crypto \<Rightarrow> fuzz_account list \<Rightarrow> command \<Rightarrow> 'st lockstep \<Rightarrow>
   'st lockstep outcome" where
  "lockstep_command L C accs (AdvanceBlock jump) s =
     lockstep_advance L (1 + ucast jump) (1000 * (1 + ucast jump)) s"
| "lockstep_command L C accs ReplayLast s =
     (case ls_last_applied s of
        None \<Rightarrow> Inr s
      | Some tx \<Rightarrow>
          (case execute_check_on_state L tx (ls_state s) (ls_block_id s) (ls_timestamp s) of
             (result, st') \<Rightarrow>
               obind (ensure (\<not> is_ok result) (Violation ''ModelAcceptanceAgreement'')) (\<lambda>_.
                 lockstep_advance L 1 1000 (s\<lparr>ls_state := st'\<rparr>))))"
| "lockstep_command L C accs (Transfer from_raw to_raw nonce amount) s =
     obind (checked_rem (unat from_raw) (length accs)) (\<lambda>from_idx.
     obind (resolve_recipient to_raw from_idx (length accs)) (\<lambda>to_idx.
     obind (index accs from_idx) (\<lambda>from_acc.
     obind (index accs to_idx) (\<lambda>to_acc.
       lockstep_transfer L C from_acc (fa_account_id to_acc) nonce amount s))))"

fun lockstep_loop ::
  "('st, 'data, 'err, 'diff) lez \<Rightarrow> crypto \<Rightarrow> ('u, command) gen \<Rightarrow> fuzz_account list \<Rightarrow> nat \<Rightarrow>
   'st lockstep \<Rightarrow> ('u, 'st lockstep) gen" where
  "lockstep_loop L C draw_command accs 0 s = gret s"
| "lockstep_loop L C draw_command accs (Suc n) s = gbind (gcatch draw_command) (\<lambda>r.
     case r of
       Inl _ \<Rightarrow> gret s
     | Inr cmd \<Rightarrow> gbind (glift (lockstep_command L C accs cmd s))
                    (lockstep_loop L C draw_command accs n))"

definition lockstep_init ::
  "('st, 'data) genesis_api \<Rightarrow> fuzz_account list \<Rightarrow> 'st lockstep" where
  "lockstep_init G accs =
     (let init_accs = map (\<lambda>a. (fa_account_id a, fa_balance a)) accs in
      \<lparr>ls_state = genesis_state G init_accs [], ls_model = model_new init_accs,
       ls_block_id = 1, ls_timestamp = 0, ls_last_applied = None\<rparr>)"

definition fuzz_stateful_model_lockstep ::
  "('st, 'data, 'err, 'diff) lez \<Rightarrow> crypto \<Rightarrow> ('st, 'data) genesis_api \<Rightarrow> 'u arbitrary_api \<Rightarrow>
   ('u, command) gen \<Rightarrow> ('u, unit) gen" where
  "fuzz_stateful_model_lockstep L C G A draw_command =
     gbind (gcatch (arbitrary_fuzz_state A C G)) (\<lambda>r.
       case r of
         Inl _ \<Rightarrow> gret ()
       | Inr accs \<Rightarrow>
           if length accs < 2 then gret ()
           else gbind (gunwrap_or 0 (prim (draw_u8 A))) (\<lambda>b.
                gbind (lockstep_loop L C draw_command accs (unat b mod 32) (lockstep_init G accs))
                  (\<lambda>_. gret ())))"

subsection \<open>Laws of the reference model\<close>

text \<open>
  A ledger with replay protection, as a labelled transition system: a step submits a payment, which
  the ledger accepts or rejects. A payment is accepted only when it declares its signer's current
  nonce, the step that accepts it raises that nonce, and no step lowers a nonce or changes the
  total. Clients need only these laws: the total survives every run, and a payment once accepted is
  rejected ever after.
\<close>

inductive ledger_run :: "('m \<Rightarrow> 'x \<Rightarrow> 'm \<Rightarrow> bool) \<Rightarrow> 'm \<Rightarrow> 'x list \<Rightarrow> 'm \<Rightarrow> bool" for step where
  run_empty: "ledger_run step m [] m"
| run_cons: "step m x m1 \<Longrightarrow> ledger_run step m1 xs m2 \<Longrightarrow> ledger_run step m (x # xs) m2"

lemma ledger_run_snoc: "ledger_run step m xs m1 \<Longrightarrow> step m1 x m2 \<Longrightarrow> ledger_run step m (xs @ [x]) m2"
  by (induction rule: ledger_run.induct) (auto intro: ledger_run.intros)

locale replay_protected_ledger =
  fixes step :: "'m \<Rightarrow> 'x \<Rightarrow> 'm \<Rightarrow> bool"
    and accepts :: "'m \<Rightarrow> 'x \<Rightarrow> bool"
    and wf :: "'m \<Rightarrow> bool"
    and nonce_of :: "'m \<Rightarrow> 'x \<Rightarrow> nat"
    and declared :: "'x \<Rightarrow> nat"
    and total :: "'m \<Rightarrow> nat"
  assumes step_wf: "wf m \<Longrightarrow> step m x m' \<Longrightarrow> wf m'"
    and accepts_nonce: "accepts m x \<Longrightarrow> declared x = nonce_of m x"
    and step_spends: "wf m \<Longrightarrow> step m x m' \<Longrightarrow> accepts m x \<Longrightarrow> nonce_of m x < nonce_of m' x"
    and nonce_mono: "wf m \<Longrightarrow> step m y m' \<Longrightarrow> nonce_of m x \<le> nonce_of m' x"
    and total_kept: "wf m \<Longrightarrow> step m x m' \<Longrightarrow> total m' = total m"
begin

lemma run_keeps:
  assumes "ledger_run step m xs m'" and "wf m"
  shows "wf m' \<and> total m' = total m \<and> nonce_of m x \<le> nonce_of m' x"
  using assms
proof induction
  case (run_cons m y m1 ys m2)
  with step_wf nonce_mono [of m y m1 x] total_kept [of m y m1] show ?case by fastforce
qed simp

lemma replay_rejected:
  assumes "wf m" and "accepts m x" and "step m x m1" and "ledger_run step m1 ys m2" and "nonce_of m2 y = nonce_of m2 x"
    and "declared y = declared x"
  shows "\<not> accepts m2 y"
proof
  assume "accepts m2 y"
  then have "declared x = nonce_of m2 x" using accepts_nonce [of m2 y] assms(5,6) by simp
  moreover have "declared x < nonce_of m1 x"
    using accepts_nonce [OF assms(2)] step_spends [OF assms(1,3,2)] by simp
  moreover have "nonce_of m1 x \<le> nonce_of m2 x"
    using run_keeps [OF assms(4) step_wf [OF assms(1,3)]] by simp
  ultimately show False by simp
qed

end

definition model_total :: "model \<Rightarrow> nat" where
  "model_total m = sum_list (map (unat \<circ> fst \<circ> snd) m)"

text \<open>
  A payment between different accounts, as the target submits it: predict, and apply an accepted
  prediction. A panic of \<open>model_apply_transfer\<close> is no step.
\<close>

inductive model_step :: "model \<Rightarrow> account_id \<times> account_id \<times> u128 \<times> u128 \<Rightarrow> model \<Rightarrow> bool" where
  pay_rejected: "src \<noteq> dst \<Longrightarrow> model_predict m src dst n a = Reject \<Longrightarrow> model_step m (src, dst, n, a) m"
| pay_accepted: "src \<noteq> dst \<Longrightarrow> model_predict m src dst n a = Accept a' \<Longrightarrow>
    model_apply_transfer m src dst a' = Inr m' \<Longrightarrow> model_step m (src, dst, n, a) m'"

code_pred model_step .

inductive_cases model_stepE: "model_step m x m'"

lemma model_predict_Accept_iff:
  "model_predict m src dst n a = Accept a' \<longleftrightarrow>
     a' = a \<and> n = model_nonce m src \<and> a \<le> model_balance m src \<and>
     unat (model_balance m dst) + unat a < 2 ^ 128"
  by (auto simp: model_predict_def arith_simps)

lemma model_predict_Reject_iff:
  "model_predict m src dst n a = Reject \<longleftrightarrow>
     \<not> (n = model_nonce m src \<and> a \<le> model_balance m src \<and>
        unat (model_balance m dst) + unat a < 2 ^ 128)"
  by (auto simp: model_predict_def arith_simps)

lemma model_apply_transfer_Inr_iff:
  "model_apply_transfer m src dst a = Inr m' \<longleftrightarrow>
     (\<exists>bs ns bd nd. hm_get m src = Some (bs, ns) \<and> hm_get m dst = Some (bd, nd) \<and> a \<le> bs \<and>
        unat ns + 1 < 2 ^ 128 \<and> unat bd + unat a < 2 ^ 128 \<and>
        m' = AList.update dst (bd + a, nd) (AList.update src (bs - a, ns + 1) m))"
  by (auto simp: model_apply_transfer_def obind_Inr_iff expect_Inr_iff checked_sub_def checked_add_def Let_def
      split: if_splits)

lemma model_apply_transfer_props:
  assumes "model_apply_transfer m src dst a = Inr m'" and wf: "hm_wf m" and neq: "src \<noteq> dst"
  shows "hm_wf m'" and "map fst m' = map fst m" and "model_total m' = model_total m"
    and "model_balance m' src = model_balance m src - a"
    and "model_balance m' dst = model_balance m dst + a"
    and "unat (model_nonce m' src) = unat (model_nonce m src) + 1"
    and "aid \<noteq> src \<Longrightarrow> model_nonce m' aid = model_nonce m aid"
    and "aid \<noteq> src \<Longrightarrow> aid \<noteq> dst \<Longrightarrow> hm_get m' aid = hm_get m aid"
proof -
  from assms(1) obtain bs ns bd nd where
    get: "hm_get m src = Some (bs, ns)" "hm_get m dst = Some (bd, nd)" and
    le: "a \<le> bs" and ns: "unat ns + 1 < 2 ^ 128" and bd: "unat bd + unat a < 2 ^ 128" and
    m': "m' = AList.update dst (bd + a, nd) (AList.update src (bs - a, ns + 1) m)"
    by (auto simp: model_apply_transfer_Inr_iff)
  let ?m1 = "AList.update src (bs - a, ns + 1) m"
  have get1: "hm_get ?m1 dst = Some (bd, nd)" using get neq by simp
  show "hm_wf m'" using wf m' by simp
  show "map fst m' = map fst m" using m' get get1 by (simp add: keys_update_known)
  show "model_balance m' src = model_balance m src - a" "model_balance m' dst = model_balance m dst + a"
    using m' get neq by (simp_all add: model_balance_def)
  show "aid \<noteq> src \<Longrightarrow> model_nonce m' aid = model_nonce m aid"
    using m' get neq by (auto simp: model_nonce_def)
  show "aid \<noteq> src \<Longrightarrow> aid \<noteq> dst \<Longrightarrow> hm_get m' aid = hm_get m aid" using m' by simp
  have "unat (ns + 1) = unat ns + 1"
    using ns by (simp add: unat_add_lem [THEN iffD1])
  then show "unat (model_nonce m' src) = unat (model_nonce m src) + 1"
    using m' get neq by (simp add: model_nonce_def)
  have "unat (bd + a) = unat bd + unat a" "unat (bs - a) = unat bs - unat a" "unat a \<le> unat bs"
    using bd le by (simp_all add: unat_add_lem [THEN iffD1] unat_sub word_le_nat_alt)
  with sum_update [OF wf get(1), of "unat \<circ> fst" "(bs - a, ns + 1)"]
    sum_update [OF hm_wf_update [OF wf] get1, of "unat \<circ> fst" "(bd + a, nd)"]
  show "model_total m' = model_total m"
    by (simp add: m' model_total_def comp_assoc)
qed

lemma accepted_amounts:
  assumes "model_predict m src dst n a = Accept a'" and "model_apply_transfer m src dst a' = Inr m'"
    and "hm_wf m" and "src \<noteq> dst"
  shows "unat (model_balance m' src) + unat a = unat (model_balance m src)"
    and "unat (model_balance m' dst) = unat (model_balance m dst) + unat a"
proof -
  have eq: "a' = a" and le: "a \<le> model_balance m src" and fits: "unat (model_balance m dst) + unat a < 2 ^ 128"
    using assms(1) by (simp_all add: model_predict_Accept_iff)
  note props = model_apply_transfer_props(4,5) [OF assms(2-4)]
  have "unat (model_balance m src - a) = unat (model_balance m src) - unat a"
    "unat a \<le> unat (model_balance m src)"
    using le by (simp_all add: unat_sub word_le_nat_alt)
  then show "unat (model_balance m' src) + unat a = unat (model_balance m src)"
    by (simp add: props(1) eq)
  show "unat (model_balance m' dst) = unat (model_balance m dst) + unat a"
    using fits by (simp add: props(2) eq unat_add_lem [THEN iffD1])
qed

lemma model_apply_transfer_enabled:
  assumes "model_predict m src dst n a = Accept a'"
    and "src \<in> fst ` set m" and "dst \<in> fst ` set m" and "unat (model_nonce m src) + 1 < 2 ^ 128"
  shows "\<exists>m'. model_apply_transfer m src dst a' = Inr m'"
proof -
  have "\<exists>v. hm_get m k = Some v" if "k \<in> fst ` set m" for k
    using that by (metis hm_get_def map_of_eq_None_iff not_None_eq)
  with assms(2,3) obtain bs ns bd nd where "hm_get m src = Some (bs, ns)" "hm_get m dst = Some (bd, nd)"
    by (metis surj_pair)
  with assms(1,4) show ?thesis
    by (auto simp: model_apply_transfer_Inr_iff model_predict_Accept_iff model_balance_def model_nonce_def)
qed

text \<open>
  The documented precondition of \<open>predict\<close>, different accounts, matters: applied to a payment to
  itself the model creates the amount and does not spend the nonce.
\<close>

lemma self_payment_mints:
  assumes "hm_get m src = Some (b, n)" and "a \<le> b" and "unat n + 1 < 2 ^ 128" and "unat b + unat a < 2 ^ 128"
  shows "model_predict m src src n a = Accept a"
    and "\<exists>m'. model_apply_transfer m src src a = Inr m' \<and> hm_get m' src = Some (b + a, n)"
  using assms by (simp_all add: model_predict_Accept_iff model_apply_transfer_Inr_iff model_nonce_def model_balance_def)

interpretation reference_model: replay_protected_ledger model_step
    "\<lambda>m (src, dst, n, a). model_predict m src dst n a \<noteq> Reject" hm_wf
    "\<lambda>m (src, dst, n, a). unat (model_nonce m src)" "\<lambda>(src, dst, n, a). unat n" model_total
proof unfold_locales
  fix m m' :: model and x y :: "account_id \<times> account_id \<times> u128 \<times> u128"
  obtain src dst n a where x: "x = (src, dst, n, a)" by (metis prod_cases4)
  show "(case x of (src, dst, n, a) \<Rightarrow> unat n) = (case x of (src, dst, n, a) \<Rightarrow> unat (model_nonce m src))"
    if "case x of (src, dst, n, a) \<Rightarrow> model_predict m src dst n a \<noteq> Reject"
    using that by (simp add: x model_predict_Reject_iff)
  assume wf: "hm_wf m" and step: "model_step m x m'"
  have kept: "hm_wf m' \<and> model_total m' = model_total m \<and>
      (\<forall>aid. unat (model_nonce m aid) \<le> unat (model_nonce m' aid)) \<and>
      (model_predict m src dst n a \<noteq> Reject \<longrightarrow> unat (model_nonce m src) < unat (model_nonce m' src))"
    using step unfolding x
  proof cases
    case (pay_accepted a')
    note props = model_apply_transfer_props [OF pay_accepted(3) wf pay_accepted(1)]
    have "unat (model_nonce m aid) \<le> unat (model_nonce m' aid)" for aid
      using props(6) props(7) [of aid] by (cases "aid = src") simp_all
    with props(1,3,6) show ?thesis by simp
  qed (use wf in simp)
  then show "hm_wf m'" and "model_total m' = model_total m" by simp_all
  from kept show "(case x of (src, dst, n, a) \<Rightarrow> unat (model_nonce m src)) < (case x of (src, dst, n, a) \<Rightarrow> unat (model_nonce m' src))"
    if "case x of (src, dst, n, a) \<Rightarrow> model_predict m src dst n a \<noteq> Reject"
    using that by (simp add: x)
  from kept show "(case y of (src, dst, n, a) \<Rightarrow> unat (model_nonce m src)) \<le> (case y of (src, dst, n, a) \<Rightarrow> unat (model_nonce m' src))"
    by (cases y) simp
qed

end
