(* ===== verification/Lockstep_Correct.thy ===== *)
theory Lockstep_Correct
  imports Model_Lockstep
begin

text \<open>
  The lockstep target as an oracle. \<open>native_transfer_rules\<close> is the list of acceptance rules the
  target's documentation gives for a transfer between two generated accounts; under it no schedule
  raises an alarm (\<open>lockstep_step\<close>, \<open>contract_lockstep\<close>), and whatever the chain does, a command
  that raises none leaves model and chain in agreement (\<open>lockstep_command_detects\<close>).
\<close>

subsection \<open>Agreement\<close>

definition agrees :: "('st, 'data, 'err, 'diff) lez \<Rightarrow> 'st \<Rightarrow> model \<Rightarrow> bool" where
  "agrees L st m \<longleftrightarrow> (\<forall>aid\<in>fst ` set m.
     native_balance L st aid = Inr (model_balance m aid) \<and> account_nonce L st aid = model_nonce m aid)"

lemma native_balance_Inr_iff: "native_balance L st aid = Inr b \<longleftrightarrow>
    data_native_balance L (acc_data (get_account_by_id L st aid)) = Inr b"
  by (simp add: native_balance_def split: sum.splits)

lemma state_agreement_iff:
  assumes "hm_wf m"
  shows "assert_state_agreement L st m = Inr () \<longleftrightarrow> agrees L st m"
proof -
  have "(aid, b, n) \<in> set m \<Longrightarrow> model_balance m aid = b \<and> model_nonce m aid = n" for aid b n
    using hm_get_wf [OF assms, of aid "(b, n)"] by (simp add: model_balance_def model_nonce_def)
  then show ?thesis
    by (fastforce simp: assert_state_agreement_def for_each_Inr_iff agrees_def Let_def obind_Inr_iff
        ensure_Inr_iff native_balance_Inr_iff account_nonce_def)
qed

lemma advance_Inr_iff:
  "lockstep_advance L b t s = Inr s' \<longleftrightarrow>
     (\<exists>b' t'. checked_add (ls_block_id s) b = Some b' \<and> checked_add (ls_timestamp s) t = Some t' \<and>
       assert_state_agreement L (ls_state s) (ls_model s) = Inr () \<and>
       s' = s\<lparr>ls_block_id := b', ls_timestamp := t'\<rparr>)"
  by (auto simp: lockstep_advance_def outcome_simps)

subsection \<open>Resolution of recipients, nonces and amounts\<close>

lemma resolve_recipient_spec:
  assumes "from_idx < n" and "2 \<le> n"
  shows "\<exists>i. resolve_recipient raw from_idx n = Inr i \<and> i < n \<and> i \<noteq> from_idx \<and>
           i = (from_idx + (1 + unat raw mod (n - 1))) mod n"
proof -
  let ?r = "1 + unat raw mod (n - 1)"
  have r: "1 \<le> ?r" "?r < n"
    using assms(2) mod_less_divisor [of "n - 1" "unat raw"] by linarith+
  have "(from_idx + ?r) mod n \<noteq> from_idx"
  proof (cases "from_idx + ?r < n")
    case False
    then have "(from_idx + ?r) mod n = from_idx + ?r - n"
      using assms(1) r by (simp add: le_mod_geq)
    with r False show ?thesis by linarith
  qed (use r in simp)
  moreover have "resolve_recipient raw from_idx n = Inr ((from_idx + ?r) mod n)"
    using assms by (simp add: resolve_recipient_def checked_rem_def)
  moreover have "(from_idx + ?r) mod n < n"
    using assms by simp
  ultimately show ?thesis by blast
qed

lemma resolve_recipient_onto:
  assumes "from_idx < n" "to_idx < n" "to_idx \<noteq> from_idx" "n \<le> 256"
  shows "\<exists>raw. resolve_recipient raw from_idx n = Inr to_idx"
proof -
  define d where "d = (if from_idx < to_idx then to_idx - from_idx - 1 else to_idx + n - from_idx - 1)"
  have d: "d < n - 1" "(from_idx + (1 + d)) mod n = to_idx"
    using assms by (auto simp: d_def le_mod_geq)
  then have "unat (of_nat d :: u8) mod (n - 1) = d"
    using assms(4) by (simp add: unat_of_nat)
  with d(2) have "resolve_recipient (of_nat d) from_idx n = Inr to_idx"
    using assms d(1) by (simp add: resolve_recipient_def checked_rem_def)
  then show ?thesis by blast
qed

lemma resolve_nonce_off: "resolve_nonce (Off d) current \<noteq> current"
proof -
  have "0 < unat (max (ucast d) 1 :: u128)"
    by (simp add: max_def word_le_nat_alt)
  then show ?thesis by auto
qed

lemma resolve_amount_within: "resolve_amount (WithinBalance raw) bal \<le> bal"
  using biased_bounds [of _ raw bal] by (simp add: biased_valid_nonce_amount_def)

lemma resolve_amount_excessive:
  "bal \<noteq> - 1 \<Longrightarrow> bal < resolve_amount (Excessive raw) bal"
  "resolve_amount (Excessive raw) (- 1) = - 1"
proof -
  show "bal < resolve_amount (Excessive raw) bal" if "bal \<noteq> - 1"
  proof -
    have m1: "unat (- 1 :: u128) = 2 ^ 128 - 1"
      by (simp add: unsigned_minus_1_eq_mask mask_eq_exp_minus_1)
    have "unat bal \<noteq> unat (- 1 :: u128)" using that by (simp only: word_unat_eq_iff not_False_eq_True)
    then have "unat bal < 2 ^ 128 - 1" using unat_le_max [of bal] m1 by simp
    then show ?thesis by (simp add: word_less_nat_alt arith_simps)
  qed
  show "resolve_amount (Excessive raw) (- 1) = - 1"
    by (simp add: word_unat_eq_iff arith_simps unsigned_minus_1_eq_mask mask_eq_exp_minus_1)
qed

subsection \<open>Detection\<close>

text \<open>
  A command that raises no alarm leaves every account of the model in agreement with the chain;
  a submitted transfer was accepted by the chain exactly when the model predicted it. Nothing is
  assumed about the chain.
\<close>

lemma advance_detects:
  "lockstep_advance L b t s = Inr s' \<Longrightarrow> hm_wf (ls_model s) \<Longrightarrow>
     agrees L (ls_state s') (ls_model s') \<and> hm_wf (ls_model s')"
  by (auto simp: advance_Inr_iff state_agreement_iff)

lemma lockstep_transfer_detects:
  assumes "lockstep_transfer L C x dst nonce amount s = Inr s'" and "hm_wf (ls_model s)"
  shows "agrees L (ls_state s') (ls_model s') \<and> hm_wf (ls_model s')"
proof -
  from assms(1) obtain s1 where "lockstep_advance L 1 1000 s1 = Inr s'"
    and "ls_model s1 = ls_model s \<or>
      (\<exists>a. model_apply_transfer (ls_model s) (fa_account_id x) dst a = Inr (ls_model s1))"
    by (fastforce simp: lockstep_transfer_def Let_def obind_Inr_iff ensure_Inr_iff
        split: prod.splits predict.splits)
  moreover from this(2) have "hm_wf (ls_model s1)"
    using assms(2) by (auto simp: model_apply_transfer_Inr_iff)
  ultimately show ?thesis by (auto dest: advance_detects)
qed

lemma lockstep_command_detects:
  assumes "lockstep_command L C accs cmd s = Inr s'" and wf: "hm_wf (ls_model s)"
    and start: "agrees L (ls_state s) (ls_model s)"
  shows "agrees L (ls_state s') (ls_model s') \<and> hm_wf (ls_model s')"
proof (cases cmd)
  case (AdvanceBlock jump)
  with assms(1) wf show ?thesis by (auto dest: advance_detects)
next
  case ReplayLast
  with assms(1) wf start show ?thesis
    by (auto simp: obind_Inr_iff dest: advance_detects split: option.splits prod.splits)
next
  case (Transfer from_raw to_raw nonce amount)
  with assms(1) wf show ?thesis
    by (auto simp: obind_Inr_iff dest: lockstep_transfer_detects)
qed

lemma contract_trivial: "contract_gen g (\<lambda>_. True) (\<lambda>_. True)"
  by unfold_locales simp_all

text \<open>Every schedule of commands keeps the agreement, on any chain and any drawn input.\<close>

lemma contract_lockstep_detects:
  fixes draw_command :: "('u, command) gen"
  assumes "hm_wf (ls_model s)" and "agrees L (ls_state s) (ls_model s)"
  shows "contract_gen (lockstep_loop L C draw_command accs n s)
    (\<lambda>s'. agrees L (ls_state s') (ls_model s') \<and> hm_wf (ls_model s')) (\<lambda>_. True)"
  using assms
proof (induction n arbitrary: s)
  case 0
  then show ?case by (auto intro: contract_gret)
next
  case (Suc n)
  have step: "contract_gen (glift (lockstep_command L C accs cmd s))
      (\<lambda>s'. agrees L (ls_state s') (ls_model s') \<and> hm_wf (ls_model s')) (\<lambda>_. True)" for cmd
    using lockstep_command_detects [OF _ Suc.prems] by (intro contract_glift) auto
  show ?case
    by (auto intro!: contract_gbind_any [OF contract_weaken [OF contract_gcatch [OF contract_trivial]]]
        contract_gbind [OF step] contract_gret Suc.IH Suc.prems split: sum.split)
qed

subsection \<open>Every deviation on a transfer is caught\<close>

text \<open>
  The chain reacts to a transfer as the model does: same verdict, and afterwards the same balances
  and nonces on every modelled account.
\<close>

definition transfer_faithful ::
  "('st, 'data, 'err, 'diff) lez \<Rightarrow> crypto \<Rightarrow> 'st lockstep \<Rightarrow> fuzz_account \<Rightarrow> account_id \<Rightarrow> u128 \<Rightarrow> u128 \<Rightarrow> bool"
  where
  "transfer_faithful L C s x dst n a \<longleftrightarrow>
     (case (model_predict (ls_model s) (fa_account_id x) dst n a,
            execute_check_on_state L (create_transfer C (fa_account_id x) n dst a (fa_private_key x))
              (ls_state s) (ls_block_id s) (ls_timestamp s)) of
        (Accept a', (Inr _, st')) \<Rightarrow>
          (case model_apply_transfer (ls_model s) (fa_account_id x) dst a' of
             Inl _ \<Rightarrow> False
           | Inr m' \<Rightarrow> agrees L st' m')
      | (Reject, (Inl _, st')) \<Rightarrow> agrees L st' (ls_model s)
      | _ \<Rightarrow> False)"

lemma raw_transfer_faithful:
  assumes "lockstep_transfer L C x dst (Nonce_Raw n) (Amount_Raw a) s = Inr s'" and "hm_wf (ls_model s)"
  shows "transfer_faithful L C s x dst n a"
proof -
  obtain r st' where ex: "execute_check_on_state L (create_transfer C (fa_account_id x) n dst a (fa_private_key x))
      (ls_state s) (ls_block_id s) (ls_timestamp s) = (r, st')" by (metis surj_pair)
  show ?thesis
  proof (cases "model_predict (ls_model s) (fa_account_id x) dst n a")
    case Reject
    with assms ex show ?thesis
      by (cases r) (auto simp: transfer_faithful_def lockstep_transfer_def outcome_simps advance_Inr_iff
          state_agreement_iff)
  next
    case (Accept a')
    with assms(1) ex obtain applied m' where r: "r = Inr applied"
      and moved: "model_apply_transfer (ls_model s) (fa_account_id x) dst a' = Inr m'"
      and same: "assert_state_agreement L st' m' = Inr ()"
      by (cases r) (auto simp: lockstep_transfer_def outcome_simps advance_Inr_iff)
    have "hm_wf m'" using moved assms(2) by (auto simp: model_apply_transfer_Inr_iff)
    with same have "agrees L st' m'" by (simp add: state_agreement_iff)
    with Accept r moved ex show ?thesis by (simp add: transfer_faithful_def)
  qed
qed

lemma transfer_command:
  assumes "i < length accs" and "j < length accs" and "i \<noteq> j" and "length accs \<le> 256"
  shows "\<exists>from_raw to_raw. lockstep_command L C accs (Transfer from_raw to_raw nonce amount) s =
    lockstep_transfer L C (accs ! i) (fa_account_id (accs ! j)) nonce amount s"
proof -
  have "unat (of_nat i :: u8) = i" using assms(1,4) by (simp add: unat_of_nat)
  then have "checked_rem (unat (of_nat i :: u8)) (length accs) = Inr i"
    using assms(1) by (auto simp: checked_rem_def)
  moreover obtain raw where "resolve_recipient raw i (length accs) = Inr j"
    using resolve_recipient_onto [of i "length accs" j] assms by auto
  ultimately have "lockstep_command L C accs (Transfer (of_nat i) raw nonce amount) s =
      lockstep_transfer L C (accs ! i) (fa_account_id (accs ! j)) nonce amount s"
    using assms(1,2) by (simp add: index_def)
  then show ?thesis by blast
qed

subsection \<open>The rules of a native transfer\<close>

text \<open>
  What the target relies on: a transfer from a keyed, unreserved account to another unreserved
  account is accepted exactly when it declares the sender's nonce, the sender can pay and the
  recipient does not overflow; it then moves the amount and raises the nonce, touching no other
  unreserved account. A rejected one changes no unreserved account.
\<close>

definition untouched ::
  "('st, 'data, 'err, 'diff) lez \<Rightarrow> account_id set \<Rightarrow> 'st \<Rightarrow> 'st \<Rightarrow> bool" where
  "untouched L ids st st' \<longleftrightarrow> (\<forall>aid\<in>ids. native_balance L st' aid = native_balance L st aid \<and>
     account_nonce L st' aid = account_nonce L st aid)"

definition transfer_accepted :: "u128 \<Rightarrow> u128 \<Rightarrow> u128 \<Rightarrow> u128 \<Rightarrow> u128 \<Rightarrow> bool" where
  "transfer_accepted nonce amount src_balance src_nonce dst_balance \<longleftrightarrow>
     nonce = src_nonce \<and> amount \<le> src_balance \<and> unat dst_balance + unat amount < 2 ^ 128"

definition native_transfer_rules ::
  "('st, 'data, 'err, 'diff) lez \<Rightarrow> crypto \<Rightarrow> account_id list \<Rightarrow> bool" where
  "native_transfer_rules L C reserved \<longleftrightarrow>
     (\<forall>key dst nonce amount st block_id timestamp bs bd src.
        valid_private_key C key \<longrightarrow> src = account_id_for_key C key \<longrightarrow> src \<noteq> dst \<longrightarrow>
        src \<notin> set reserved \<longrightarrow> dst \<notin> set reserved \<longrightarrow>
        native_balance L st src = Inr bs \<longrightarrow> native_balance L st dst = Inr bd \<longrightarrow>
        account_nonce L st src \<noteq> - 1 \<longrightarrow>
        (let tx = create_transfer C src nonce dst amount key in
         case execute_check_on_state L tx st block_id timestamp of
           (Inl _, st') \<Rightarrow> \<not> transfer_accepted nonce amount bs (account_nonce L st src) bd \<and>
             untouched L (- set reserved) st st'
         | (Inr applied, st') \<Rightarrow> transfer_accepted nonce amount bs (account_nonce L st src) bd \<and>
             applied = tx \<and>
             native_balance L st' src = Inr (bs - amount) \<and>
             native_balance L st' dst = Inr (bd + amount) \<and>
             account_nonce L st' src = account_nonce L st src + 1 \<and>
             account_nonce L st' dst = account_nonce L st dst \<and>
             untouched L (- set reserved - {src, dst}) st st'))"

lemma transfer_rulesD:
  assumes "native_transfer_rules L C reserved" and "valid_private_key C key"
    and "src = account_id_for_key C key" and "src \<noteq> dst" and "src \<notin> set reserved" and "dst \<notin> set reserved"
    and "native_balance L st src = Inr bs" and "native_balance L st dst = Inr bd"
    and "account_nonce L st src \<noteq> - 1"
    and ex: "execute_check_on_state L (create_transfer C src nonce dst amount key) st b t = (r, st')"
  shows "is_ok r \<longleftrightarrow> transfer_accepted nonce amount bs (account_nonce L st src) bd"
    and "\<not> is_ok r \<Longrightarrow> untouched L (- set reserved) st st'"
    and "r = Inr applied \<Longrightarrow> applied = create_transfer C src nonce dst amount key \<and>
             native_balance L st' src = Inr (bs - amount) \<and>
             native_balance L st' dst = Inr (bd + amount) \<and>
             account_nonce L st' src = account_nonce L st src + 1 \<and>
             account_nonce L st' dst = account_nonce L st dst \<and>
             untouched L (- set reserved - {src, dst}) st st'"
proof -
  have "let tx = create_transfer C src nonce dst amount key in
         case execute_check_on_state L tx st b t of
           (Inl _, st') \<Rightarrow> \<not> transfer_accepted nonce amount bs (account_nonce L st src) bd \<and>
             untouched L (- set reserved) st st'
         | (Inr applied, st') \<Rightarrow> transfer_accepted nonce amount bs (account_nonce L st src) bd \<and>
             applied = tx \<and>
             native_balance L st' src = Inr (bs - amount) \<and>
             native_balance L st' dst = Inr (bd + amount) \<and>
             account_nonce L st' src = account_nonce L st src + 1 \<and>
             account_nonce L st' dst = account_nonce L st dst \<and>
             untouched L (- set reserved - {src, dst}) st st'"
    using assms(1) unfolding native_transfer_rules_def using assms(2-9) by blast
  then show "is_ok r \<longleftrightarrow> transfer_accepted nonce amount bs (account_nonce L st src) bd"
    and "\<not> is_ok r \<Longrightarrow> untouched L (- set reserved) st st'"
    and "r = Inr applied \<Longrightarrow> applied = create_transfer C src nonce dst amount key \<and>
             native_balance L st' src = Inr (bs - amount) \<and>
             native_balance L st' dst = Inr (bd + amount) \<and>
             account_nonce L st' src = account_nonce L st src + 1 \<and>
             account_nonce L st' dst = account_nonce L st dst \<and>
             untouched L (- set reserved - {src, dst}) st st'"
    by (cases r; simp add: ex Let_def)+
qed

subsection \<open>No false alarms\<close>

text \<open>
  The invariant of the loop after \<open>k\<close> commands. A schedule has at most 31 of them, so nonces stay
  small and the clock is far from overflow.
\<close>

definition last_applied_spent :: "crypto \<Rightarrow> fuzz_account list \<Rightarrow> 'st lockstep \<Rightarrow> bool" where
  "last_applied_spent C accs s \<longleftrightarrow> (\<forall>tx. ls_last_applied s = Some tx \<longrightarrow>
     (\<exists>x\<in>set accs. \<exists>y\<in>set accs. \<exists>n a. fa_account_id x \<noteq> fa_account_id y \<and>
        tx = create_transfer C (fa_account_id x) n (fa_account_id y) a (fa_private_key x) \<and>
        n < model_nonce (ls_model s) (fa_account_id x)))"

definition lockstep_inv ::
  "('st, 'data, 'err, 'diff) lez \<Rightarrow> crypto \<Rightarrow> fuzz_account list \<Rightarrow> nat \<Rightarrow> 'st lockstep \<Rightarrow> bool" where
  "lockstep_inv L C accs k s \<longleftrightarrow>
     hm_wf (ls_model s) \<and> fst ` set (ls_model s) = fa_account_id ` set accs \<and>
     agrees L (ls_state s) (ls_model s) \<and>
     (\<forall>aid. unat (model_nonce (ls_model s) aid) \<le> k) \<and>
     unat (ls_block_id s) \<le> 1 + 256 * k \<and> unat (ls_timestamp s) \<le> 256000 * k \<and>
     last_applied_spent C accs s"

lemma advance_ok:
  assumes "hm_wf (ls_model s)" and "agrees L (ls_state s) (ls_model s)"
    and "unat (ls_block_id s) \<le> 1 + 256 * k" and "unat (ls_timestamp s) \<le> 256000 * k"
    and "unat b \<le> 256" and "unat t \<le> 256000" and "k < 32"
  shows "\<exists>b' t'. lockstep_advance L b t s = Inr (s\<lparr>ls_block_id := b', ls_timestamp := t'\<rparr>) \<and>
      unat b' \<le> 1 + 256 * Suc k \<and> unat t' \<le> 256000 * Suc k"
proof -
  have "checked_add (ls_block_id s) b = Some (ls_block_id s + b)"
    and "checked_add (ls_timestamp s) t = Some (ls_timestamp s + t)"
    using assms(3-7) by (simp_all add: checked_add_def)
  moreover from this have "unat (ls_block_id s + b) = unat (ls_block_id s) + unat b"
    and "unat (ls_timestamp s + t) = unat (ls_timestamp s) + unat t"
    by (simp_all add: checked_add_Some_iff)
  moreover have "assert_state_agreement L (ls_state s) (ls_model s) = Inr ()"
    using assms(1,2) by (simp add: state_agreement_iff)
  ultimately show ?thesis
    using assms(3-6) by (fastforce simp: lockstep_advance_def)
qed

lemma inv_advance:
  assumes "lockstep_inv L C accs k s" and "unat b \<le> 256" and "unat t \<le> 256000" and "k < 32"
  shows "\<exists>s'. lockstep_advance L b t s = Inr s' \<and> lockstep_inv L C accs (Suc k) s'"
proof -
  from assms(1) have "hm_wf (ls_model s)" "agrees L (ls_state s) (ls_model s)"
    "unat (ls_block_id s) \<le> 1 + 256 * k" "unat (ls_timestamp s) \<le> 256000 * k"
    by (simp_all add: lockstep_inv_def)
  from advance_ok [OF this assms(2-4)] obtain b' t' where
    "lockstep_advance L b t s = Inr (s\<lparr>ls_block_id := b', ls_timestamp := t'\<rparr>)"
    "unat b' \<le> 1 + 256 * Suc k" "unat t' \<le> 256000 * Suc k"
    by blast
  moreover from this(2,3) assms(1) have "lockstep_inv L C accs (Suc k) (s\<lparr>ls_block_id := b', ls_timestamp := t'\<rparr>)"
    by (simp add: lockstep_inv_def last_applied_spent_def le_SucI)
  ultimately show ?thesis by blast
qed

lemma jump_bounds:
  "unat (1 + ucast (jump :: u8) :: u64) \<le> 256" "unat (1000 * (1 + ucast jump) :: u64) \<le> 256000"
proof -
  have j: "unat jump \<le> 255" using unat_le_max [of jump] by simp
  have "unat (ucast jump :: u64) = unat jump" by (simp add: arith_simps)
  with j have s: "unat (1 + ucast jump :: u64) = 1 + unat jump"
    by (simp add: unat_word_ariths)
  with j show "unat (1 + ucast jump :: u64) \<le> 256" by simp
  have "unat (1000 * (1 + ucast jump) :: u64) = 1000 * (1 + unat jump)"
    using j by (subst unat_word_ariths(2), unfold s) simp
  with j show "unat (1000 * (1 + ucast jump) :: u64) \<le> 256000" by simp
qed

lemma agrees_untouched:
  assumes "agrees L st m" and "untouched L ids st st'" and "fst ` set m \<subseteq> ids"
  shows "agrees L st' m"
  unfolding agrees_def
proof
  fix aid
  assume aid: "aid \<in> fst ` set m"
  with assms(3) have "aid \<in> ids" by (rule subsetD)
  with assms(2) have "native_balance L st' aid = native_balance L st aid \<and>
      account_nonce L st' aid = account_nonce L st aid"
    unfolding untouched_def by (rule bspec)
  moreover from assms(1) aid have "native_balance L st aid = Inr (model_balance m aid) \<and>
      account_nonce L st aid = model_nonce m aid"
    unfolding agrees_def by (rule bspec)
  ultimately show "native_balance L st' aid = Inr (model_balance m aid) \<and>
      account_nonce L st' aid = model_nonce m aid" by simp
qed

lemma fuzz_state_okD:
  assumes "fuzz_state_ok C reserved accs" and "x \<in> set accs"
  shows "fa_account_id x = account_id_for_key C (fa_private_key x)"
    and "valid_private_key C (fa_private_key x)" and "fa_account_id x \<notin> set reserved"
  using assms by (auto simp: fuzz_state_ok_def)

lemma users_unreserved:
  "fuzz_state_ok C reserved accs \<Longrightarrow> fa_account_id ` set accs \<subseteq> - set reserved"
  by (auto simp: fuzz_state_ok_def)

text \<open>One submission, seen through the model.\<close>

lemma transfer_seen:
  assumes rules: "native_transfer_rules L C reserved" and ok: "fuzz_state_ok C reserved accs"
    and invar: "lockstep_inv L C accs k s" "k < 32"
    and mem: "x \<in> set accs" "y \<in> set accs" and neq: "fa_account_id x \<noteq> fa_account_id y"
    and ex: "execute_check_on_state L (create_transfer C (fa_account_id x) n (fa_account_id y) a
          (fa_private_key x)) (ls_state s) b t = (r, st')"
  shows "is_ok r \<longleftrightarrow> model_predict (ls_model s) (fa_account_id x) (fa_account_id y) n a = Accept a"
    and "\<not> is_ok r \<Longrightarrow> agrees L st' (ls_model s)"
    and "r = Inr applied \<Longrightarrow> applied = create_transfer C (fa_account_id x) n (fa_account_id y) a (fa_private_key x) \<and>
      (\<exists>m'. model_apply_transfer (ls_model s) (fa_account_id x) (fa_account_id y) a = Inr m' \<and> agrees L st' m')"
proof -
  let ?m = "ls_model s" let ?st = "ls_state s" let ?x = "fa_account_id x" let ?y = "fa_account_id y"
  have wf: "hm_wf ?m" and dom: "fst ` set ?m = fa_account_id ` set accs" and ag: "agrees L ?st ?m"
    and small: "unat (model_nonce ?m ?x) < 32"
    using invar by (auto simp: lockstep_inv_def intro: le_less_trans)
  have in_m: "?x \<in> fst ` set ?m" "?y \<in> fst ` set ?m" using mem dom by auto
  then have bal: "native_balance L ?st ?x = Inr (model_balance ?m ?x)"
    "native_balance L ?st ?y = Inr (model_balance ?m ?y)"
    and non: "account_nonce L ?st ?x = model_nonce ?m ?x" "account_nonce L ?st ?y = model_nonce ?m ?y"
    using ag by (auto simp: agrees_def)
  have "account_nonce L ?st ?x \<noteq> - 1"
    using small non by (auto simp: unsigned_minus_1_eq_mask mask_eq_exp_minus_1)
  note D = transfer_rulesD [OF rules fuzz_state_okD(2,1) [OF ok mem(1)] neq
      fuzz_state_okD(3) [OF ok mem(1)] fuzz_state_okD(3) [OF ok mem(2)] bal this ex]
  show accept: "is_ok r \<longleftrightarrow> model_predict ?m ?x ?y n a = Accept a"
    using D(1) by (simp add: transfer_accepted_def model_predict_Accept_iff non)
  show "\<not> is_ok r \<Longrightarrow> agrees L st' ?m"
    using D(2) agrees_untouched [OF ag] users_unreserved [OF ok] dom by blast
  assume r: "r = Inr applied"
  note D3 = D(3) [OF r]
  from r accept have pred: "model_predict ?m ?x ?y n a = Accept a" by simp
  have "unat (model_nonce ?m ?x) + 1 < 2 ^ 128" using small by simp
  from model_apply_transfer_enabled [OF pred in_m this]
  obtain m' where m': "model_apply_transfer ?m ?x ?y a = Inr m'" by blast
  note props = model_apply_transfer_props [OF m' wf neq]
  have "agrees L st' m'"
    unfolding agrees_def
  proof
    fix aid
    assume "aid \<in> fst ` set m'"
    also have "fst ` set m' = fst ` set ?m"
      using props(2) by (metis list.set_map)
    finally have aid: "aid \<in> fst ` set ?m" .
    have nx: "model_nonce m' ?x = model_nonce ?m ?x + 1"
      using props(6) small by (simp add: word_unat_eq_iff unat_word_ariths)
    consider "aid = ?x" | "aid = ?y" | "aid \<noteq> ?x" "aid \<noteq> ?y" by blast
    then show "native_balance L st' aid = Inr (model_balance m' aid) \<and>
        account_nonce L st' aid = model_nonce m' aid"
    proof cases
      case 1
      with D3 non props(4) nx show ?thesis by simp
    next
      case 2
      with D3 non props(5) props(7) [of ?y] neq show ?thesis by simp
    next
      case 3
      moreover have "aid \<notin> set reserved" using aid dom users_unreserved [OF ok] by blast
      moreover have "native_balance L ?st aid = Inr (model_balance ?m aid)"
        "account_nonce L ?st aid = model_nonce ?m aid"
        using ag aid by (auto simp: agrees_def)
      ultimately show ?thesis
        using D3 props(8) [of aid] by (simp add: untouched_def model_balance_def model_nonce_def)
    qed
  qed
  with m' D3 show "applied = create_transfer C ?x n ?y a (fa_private_key x) \<and>
      (\<exists>m'. model_apply_transfer ?m ?x ?y a = Inr m' \<and> agrees L st' m')" by blast
qed


lemma inv_same_model:
  assumes "lockstep_inv L C accs k s" and "agrees L st' (ls_model s)"
  shows "lockstep_inv L C accs k (s\<lparr>ls_state := st'\<rparr>)"
  using assms by (simp add: lockstep_inv_def last_applied_spent_def)

lemma lockstep_transfer_ok:
  assumes rules: "native_transfer_rules L C reserved" and ok: "fuzz_state_ok C reserved accs"
    and invar: "lockstep_inv L C accs k s" and k: "k < 32"
    and mem: "x \<in> set accs" "y \<in> set accs" and neq: "fa_account_id x \<noteq> fa_account_id y"
  shows "\<exists>s'. lockstep_transfer L C x (fa_account_id y) nonce amount s = Inr s' \<and>
    lockstep_inv L C accs (Suc k) s'"
proof -
  let ?m = "ls_model s" let ?x = "fa_account_id x" let ?y = "fa_account_id y"
  define n where "n = resolve_nonce nonce (model_nonce ?m ?x)"
  define a where "a = resolve_amount amount (model_balance ?m ?x)"
  obtain r st' where ex: "execute_check_on_state L (create_transfer C ?x n ?y a (fa_private_key x))
      (ls_state s) (ls_block_id s) (ls_timestamp s) = (r, st')" by fastforce
  note seen = transfer_seen [OF rules ok invar k mem neq ex]
  show ?thesis
  proof (cases r)
    case (Inl e)
    with seen(1) have "model_predict ?m ?x ?y n a = Reject"
      by (cases "model_predict ?m ?x ?y n a") (auto simp: model_predict_Accept_iff)
    with Inl have "lockstep_transfer L C x ?y nonce amount s =
        lockstep_advance L 1 1000 (s\<lparr>ls_state := st'\<rparr>)"
      using ex by (simp add: lockstep_transfer_def Let_def n_def a_def)
    moreover have "lockstep_inv L C accs k (s\<lparr>ls_state := st'\<rparr>)"
      using inv_same_model [OF invar] seen(2) Inl by simp
    ultimately show ?thesis using inv_advance [of L C accs k _ 1 1000] k by simp
  next
    case (Inr applied)
    with seen(1) have pred: "model_predict ?m ?x ?y n a = Accept a" by simp
    from seen(3) [OF Inr] obtain m' where m': "model_apply_transfer ?m ?x ?y a = Inr m'"
      and ag: "agrees L st' m'"
      and applied: "applied = create_transfer C ?x n ?y a (fa_private_key x)" by blast
    let ?s = "s\<lparr>ls_state := st', ls_model := m', ls_last_applied := Some applied\<rparr>"
    have run: "lockstep_transfer L C x ?y nonce amount s = lockstep_advance L 1 1000 ?s"
      using ex pred m' Inr by (simp add: lockstep_transfer_def Let_def n_def a_def)
    from invar have wf: "hm_wf ?m" and small: "\<And>aid. unat (model_nonce ?m aid) \<le> k"
      by (auto simp: lockstep_inv_def)
    note props = model_apply_transfer_props [OF m' wf neq]
    have "\<exists>s'. lockstep_advance L 1 1000 ?s = Inr s' \<and> unat (ls_block_id s') \<le> 1 + 256 * Suc k \<and>
        unat (ls_timestamp s') \<le> 256000 * Suc k \<and> ls_model s' = m' \<and> ls_state s' = st' \<and>
        ls_last_applied s' = Some applied"
      using advance_ok [of ?s L k 1 1000] invar k ag props(1) by (fastforce simp: lockstep_inv_def)
    then obtain s' where adv: "lockstep_advance L 1 1000 ?s = Inr s'"
      "unat (ls_block_id s') \<le> 1 + 256 * Suc k" "unat (ls_timestamp s') \<le> 256000 * Suc k"
      and s': "ls_model s' = m'" "ls_state s' = st'" "ls_last_applied s' = Some applied" by blast
    have "unat (model_nonce m' aid) \<le> Suc k" for aid
      using small [of aid] props(6) props(7) [of aid] by (cases "aid = ?x") auto
    moreover have "fst ` set m' = fst ` set ?m" using props(2) by (metis list.set_map)
    moreover have "n < model_nonce m' ?x"
      using pred props(6) by (simp add: model_predict_Accept_iff word_less_nat_alt)
    then have "last_applied_spent C accs s'"
      using mem neq applied s' by (auto simp: last_applied_spent_def)
    ultimately have "lockstep_inv L C accs (Suc k) s'"
      using invar props(1) ag adv(2,3) s' by (simp add: lockstep_inv_def)
    with run adv(1) show ?thesis by auto
  qed
qed

lemma replay_ok:
  assumes rules: "native_transfer_rules L C reserved" and ok: "fuzz_state_ok C reserved accs"
    and invar: "lockstep_inv L C accs k s" and k: "k < 32"
  shows "\<exists>s'. lockstep_command L C accs ReplayLast s = Inr s' \<and> lockstep_inv L C accs (Suc k) s'"
proof (cases "ls_last_applied s")
  case None
  moreover have "lockstep_inv L C accs (Suc k) s"
    using invar by (force simp: lockstep_inv_def intro: le_SucI)
  ultimately show ?thesis by simp
next
  case (Some tx)
  with invar obtain x y n a where mem: "x \<in> set accs" "y \<in> set accs"
    and neq: "fa_account_id x \<noteq> fa_account_id y"
    and tx: "tx = create_transfer C (fa_account_id x) n (fa_account_id y) a (fa_private_key x)"
    and spent: "n < model_nonce (ls_model s) (fa_account_id x)"
    unfolding lockstep_inv_def last_applied_spent_def by blast
  obtain r st' where ex: "execute_check_on_state L tx (ls_state s) (ls_block_id s) (ls_timestamp s) = (r, st')"
    by fastforce
  note seen = transfer_seen [OF rules ok invar k mem neq ex [unfolded tx]]
  have rej: "\<not> is_ok r" using seen(1) spent by (auto simp: model_predict_Accept_iff)
  then have "lockstep_inv L C accs k (s\<lparr>ls_state := st'\<rparr>)"
    using inv_same_model [OF invar] seen(2) by simp
  then show ?thesis
    using Some ex rej inv_advance [of L C accs k _ 1 1000] k by simp
qed

lemma lockstep_step:
  assumes rules: "native_transfer_rules L C reserved" and ok: "fuzz_state_ok C reserved accs"
    and len: "2 \<le> length accs" and invar: "lockstep_inv L C accs k s" and k: "k < 32"
  shows "\<exists>s'. lockstep_command L C accs cmd s = Inr s' \<and> lockstep_inv L C accs (Suc k) s'"
proof (cases cmd)
  case (AdvanceBlock jump)
  then show ?thesis using inv_advance [OF invar jump_bounds k] by simp
next
  case ReplayLast
  then show ?thesis using replay_ok [OF rules ok invar k] by simp
next
  case (Transfer from_raw to_raw nonce amount)
  let ?f = "unat from_raw mod length accs"
  have f: "?f < length accs" using len by (intro mod_less_divisor) linarith
  obtain t where t: "resolve_recipient to_raw ?f (length accs) = Inr t" "t < length accs" "t \<noteq> ?f"
    using resolve_recipient_spec [OF f len, of to_raw] by blast
  have "distinct (map fa_account_id accs)" using ok by (simp add: fuzz_state_ok_def)
  with t f have "map fa_account_id accs ! ?f \<noteq> map fa_account_id accs ! t"
    by (simp only: nth_eq_iff_index_eq length_map not_False_eq_True)
  then have neq: "fa_account_id (accs ! ?f) \<noteq> fa_account_id (accs ! t)" using t f by simp
  have "checked_rem (unat from_raw) (length accs) = Inr ?f" using len by (auto simp: checked_rem_def)
  then have "lockstep_command L C accs cmd s =
      lockstep_transfer L C (accs ! ?f) (fa_account_id (accs ! t)) nonce amount s"
    using Transfer t f by (simp add: index_def)
  with lockstep_transfer_ok [OF rules ok invar k nth_mem [OF f] nth_mem [OF t(2)] neq]
  show ?thesis by simp
qed


subsection \<open>The whole target\<close>

text \<open>No generated account has the id of a genesis program (ids of programs are image hashes).\<close>

definition programs_apart :: "crypto \<Rightarrow> ('st, 'data) genesis_api \<Rightarrow> bool" where
  "programs_apart C G \<longleftrightarrow> (\<forall>key. valid_private_key C key \<longrightarrow>
     account_id_for_key C key \<notin> fst ` set (genesis_programs G))"

lemma genesis_user_account:
  assumes law: "lawful_genesis L G" and apart: "programs_apart C G"
    and ok: "fuzz_state_ok C (reserved_account_ids G) accs" and x: "x \<in> set accs"
  shows "native_balance L (genesis_state G (map (\<lambda>a. (fa_account_id a, fa_balance a)) accs) priv)
      (fa_account_id x) = Inr (fa_balance x)"
    and "account_nonce L (genesis_state G (map (\<lambda>a. (fa_account_id a, fa_balance a)) accs) priv)
      (fa_account_id x) = 0"
proof -
  have d: "distinct (map fst (map (\<lambda>a. (fa_account_id a, fa_balance a)) accs))"
    using ok by (simp add: fuzz_state_ok_def comp_def)
  have m: "(fa_account_id x, fa_balance x) \<in> set (map (\<lambda>a. (fa_account_id a, fa_balance a)) accs)"
    using x by auto
  have r: "fa_account_id x \<notin> set (reserved_account_ids G)" by (rule fuzz_state_okD(3) [OF ok x])
  have p: "fa_account_id x \<notin> fst ` set (genesis_programs G)"
    using apart fuzz_state_okD(1,2) [OF ok x] by (simp add: programs_apart_def)
  note g = genesis_reads_back [OF law d m r p]
  show "native_balance L (genesis_state G (map (\<lambda>a. (fa_account_id a, fa_balance a)) accs) priv)
      (fa_account_id x) = Inr (fa_balance x)" by (rule g(1))
  show "account_nonce L (genesis_state G (map (\<lambda>a. (fa_account_id a, fa_balance a)) accs) priv)
      (fa_account_id x) = 0" by (rule g(2))
qed

lemma model_new_get:
  assumes "distinct (map fa_account_id accs)" and "x \<in> set accs"
  shows "hm_get (model_new (map (\<lambda>a. (fa_account_id a, fa_balance a)) accs)) (fa_account_id x) =
    Some (fa_balance x, 0)"
proof -
  let ?xs = "map (\<lambda>a. (fa_account_id a, (fa_balance a, 0 :: u128))) accs"
  have "distinct (map fst ?xs)" using assms(1) by (simp add: comp_def)
  then have "model_new (map (\<lambda>a. (fa_account_id a, fa_balance a)) accs) = ?xs"
    by (simp add: model_new_def comp_def hm_collect_distinct)
  moreover have "hm_wf ?xs" using assms(1) by (simp add: hm_wf_def comp_def)
  ultimately show ?thesis using assms(2) hm_get_wf by force
qed

lemma lockstep_init_inv:
  assumes "lawful_genesis L G" and "programs_apart C G" and "fuzz_state_ok C (reserved_account_ids G) accs"
  shows "lockstep_inv L C accs 0 (lockstep_init G accs)"
proof -
  let ?bals = "map (\<lambda>a. (fa_account_id a, fa_balance a)) accs"
  let ?m = "model_new ?bals"
  have d: "distinct (map fa_account_id accs)" using assms(3) by (simp add: fuzz_state_ok_def)
  have dom: "fst ` set ?m = fa_account_id ` set accs"
    by (simp add: model_new_def image_image)
  note get = model_new_get [OF d]
  have "agrees L (genesis_state G ?bals []) ?m"
    unfolding agrees_def dom
    using genesis_user_account [OF assms] get by (auto simp: model_balance_def model_nonce_def)
  moreover have "model_nonce ?m aid = 0" for aid
  proof (cases "aid \<in> fst ` set ?m")
    case True
    then show ?thesis using get by (auto simp: dom model_nonce_def)
  next
    case False
    then have "hm_get ?m aid = None" by (simp add: hm_get_def map_of_eq_None_iff)
    then show ?thesis by (simp add: model_nonce_def)
  qed
  ultimately show ?thesis
    using dom by (simp add: lockstep_inv_def lockstep_init_def Let_def last_applied_spent_def model_new_def)
qed

lemma contract_lockstep_loop:
  fixes draw_command :: "('u, command) gen" and s :: "'st lockstep"
  assumes rules: "native_transfer_rules L C reserved" and ok: "fuzz_state_ok C reserved accs"
    and len: "2 \<le> length accs" and draws: "contract_gen draw_command (\<lambda>_. True) (\<lambda>_. False)"
    and invar: "lockstep_inv L C accs k s" and k: "k + n < 32"
  shows "contract_gen (lockstep_loop L C draw_command accs n s)
    (\<lambda>s'. \<exists>j \<le> k + n. lockstep_inv L C accs j s') (\<lambda>_. False)"
  using invar k
proof (induction n arbitrary: k s)
  case 0
  then show ?case by (auto intro!: contract_gret)
next
  case (Suc n)
  have step: "contract_gen (gbind (glift (lockstep_command L C accs cmd s)) (lockstep_loop L C draw_command accs n))
    (\<lambda>s'. \<exists>j \<le> k + Suc n. lockstep_inv L C accs j s') (\<lambda>_. False)" for cmd
  proof -
    obtain s1 where "lockstep_command L C accs cmd s = Inr s1" and i1: "lockstep_inv L C accs (Suc k) s1"
      using lockstep_step [OF rules ok len Suc.prems(1)] Suc.prems(2) by fastforce
    moreover have "contract_gen (lockstep_loop L C draw_command accs n s1)
      (\<lambda>s'. \<exists>j \<le> Suc k + n. lockstep_inv L C accs j s') (\<lambda>_. False)"
      using Suc.IH [OF i1] Suc.prems(2) by simp
    ultimately show ?thesis by (simp add: glift_def)
  qed
  have stop: "contract_gen (gret s :: ('u, 'st lockstep) gen) (\<lambda>s'. \<exists>j \<le> k + Suc n. lockstep_inv L C accs j s') (\<lambda>_. False)"
    using Suc.prems(1) by (intro contract_gret exI [of _ k]) simp
  show ?case
    unfolding lockstep_loop.simps
    by (rule contract_gbind [OF contract_gcatch [OF draws]])
      (use step stop in \<open>simp split: sum.split\<close>)
qed

text \<open>The target panics on no input, except for a fallback key that is no key.\<close>

lemma contract_lockstep:
  assumes "native_transfer_rules L C (reserved_account_ids G)" and "lawful_genesis L G"
    and "programs_apart C G" and "contract_gen draw_command (\<lambda>_. True) (\<lambda>_. False)"
  shows "contract_gen (fuzz_stateful_model_lockstep L C G A draw_command) (\<lambda>_. True) (bad_seed C)"
proof -
  have run: "contract_gen (gbind (lockstep_loop L C draw_command accs (unat b mod 32) (lockstep_init G accs))
      (\<lambda>_. gret ())) (\<lambda>_. True) (bad_seed C)"
    if "fuzz_state_ok C (reserved_account_ids G) accs" "\<not> length accs < 2" for accs and b :: u8
  proof (rule contract_gbind_any)
    have "contract_gen (lockstep_loop L C draw_command accs (unat b mod 32) (lockstep_init G accs))
      (\<lambda>s'. \<exists>j \<le> 0 + unat b mod 32. lockstep_inv L C accs j s') (\<lambda>_. False)"
      using that(2) by (intro contract_lockstep_loop [OF assms(1) that(1) _ assms(4)
            lockstep_init_inv [OF assms(2,3) that(1)]]) auto
    then show "contract_gen (lockstep_loop L C draw_command accs (unat b mod 32) (lockstep_init G accs))
      (\<lambda>_. True) (bad_seed C)" by (rule contract_weaken) auto
  qed (rule contract_gret, simp)
  show ?thesis
    unfolding fuzz_stateful_model_lockstep_def
    by (rule contract_gbind [OF contract_gcatch [OF contract_fuzz_state]])
      (auto split: sum.splits intro!: contract_gret contract_if run
        contract_gbind_any [OF contract_gunwrap_or [OF contract_prim]])
qed

subsection \<open>The ledger of the model\<close>

lemma model_balances_le_total:
  assumes "hm_wf m" and "src \<noteq> dst"
  shows "unat (model_balance m src) + unat (model_balance m dst) \<le> model_total m"
  using assms
proof (induction m)
  case (Cons e m)
  obtain k b n where e: "e = (k, b, n)" by (metis prod_cases3)
  have single: "unat (model_balance xs aid) \<le> model_total xs" for xs aid
    by (induction xs) (auto simp: model_balance_def model_total_def hm_get_def)
  have "hm_wf m" using Cons.prems e by (simp add: hm_wf_def)
  with Cons.IH Cons.prems(2) have
    "unat (model_balance m src) + unat (model_balance m dst) \<le> model_total m" by blast
  with single [of m src] single [of m dst] Cons.prems(2) show ?case
    by (auto simp: e model_balance_def model_total_def hm_get_def)
qed (simp add: model_balance_def model_total_def hm_get_def)

lemma model_total_new:
  assumes "distinct (map fa_account_id accs)"
  shows "model_total (model_new (map (\<lambda>a. (fa_account_id a, fa_balance a)) accs)) =
    sum_list (map (unat \<circ> fa_balance) accs)"
proof -
  let ?xs = "map (\<lambda>a. (fa_account_id a, (fa_balance a, 0 :: u128))) accs"
  have "distinct (map fst ?xs)" using assms by (simp add: comp_def)
  then have "model_new (map (\<lambda>a. (fa_account_id a, fa_balance a)) accs) = ?xs"
    by (simp add: model_new_def comp_def hm_collect_distinct)
  then show ?thesis by (simp add: model_total_def comp_def)
qed

text \<open>After any run of payments the recipient of a payable transfer has room for it.\<close>

lemma recipient_never_overflows:
  assumes "fuzz_state_ok C reserved accs" and "length accs \<le> 8" and "src \<noteq> dst"
    and "ledger_run model_step (model_new (map (\<lambda>a. (fa_account_id a, fa_balance a)) accs)) xs m"
    and "a \<le> model_balance m src"
  shows "unat (model_balance m dst) + unat a < 2 ^ 128"
proof -
  let ?m0 = "model_new (map (\<lambda>a. (fa_account_id a, fa_balance a)) accs)"
  have wf: "hm_wf ?m0" by (simp add: model_new_def)
  have "distinct (map fa_account_id accs)" using assms(1) by (simp add: fuzz_state_ok_def)
  then have "model_total m = sum_list (map (unat \<circ> fa_balance) accs)"
    using reference_model.run_keeps [OF assms(4) wf] by (simp add: model_total_new)
  also have "\<dots> \<le> 2 ^ 128 - 8" by (rule capped_total [OF assms(1,2)])
  finally have "model_total m \<le> 2 ^ 128 - 8" .
  moreover have "hm_wf m" using reference_model.run_keeps [OF assms(4) wf] by simp
  note model_balances_le_total [OF this assms(3)]
  ultimately show ?thesis using assms(5) by (simp add: word_le_nat_alt)
qed

end
