(* ===== verification/Reference_Chain.thy ===== *)
theory Reference_Chain
  imports Lockstep_Correct
begin

text \<open>
  A small concrete chain: keys are their bytes, a transfer is a public transaction with two shard
  selectors, the state is a map of accounts. It implements the interfaces \<open>arbitrary_api\<close>,
  \<open>crypto\<close>, \<open>lez\<close> and \<open>genesis_api\<close>, and satisfies the laws the development states about the
  crates, so those laws are consistent; the concrete runs below are evaluated on it.
\<close>

subsection \<open>Little-endian numbers\<close>

fun le_bytes :: "nat \<Rightarrow> nat \<Rightarrow> bytes" where
  "le_bytes 0 n = []"
| "le_bytes (Suc k) n = of_nat n # le_bytes k (n div 256)"

fun le_number :: "bytes \<Rightarrow> nat" where
  "le_number [] = 0"
| "le_number (b # bs) = unat b + 256 * le_number bs"

lemma le_number_bytes: "le_number (le_bytes k n) = n mod 256 ^ k"
proof (induction k arbitrary: n)
  case (Suc k)
  have "n mod 256 + 256 * (n div 256 mod 256 ^ k) = n mod (256 * 256 ^ k)"
    by (simp add: mod_mult2_eq)
  then show ?case by (simp add: Suc.IH unat_of_nat)
qed simp

lemma word_le_bytes: "of_nat (le_number (le_bytes 16 (unat (w :: u128)))) = w"
  using unsigned_less [of w, where ?'a = nat] by (simp add: le_number_bytes)

subsection \<open>Input\<close>

text \<open>A byte cursor; a draw past the end of the input reads zeros.\<close>

definition ref_take :: "nat \<Rightarrow> bytes \<Rightarrow> bytes \<times> bytes" where
  "ref_take n u = (take n (u @ replicate n 0), drop n u)"

definition ref_word :: "nat \<Rightarrow> bytes \<Rightarrow> (arb_error + 'a::len word) \<times> bytes" where
  "ref_word n u = (case ref_take n u of (bs, u') \<Rightarrow> (Inr (of_nat (le_number bs)), u'))"

text \<open>A vector: a byte that says whether an element follows, then the element.\<close>

fun ref_vec :: "bytes \<Rightarrow> bytes \<times> bytes" where
  "ref_vec (c # x # u) = (if odd (unat c) then (case ref_vec u of (v, u') \<Rightarrow> (x # v, u')) else ([], x # u))"
| "ref_vec [c] = ([], [])"
| "ref_vec [] = ([], [])"

definition ref_input :: "bytes arbitrary_api" where
  "ref_input = \<lparr>draw_u8 = ref_word 1, draw_u64 = ref_word 8, draw_u128 = ref_word 16,
     draw_bool = (\<lambda>u. case ref_take 1 u of (bs, u') \<Rightarrow> (Inr (odd (unat (hd bs))), u')),
     draw_bytes32 = (\<lambda>u. case ref_take 32 u of (bs, u') \<Rightarrow> (Inr bs, u')),
     draw_bytes64 = (\<lambda>u. case ref_take 64 u of (bs, u') \<Rightarrow> (Inr bs, u')),
     draw_vec_u8 = (\<lambda>u. case ref_vec u of (v, u') \<Rightarrow> (Inr v, u'))\<rparr>"

subsection \<open>Keys and transactions\<close>

fun ref_public_key :: "private_key \<Rightarrow> public_key" where
  "ref_public_key (PrivateKey b) = PublicKey b"

fun ref_account_id :: "public_key \<Rightarrow> account_id" where
  "ref_account_id (PublicKey b) = AccountId b"

definition ref_transfer ::
  "account_id \<Rightarrow> u128 \<Rightarrow> account_id \<Rightarrow> u128 \<Rightarrow> private_key \<Rightarrow> lee_transaction" where
  "ref_transfer src nonce dst amount key = Public \<lparr>
     pt_message = \<lparr>msg_program_account_id = AccountId [1],
       msg_shard_selectors = [ProgramShardSelector src (AccountId [1]), ProgramShardSelector dst (AccountId [1])],
       msg_nonces = [nonce], msg_instruction_data = le_bytes 16 (unat amount), msg_fee = None\<rparr>,
     pt_witness_set = \<lparr>ws_signatures_and_public_keys = [(\<lparr>sig_value = []\<rparr>, ref_public_key key)]\<rparr>\<rparr>"

definition ref_crypto :: crypto where
  "ref_crypto = \<lparr>
     private_key_try_new = (\<lambda>b. if length b = 32 then Some (PrivateKey b) else None),
     public_key_new_from_private_key = ref_public_key,
     public_key_try_new = (\<lambda>b. if length b = 32 then Some (PublicKey b) else None),
     account_id_from = ref_account_id,
     create_transfer = ref_transfer\<rparr>"

subsection \<open>The state\<close>

type_synonym ref_state = "(account_id, u128 account) hash_map"

datatype ref_error = Not_A_Transfer | Refused

definition ref_get :: "ref_state \<Rightarrow> account_id \<Rightarrow> u128 account" where
  "ref_get st aid = (case hm_get st aid of None \<Rightarrow> \<lparr>acc_nonce = 0, acc_data = 0\<rparr> | Some a \<Rightarrow> a)"

definition ref_put_all :: "(account_id \<times> u128 account) list \<Rightarrow> ref_state \<Rightarrow> ref_state" where
  "ref_put_all xs st = fold (\<lambda>(k, v). AList.update k v) xs st"

definition ref_diff ::
  "ref_state \<Rightarrow> account_id \<Rightarrow> u128 \<Rightarrow> account_id \<Rightarrow> u128 \<Rightarrow> ref_error + ref_state" where
  "ref_diff st src nonce dst amount =
     (let a = ref_get st src; b = ref_get st dst in
      if src \<noteq> dst \<and> transfer_accepted nonce amount (acc_data a) (acc_nonce a) (acc_data b)
      then Inr [(src, \<lparr>acc_nonce = acc_nonce a + 1, acc_data = acc_data a - amount\<rparr>),
                (dst, \<lparr>acc_nonce = acc_nonce b, acc_data = acc_data b + amount\<rparr>)]
      else Inl Refused)"

definition ref_validate :: "lee_transaction \<Rightarrow> ref_state \<Rightarrow> u64 \<Rightarrow> u64 \<Rightarrow> ref_error + ref_state" where
  "ref_validate tx st block_id timestamp = (case tx of
       Public t \<Rightarrow>
         (case (msg_shard_selectors (pt_message t), msg_nonces (pt_message t),
                ws_signatures_and_public_keys (pt_witness_set t)) of
            ([ProgramShardSelector src _, ProgramShardSelector dst _], [nonce], [(_, pk)]) \<Rightarrow>
              if ref_account_id pk = src
              then ref_diff st src nonce dst (of_nat (le_number (msg_instruction_data (pt_message t))))
              else Inl Refused
          | _ \<Rightarrow> Inl Not_A_Transfer)
     | PrivacyPreserving _ \<Rightarrow> Inl Not_A_Transfer)"

definition ref_execute ::
  "lee_transaction \<Rightarrow> ref_state \<Rightarrow> u64 \<Rightarrow> u64 \<Rightarrow> (ref_error + lee_transaction) \<times> ref_state" where
  "ref_execute tx st block_id timestamp = (case ref_validate tx st block_id timestamp of
       Inl e \<Rightarrow> (Inl e, st)
     | Inr d \<Rightarrow> (Inr tx, ref_put_all d st))"

definition ref_lez :: "(ref_state, u128, ref_error, ref_state) lez" where
  "ref_lez = \<lparr>get_account_by_id = ref_get, data_native_balance = Inr,
     stateless_check = Inr, execute_check_on_state = ref_execute,
     validate_on_state = ref_validate, apply_state_diff = ref_put_all, public_diff = (\<lambda>d. d)\<rparr>"

definition ref_genesis :: "(ref_state, u128) genesis_api" where
  "ref_genesis = \<lparr>
     account_funded = (\<lambda>b. \<lparr>acc_nonce = 0, acc_data = b\<rparr>),
     account_default = \<lparr>acc_nonce = 0, acc_data = 0\<rparr>,
     sys_bridge_account_id = AccountId [2], sys_bridge_account = \<lparr>acc_nonce = 0, acc_data = 0\<rparr>,
     sys_clock_account_ids = [AccountId [3], AccountId [4]],
     sys_clock_account = \<lparr>acc_nonce = 0, acc_data = 0\<rparr>,
     sys_sequencer_stake_config_account_id = AccountId [5],
     sys_sequencer_stake_config_account = \<lparr>acc_nonce = 0, acc_data = 0\<rparr>,
     sys_fee_state_account_id = AccountId [6],
     sys_fee_state_account = \<lparr>acc_nonce = 0, acc_data = 0\<rparr>,
     sys_fee_escrow_account_id = AccountId [7], sys_fee_inbox_account_id = AccountId [8],
     sys_fee_account_ids = [AccountId [6], AccountId [7], AccountId [8]],
     prog_clock = (AccountId [9], Program []), prog_fee = (AccountId [10], Program []),
     prog_bridge = (AccountId [11], Program []), prog_sequencer_stake = (AccountId [12], Program []),
     state_new = [],
     with_public_accounts = (\<lambda>st xs. ref_put_all xs st),
     with_private_accounts = (\<lambda>st _. st),
     with_named_programs = (\<lambda>st _. st)\<rparr>"

subsection \<open>It satisfies the laws\<close>

lemma ref_get_put_all: "ref_get (ref_put_all xs st) aid =
    (case map_of (rev xs) aid of Some a \<Rightarrow> a | None \<Rightarrow> ref_get st aid)"
proof (induction xs arbitrary: st)
  case (Cons x xs)
  obtain k v where "x = (k, v)" by fastforce
  with Cons show ?case
    by (auto simp: ref_put_all_def ref_get_def map_add_def split: option.splits)
qed (simp add: ref_put_all_def)

lemma ref_lez_simps [simp]:
  "native_balance ref_lez st aid = Inr (acc_data (ref_get st aid))"
  "account_nonce ref_lez st aid = acc_nonce (ref_get st aid)"
  "execute_check_on_state ref_lez = ref_execute"
  "create_transfer ref_crypto = ref_transfer"
  by (simp_all add: native_balance_def account_nonce_def ref_lez_def ref_crypto_def)

lemma ref_account_id_for_key [simp]: "account_id_for_key ref_crypto (PrivateKey b) = AccountId b"
  by (simp add: account_id_for_key_def ref_crypto_def)

lemma ref_validate_transfer:
  "account_id_for_key ref_crypto key = src \<Longrightarrow>
   ref_validate (ref_transfer src nonce dst amount key) st b t = ref_diff st src nonce dst amount"
  by (cases key) (simp add: ref_validate_def ref_transfer_def word_le_bytes ref_crypto_def account_id_for_key_def)

lemma ref_transfer_rules: "native_transfer_rules ref_lez ref_crypto reserved"
  unfolding native_transfer_rules_def
  by (auto simp: ref_execute_def ref_validate_transfer Let_def ref_diff_def untouched_def
      ref_get_put_all split: sum.splits if_splits)

lemma ref_lawful_genesis: "lawful_genesis ref_lez ref_genesis"
  by (auto simp: lawful_genesis_def ref_genesis_def ref_lez_def ref_get_put_all split: option.split)

lemma ref_programs_apart: "programs_apart ref_crypto ref_genesis"
  by (auto simp: programs_apart_def genesis_programs_def ref_genesis_def valid_private_key_def
      ref_crypto_def account_id_for_key_def split: if_splits)

lemma ref_seed: "private_key_try_new ref_crypto seed_bytes = Some (PrivateKey seed_bytes)"
  by (simp add: ref_crypto_def seed_bytes_def)

end
