(* ===== verification/State_Transition.thy ===== *)
theory State_Transition
  imports Reference_Chain
begin

text \<open>
  The targets that apply fuzzed transactions to a fuzzed state and check the protocol invariants
  after each: \<open>fuzz_state_transition.rs\<close>, \<open>fuzz_replay_prevention.rs\<close> and
  \<open>fuzz_multi_block_state_sequence.rs\<close>. The three share the code of one checked execution; the
  loops are generators. \<open>audited\<close> is the step relation of a run whose checks all passed; facts
  about whole runs are rule inductions on it.
\<close>

subsection \<open>One checked execution\<close>

definition snapshot_balances ::
  "('st, 'data, 'err, 'diff) lez \<Rightarrow> 'st \<Rightarrow> account_id list \<Rightarrow> balance_snapshot outcome" where
  "snapshot_balances L st ids =
     obind (map_outcome (\<lambda>aid. obind (native_balance L st aid) (\<lambda>b. Inr (aid, b))) ids) (\<lambda>xs.
       Inr (hm_collect xs))"

definition snapshot_nonces ::
  "('st, 'data, 'err, 'diff) lez \<Rightarrow> 'st \<Rightarrow> account_id list \<Rightarrow> nonce_snapshot" where
  "snapshot_nonces L st ids = hm_collect (map (\<lambda>aid. (aid, account_nonce L st aid)) ids)"

definition init_accounts :: "fuzz_account list \<Rightarrow> (account_id \<times> u128) list" where
  "init_accounts accs = map (\<lambda>a. (fa_account_id a, fa_balance a)) accs"

text \<open>Snapshots, execution and the five invariants; \<open>replay_context\<close> is the context of the replay.\<close>

lemma init_ids: "map fst (init_accounts accs) = map fa_account_id accs"
  by (simp add: init_accounts_def comp_def)

definition checked_execution ::
  "('st, 'data, 'err, 'diff) lez \<Rightarrow> crypto \<Rightarrow> (account_id \<times> u128) list \<Rightarrow> u64 \<Rightarrow> u64 \<Rightarrow> u64 \<times> u64 \<Rightarrow>
   lee_transaction \<Rightarrow> 'st \<Rightarrow> 'st outcome" where
  "checked_execution L C init block_id timestamp replay_context tx st =
     obind (snapshot_balances L st (map fst init)) (\<lambda>balances_before.
       let nonces_before = snapshot_nonces L st (map fst init)
       in case execute_check_on_state L tx st block_id timestamp of
         (result, st') \<Rightarrow>
           assert_tx_execution_invariants L C st st' balances_before nonces_before result replay_context)"

text \<open>A coin decides between a transfer among the generated accounts and an arbitrary transaction.\<close>

definition mixed_transaction ::
  "'u arbitrary_api \<Rightarrow> crypto \<Rightarrow> fuzz_account list \<Rightarrow> ('u, lee_transaction) gen" where
  "mixed_transaction A C accs = gbind (gunwrap_or False (prim (draw_bool A))) (\<lambda>correlated.
     if correlated then arb_fuzz_native_transfer A C accs else arbitrary_transaction A C)"

subsection \<open>The targets\<close>

text \<open>
  \<open>for i in 0..n\<close>: a failed draw breaks, a failed stateless check continues; \<open>time i\<close> is the
  timestamp of step \<open>i\<close>.
\<close>

fun transition_loop ::
  "('st, 'data, 'err, 'diff) lez \<Rightarrow> crypto \<Rightarrow> 'u arbitrary_api \<Rightarrow> fuzz_account list \<Rightarrow> (nat \<Rightarrow> u64) \<Rightarrow>
   nat \<Rightarrow> nat \<Rightarrow> 'st \<Rightarrow> ('u, 'st) gen" where
  "transition_loop L C A accs time i 0 st = gret st"
| "transition_loop L C A accs time i (Suc n) st = gbind (gcatch (mixed_transaction A C accs)) (\<lambda>r.
     case r of
       Inl _ \<Rightarrow> gret st
     | Inr raw \<Rightarrow>
         (case stateless_check L raw of
            Inl _ \<Rightarrow> transition_loop L C A accs time (Suc i) n st
          | Inr tx \<Rightarrow>
              let block_id = 1 + of_nat i; timestamp = time i
              in gbind (glift (checked_execution L C (init_accounts accs) block_id timestamp
                         (block_id + 1, timestamp + 1) tx st))
                   (transition_loop L C A accs time (Suc i) n)))"

definition fuzz_state_transition ::
  "('st, 'data, 'err, 'diff) lez \<Rightarrow> crypto \<Rightarrow> ('st, 'data) genesis_api \<Rightarrow> 'u arbitrary_api \<Rightarrow>
   ('u, unit) gen" where
  "fuzz_state_transition L C G A = gbind (gcatch (arbitrary_fuzz_state A C G)) (\<lambda>r.
     case r of
       Inl _ \<Rightarrow> gret ()
     | Inr accs \<Rightarrow>
         gbind (gunwrap_or 0 (prim (draw_u8 A))) (\<lambda>b.
         gbind (transition_loop L C A accs of_nat 0 (unat b mod 8)
                  (genesis_state G (init_accounts accs) [])) (\<lambda>_. gret ())))"

definition fuzz_replay_prevention ::
  "('st, 'data, 'err, 'diff) lez \<Rightarrow> crypto \<Rightarrow> ('st, 'data) genesis_api \<Rightarrow> 'u arbitrary_api \<Rightarrow>
   ('u, unit) gen" where
  "fuzz_replay_prevention L C G A = gbind (gcatch (arbitrary_fuzz_state A C G)) (\<lambda>r.
     case r of
       Inl _ \<Rightarrow> gret ()
     | Inr accs \<Rightarrow>
         (let st = genesis_state G (init_accounts accs) []
          in gbind (gcatch (mixed_transaction A C accs)) (\<lambda>tx_result.
             case tx_result of
               Inl _ \<Rightarrow> gret ()
             | Inr raw \<Rightarrow>
                 (case stateless_check L raw of
                    Inl _ \<Rightarrow> gret ()
                  | Inr tx \<Rightarrow> gbind (glift (checked_execution L C (init_accounts accs) 1 0 (2, 1) tx st))
                      (\<lambda>_. gret ())))))"

text \<open>The part of the multi-block target after the accounts are drawn, with the final state as its value.\<close>

definition multi_block_sequence ::
  "('st, 'data, 'err, 'diff) lez \<Rightarrow> crypto \<Rightarrow> 'u arbitrary_api \<Rightarrow> fuzz_account list \<Rightarrow> 'st \<Rightarrow>
   ('u, 'st) gen" where
  "multi_block_sequence L C A accs st0 =
     gbind (glift (sum_balances L st0 (map fst (init_accounts accs)))) (\<lambda>starting_total.
     gbind (gunwrap_or 0 (prim (draw_u8 A))) (\<lambda>b.
     gbind (transition_loop L C A accs (\<lambda>i. of_nat i * 1000) 0 (unat b mod 16) st0) (\<lambda>st.
     gbind (glift (sum_balances L st (map fst (init_accounts accs)))) (\<lambda>ending_total.
     gbind (glift (ensure (starting_total = ending_total) (Violation ''LongRangeBalanceConservation'')))
       (\<lambda>_. gret st)))))"

definition fuzz_multi_block_state_sequence ::
  "('st, 'data, 'err, 'diff) lez \<Rightarrow> crypto \<Rightarrow> ('st, 'data) genesis_api \<Rightarrow> 'u arbitrary_api \<Rightarrow>
   ('u, unit) gen" where
  "fuzz_multi_block_state_sequence L C G A = gbind (gcatch (arbitrary_fuzz_state A C G)) (\<lambda>r.
     case r of
       Inl _ \<Rightarrow> gret ()
     | Inr accs \<Rightarrow> gbind (multi_block_sequence L C A accs (genesis_state G (init_accounts accs) []))
         (\<lambda>_. gret ()))"

subsection \<open>What one checked execution establishes\<close>

definition readable :: "('st, 'data, 'err, 'diff) lez \<Rightarrow> 'st \<Rightarrow> account_id list \<Rightarrow> bool" where
  "readable L st ids \<longleftrightarrow> (\<forall>aid\<in>set ids. is_ok (native_balance L st aid))"

definition balance_of :: "('st, 'data, 'err, 'diff) lez \<Rightarrow> 'st \<Rightarrow> account_id \<Rightarrow> u128" where
  "balance_of L st aid = (case native_balance L st aid of Inl _ \<Rightarrow> 0 | Inr b \<Rightarrow> b)"

definition total_supply :: "('st, 'data, 'err, 'diff) lez \<Rightarrow> 'st \<Rightarrow> account_id list \<Rightarrow> nat" where
  "total_supply L st ids = sum_list (map (unat \<circ> balance_of L st) ids)"

lemma balance_of_eq: "native_balance L st aid = Inr b \<Longrightarrow> balance_of L st aid = b"
  by (simp add: balance_of_def)

lemma readable_balance: "readable L st ids \<Longrightarrow> aid \<in> set ids \<Longrightarrow> native_balance L st aid = Inr (balance_of L st aid)"
  by (auto simp: readable_def balance_of_def is_ok_iff)

lemma readings_iff:
  "list_all2 (\<lambda>aid b. native_balance L st aid = Inr b) ids bs \<longleftrightarrow>
     readable L st ids \<and> bs = map (balance_of L st) ids"
  by (induction ids arbitrary: bs)
    (auto simp: list_all2_Cons1 readable_def balance_of_def is_ok_iff)

lemma exact_total_iff: "exact_total L st ids t \<longleftrightarrow> readable L st ids \<and> total_supply L st ids = t"
  by (auto simp: exact_total_def readings_iff total_supply_def)

lemma snapshot_balances_Inr_iff:
  assumes "distinct ids"
  shows "snapshot_balances L st ids = Inr m \<longleftrightarrow>
    readable L st ids \<and> m = map (\<lambda>aid. (aid, balance_of L st aid)) ids"
proof -
  have "map_outcome (\<lambda>aid. obind (native_balance L st aid) (\<lambda>b. Inr (aid, b))) xs = Inr ys \<longleftrightarrow>
      readable L st xs \<and> ys = map (\<lambda>aid. (aid, balance_of L st aid)) xs" for xs ys
    by (induction xs arbitrary: ys) (auto simp: obind_Inr_iff readable_def is_ok_iff balance_of_def)
  then show ?thesis
    using assms by (auto simp: snapshot_balances_def obind_Inr_iff hm_collect_distinct comp_def)
qed

lemma snapshot_nonces_eq:
  assumes "distinct ids"
  shows "snapshot_nonces L st ids = map (\<lambda>aid. (aid, account_nonce L st aid)) ids"
  using assms by (simp add: snapshot_nonces_def hm_collect_distinct comp_def)

lemma snapshot_balances_panic:
  "snapshot_balances L st ids = Inl p \<Longrightarrow> p = Violation ''NativeBalanceEncoding''"
proof -
  have "map_outcome (\<lambda>aid. obind (native_balance L st aid) (\<lambda>b. Inr (aid, b))) xs = Inl p \<Longrightarrow>
      p = Violation ''NativeBalanceEncoding''" for xs
    by (induction xs) (auto simp: obind_Inl_iff dest: native_balance_panic)
  then show "snapshot_balances L st ids = Inl p \<Longrightarrow> p = Violation ''NativeBalanceEncoding''"
    by (auto simp: snapshot_balances_def obind_Inl_iff)
qed

text \<open>
  The five invariants over the accounts \<open>ids\<close>, as a relation between states. Of a signer outside
  \<open>ids\<close>, which the target does not snapshot, nothing is asked.
\<close>

definition execution_ok ::
  "('st, 'data, 'err, 'diff) lez \<Rightarrow> crypto \<Rightarrow> account_id list \<Rightarrow> u64 \<Rightarrow> u64 \<Rightarrow> u64 \<times> u64 \<Rightarrow>
   lee_transaction \<Rightarrow> 'st \<Rightarrow> 'st \<Rightarrow> bool" where
  "execution_ok L C ids b t nxt tx st st2 \<longleftrightarrow>
     (case execute_check_on_state L tx st b t of
        (Inl _, st1) \<Rightarrow> untouched L (set ids) st st1 \<and> st2 = st1
      | (Inr applied, st1) \<Rightarrow>
          readable L st1 ids \<and> total_supply L st ids < 2 ^ 128 \<and> total_supply L st1 ids = total_supply L st ids \<and>
          (\<forall>aid\<in>set (signer_account_ids C applied) \<inter> set ids.
             unat (account_nonce L st1 aid) = unat (account_nonce L st aid) + 1) \<and>
          \<not> is_ok (fst (execute_check_on_state L applied st1 (fst nxt) (snd nxt))) \<and>
          st2 = snd (execute_check_on_state L applied st1 (fst nxt) (snd nxt)))"

lemma hm_get_graph: "hm_get (map (\<lambda>k. (k, f k)) ks) k = (if k \<in> set ks then Some (f k) else None)"
  by (induction ks) (auto simp: hm_get_def)

lemma checked_execution_iff:
  assumes "distinct (map fst init)"
  shows "checked_execution L C init b t nxt tx st = Inr st2 \<longleftrightarrow>
     readable L st (map fst init) \<and> execution_ok L C (map fst init) b t nxt tx st st2"
proof -
  let ?ids = "map fst init"
  let ?bals = "map (\<lambda>aid. (aid, balance_of L st aid)) ?ids"
  let ?nons = "map (\<lambda>aid. (aid, account_nonce L st aid)) ?ids"
  obtain r st1 where ex: "execute_check_on_state L tx st b t = (r, st1)" by fastforce
  obtain b' t' where nx: "nxt = (b', t')" by fastforce
  have run: "checked_execution L C init b t nxt tx st = Inr st2 \<longleftrightarrow> readable L st ?ids \<and>
      assert_tx_execution_invariants L C st st1 ?bals ?nons r (b', t') = Inr st2"
    by (auto simp: checked_execution_def obind_Inr_iff snapshot_balances_Inr_iff [OF assms] ex nx Let_def
        snapshot_nonces_eq [OF assms])
  have stable: "readable L st ?ids \<Longrightarrow>
      balances_stable L st1 ?bals \<and> nonces_stable L st1 ?nons \<longleftrightarrow> untouched L (set ?ids) st st1"
    using readable_balance [of L st ?ids]
    by (auto simp: balances_stable_def nonces_stable_def untouched_def)
  have total: "total_conserved L st1 ?bals \<longleftrightarrow>
      readable L st1 ?ids \<and> total_supply L st ?ids < 2 ^ 128 \<and> total_supply L st1 ?ids = total_supply L st ?ids"
    by (auto simp: total_conserved_def exact_total_iff total_supply_def comp_def)
  have incr: "signers_incremented L ids ?nons st1 \<longleftrightarrow> (\<forall>aid\<in>set ids \<inter> set ?ids.
      unat (account_nonce L st1 aid) = unat (account_nonce L st aid) + 1)" for ids
    unfolding signers_incremented_def hm_get_graph by (auto simp del: map_map)
  show ?thesis
  proof (cases r)
    case (Inl e)
    then show ?thesis
      unfolding run tx_execution_invariants_iff execution_ok_def ex
      using stable by auto
  next
    case (Inr applied)
    then show ?thesis
      unfolding run unfolding tx_execution_invariants_iff execution_ok_def ex nx Inr
      by (auto simp: total incr simp del: map_map)
  qed
qed

subsection \<open>Audited runs\<close>

text \<open>
  The states a run goes through while every check passes: each step is one transaction that
  passed the stateless check, at the block and time of its position.
\<close>

inductive audited ::
  "('st, 'data, 'err, 'diff) lez \<Rightarrow> crypto \<Rightarrow> account_id list \<Rightarrow> 'st \<Rightarrow> 'st \<Rightarrow> bool"
  for L C ids where
  audited_refl: "audited L C ids st st"
| audited_step: "audited L C ids st st1 \<Longrightarrow> stateless_check L raw = Inr tx \<Longrightarrow> readable L st1 ids \<Longrightarrow>
     execution_ok L C ids b t (b + 1, t + 1) tx st1 st2 \<Longrightarrow> audited L C ids st st2"

inductive_cases audited_stepE: "audited L C ids st st2"

lemma audited_trans:
  "audited L C ids st1 st2 \<Longrightarrow> audited L C ids st st1 \<Longrightarrow> audited L C ids st st2"
  by (induction rule: audited.induct) (auto intro: audited_step)

lemma contract_fuzz_tx [gen_intros]:
  "contract_gen (mixed_transaction A C accs)
     (\<lambda>tx. correlated_transfer C accs tx \<or> lee_tx_shape C tx) (bad_seed C)"
  unfolding mixed_transaction_def arbitrary_transaction_def
  by (intro contract_gbind_any contract_gunwrap_or contract_prim contract_if)
    (auto intro: contract_weaken [OF contract_fuzz_native_transfer]
      contract_weaken [OF contract_lee_transaction])

text \<open>Which panics the checks of one execution can raise.\<close>

definition check_panic :: "panic \<Rightarrow> bool" where
  "check_panic p \<longleftrightarrow> read_panic p \<or> p = Expect_Failed ''nonce overflow'' \<or>
     (\<exists>tag\<in>{''StateIsolationOnFailure'', ''BalanceConservation'', ''FailedTxNonceStability'',
            ''NonceIncrementCorrectness'', ''ReplayRejection''}. p = Violation tag)"

lemma assert_invariants_panic:
  assumes "assert_invariants L ctx = Inl p"
  shows "read_panic p \<or> (\<exists>tag\<in>{''StateIsolationOnFailure'', ''BalanceConservation'',
    ''FailedTxNonceStability''}. p = Violation tag)"
proof -
  from assms obtain impl where "impl \<in> set [state_isolation_on_failure L, balance_conservation L,
      failed_tx_nonce_stability L]" and "check_invariant ctx impl = Inl p"
    unfolding assert_invariants_def by (blast dest: for_each_panics)
  then show ?thesis
    using isolation.check_panic [of ctx L p] conservation.check_panic [of ctx L p]
      stability.check_panic [of ctx L p]
    by (auto simp: state_isolation_on_failure_def balance_conservation_def failed_tx_nonce_stability_def)
qed

lemma nonce_increment_panic:
  assumes "assert_nonce_increment_correctness L ids m st = Inl p"
  shows "p = Expect_Failed ''nonce overflow'' \<or> p = Violation ''NonceIncrementCorrectness''"
  using assms unfolding assert_nonce_increment_correctness_def
  by (auto dest!: for_each_panics simp: obind_Inl_iff expect_Inl_iff ensure_Inl_iff split: option.splits)

lemma tx_execution_invariants_panic:
  assumes "assert_tx_execution_invariants L C st0 st bals nons r nxt = Inl p"
  shows "check_panic p"
  using assms
  by (auto simp: assert_tx_execution_invariants_def obind_Inl_iff check_panic_def assert_replay_rejection_def
      ensure_Inl_iff dest!: assert_invariants_panic nonce_increment_panic
      split: sum.splits prod.splits)

lemma checked_execution_panic:
  assumes "checked_execution L C init b t nxt tx st = Inl p"
  shows "check_panic p"
proof -
  obtain r st1 where "execute_check_on_state L tx st b t = (r, st1)" by fastforce
  with assms have "p = Violation ''NativeBalanceEncoding'' \<or> check_panic p"
    by (auto simp: checked_execution_def obind_Inl_iff Let_def
        dest: snapshot_balances_panic tx_execution_invariants_panic)
  then show ?thesis by (auto simp: check_panic_def read_panic_def)
qed

lemma contract_transition_loop:
  assumes "distinct (map fa_account_id accs)"
  shows "contract_gen (transition_loop L C A accs time i n st)
    (audited L C (map fa_account_id accs) st) (\<lambda>p. bad_seed C p \<or> check_panic p)"
proof (induction n arbitrary: i st)
  case 0
  show ?case by (auto intro: contract_gret audited_refl)
next
  case (Suc n)
  let ?ids = "map fa_account_id accs"
  let ?init = "init_accounts accs"
  let ?Q = "\<lambda>p. bad_seed C p \<or> check_panic p"
  have ids: "map fst ?init = ?ids" by (simp add: init_accounts_def)
  have step: "contract_gen (gbind (glift (checked_execution L C ?init b t (b2, t + 1) tx st))
      (transition_loop L C A accs time (Suc i) n)) (audited L C ?ids st) ?Q"
    if "stateless_check L raw = Inr tx" and "b2 = b + 1" for raw tx b b2 t
    unfolding that(2)
  proof (rule contract_gbind [OF contract_glift])
    fix st2
    show "audited L C ?ids st st2" if "checked_execution L C ?init b t (b + 1, t + 1) tx st = Inr st2"
    proof (rule audited_step [OF audited_refl \<open>stateless_check L raw = Inr tx\<close>])
      have "distinct (map fst ?init)" using assms by (simp add: ids)
      from that [unfolded checked_execution_iff [OF this] ids]
      show "readable L st ?ids" "execution_ok L C ?ids b t (b + 1, t + 1) tx st st2"
        by auto
    qed
    show "contract_gen (transition_loop L C A accs time (Suc i) n st2) (audited L C ?ids st) ?Q"
      if "audited L C ?ids st st2"
      by (rule contract_weaken [OF Suc.IH]) (auto intro: audited_trans [OF _ that])
  qed (auto dest: checked_execution_panic)
  have draws: "contract_gen (gcatch (mixed_transaction A C accs)) (\<lambda>_. True) ?Q"
    by (rule contract_weaken [OF contract_gcatch [OF contract_fuzz_tx]]) auto
  show ?case
    unfolding transition_loop.simps Let_def
    by (rule contract_gbind_any [OF draws])
      (auto split: sum.split intro: step Suc.IH contract_gret audited_refl)
qed

subsection \<open>Conservation over whole runs\<close>

text \<open>Rejected transactions leave the accounts alone: what the chain promises about its error path.\<close>

definition rejection_isolated ::
  "('st, 'data, 'err, 'diff) lez \<Rightarrow> account_id list \<Rightarrow> bool" where
  "rejection_isolated L ids \<longleftrightarrow> (\<forall>tx st b t e st'.
     execute_check_on_state L tx st b t = (Inl e, st') \<longrightarrow> untouched L (set ids) st st')"

lemma untouched_supply:
  "untouched L (set ids) st st' \<Longrightarrow> total_supply L st' ids = total_supply L st ids"
  "untouched L (set ids) st st' \<Longrightarrow> readable L st ids \<Longrightarrow> readable L st' ids"
  by (auto simp: total_supply_def untouched_def balance_of_def readable_def
      intro!: arg_cong [of _ _ sum_list])

lemma execution_ok_supply:
  assumes iso: "rejection_isolated L ids" and ok: "execution_ok L C ids b t nxt tx st st2"
    and r: "readable L st ids"
  shows "total_supply L st2 ids = total_supply L st ids \<and> readable L st2 ids"
proof -
  obtain res st1 where ex: "execute_check_on_state L tx st b t = (res, st1)" by fastforce
  show ?thesis
  proof (cases res)
    case (Inl e)
    with ok ex untouched_supply r show ?thesis by (auto simp: execution_ok_def)
  next
    case (Inr applied)
    obtain res2 st3 where ex2: "execute_check_on_state L applied st1 (fst nxt) (snd nxt) = (res2, st3)"
      by fastforce
    from ok ex Inr ex2 have s: "readable L st1 ids" "total_supply L st1 ids = total_supply L st ids"
      "\<not> is_ok res2" "st2 = st3" by (auto simp: execution_ok_def)
    then have "untouched L (set ids) st1 st2"
      using iso ex2 by (auto simp: rejection_isolated_def not_is_ok_iff)
    with s(1,2) untouched_supply [OF this] show ?thesis by simp
  qed
qed

lemma audited_supply:
  assumes "audited L C ids st st2" and "rejection_isolated L ids" and "readable L st ids"
  shows "total_supply L st2 ids = total_supply L st ids \<and> readable L st2 ids"
  using assms by (induction rule: audited.induct) (auto dest: execution_ok_supply)

lemma sum_balances_readable:
  "readable L st ids \<Longrightarrow> total_supply L st ids < 2 ^ 128 \<Longrightarrow>
     sum_balances L st ids = Inr (of_nat (total_supply L st ids))"
  by (simp add: sum_balances_Inr_iff exact_total_iff unat_of_nat)

lemma sum_balances_Inr:
  "sum_balances L st ids = Inr t \<longleftrightarrow> readable L st ids \<and> total_supply L st ids = unat t"
  by (simp add: sum_balances_Inr_iff exact_total_iff)

lemma sum_balances_panic: "sum_balances L st ids = Inl p \<Longrightarrow> read_panic p"
  unfolding sum_balances_def read_panic_def
  by (auto simp: obind_Inl_iff expect_Inl_iff dest: fold_balances_panic)

text \<open>
  With isolated rejections the per-transaction checks imply the long-range one: the run ends with
  the total it started with, and its final assertion never fires.
\<close>

lemma contract_multi_block:
  assumes "distinct (map fa_account_id accs)" and "rejection_isolated L (map fa_account_id accs)"
  shows "contract_gen (multi_block_sequence L C A accs st0)
    (\<lambda>st. audited L C (map fa_account_id accs) st0 st \<and>
       total_supply L st (map fa_account_id accs) = total_supply L st0 (map fa_account_id accs))
    (\<lambda>p. bad_seed C p \<or> check_panic p)"
proof -
  let ?ids = "map fa_account_id accs"
  have ids: "map fst (init_accounts accs) = ?ids" by (simp add: init_accounts_def)
  have sums: "contract_gen (glift (sum_balances L st ?ids))
      (\<lambda>t. readable L st ?ids \<and> total_supply L st ?ids = unat t) (\<lambda>p. bad_seed C p \<or> check_panic p)" for st
    by (rule contract_glift, simp only: sum_balances_Inr, auto simp: check_panic_def dest: sum_balances_panic)
  show ?thesis
    unfolding multi_block_sequence_def ids
    apply (rule contract_gbind [OF sums])
    apply (rule contract_gbind_any [OF contract_gunwrap_or [OF contract_prim]], simp)
    apply (rule contract_gbind [OF contract_transition_loop [OF assms(1)]])
    apply (rule contract_gbind [OF sums])
    subgoal for t b st t2
      using audited_supply [OF _ assms(2), of C st0 st]
      by (auto simp: word_unat_eq_iff glift_def intro!: contract_gret)
    done
qed

definition rejections_isolated :: "('st, 'data, 'err, 'diff) lez \<Rightarrow> bool" where
  "rejections_isolated L \<longleftrightarrow> (\<forall>ids. rejection_isolated L ids)"

lemma contract_fuzz_multi_block:
  assumes "rejections_isolated L"
  shows "contract_gen (fuzz_multi_block_state_sequence L C G A) (\<lambda>_. True)
    (\<lambda>p. bad_seed C p \<or> check_panic p)"
proof -
  have run: "contract_gen (gbind (multi_block_sequence L C A accs (genesis_state G (init_accounts accs) []))
      (\<lambda>_. gret ())) (\<lambda>_. True) (\<lambda>p. bad_seed C p \<or> check_panic p)"
    if "fuzz_state_ok C (reserved_account_ids G) accs" for accs
    using that assms
    by (intro contract_gbind [OF contract_multi_block] contract_gret)
      (auto simp: fuzz_state_ok_def rejections_isolated_def)
  have accs: "contract_gen (gcatch (arbitrary_fuzz_state A C G))
      (\<lambda>r. case r of Inl _ \<Rightarrow> True | Inr accs \<Rightarrow> fuzz_state_ok C (reserved_account_ids G) accs)
      (\<lambda>p. bad_seed C p \<or> check_panic p)"
    by (rule contract_weaken [OF contract_gcatch [OF contract_fuzz_state]]) (auto split: sum.splits)
  show ?thesis
    unfolding fuzz_multi_block_state_sequence_def
    by (rule contract_gbind [OF accs]) (auto split: sum.splits intro!: contract_gret run)
qed

lemma no_long_range_panic: "\<not> check_panic (Violation ''LongRangeBalanceConservation'')"
  by (simp add: check_panic_def read_panic_def)

lemma initial_total:
  assumes "lawful_genesis L G" and "programs_apart C G" and "fuzz_state_ok C (reserved_account_ids G) accs"
    and "length accs \<le> 8"
  shows "\<exists>t. sum_balances L (genesis_state G (init_accounts accs) []) (map fst (init_accounts accs)) = Inr t \<and>
    unat t = sum_list (map (unat \<circ> fa_balance) accs)"
proof -
  let ?st = "genesis_state G (init_accounts accs) []" and ?ids = "map fa_account_id accs"
  note g = genesis_user_account [OF assms(1-3), of _ "[]", folded init_accounts_def]
  have "readable L ?st ?ids" using g(1) by (auto simp: readable_def)
  moreover have "total_supply L ?st ?ids = sum_list (map (unat \<circ> fa_balance) accs)"
    using g(1) by (auto simp: total_supply_def balance_of_def intro!: arg_cong [of _ _ sum_list])
  ultimately show ?thesis
    using capped_total [OF assms(3,4)] sum_balances_readable [of L ?st ?ids]
    by (auto simp: init_accounts_def comp_def unat_of_nat)
qed

subsection \<open>Honest transfers pass the checks\<close>

text \<open>A built transfer is signed by the key it was built with, and by no other.\<close>

definition transfers_signed :: "crypto \<Rightarrow> bool" where
  "transfers_signed C \<longleftrightarrow> (\<forall>src n dst a key.
     signer_account_ids C (create_transfer C src n dst a key) = [account_id_for_key C key])"

lemma supply_of_transfer:
  assumes "distinct ids" and "src \<in> set ids" and "dst \<in> set ids" and "src \<noteq> dst"
    and le: "a \<le> balance_of L st src" and fits: "unat (balance_of L st dst) + unat a < 2 ^ 128"
    and src: "balance_of L st1 src = balance_of L st src - a"
    and dst: "balance_of L st1 dst = balance_of L st dst + a"
    and rest: "\<And>aid. aid \<in> set ids \<Longrightarrow> aid \<noteq> src \<Longrightarrow> aid \<noteq> dst \<Longrightarrow> balance_of L st1 aid = balance_of L st aid"
  shows "total_supply L st1 ids = total_supply L st ids"
proof -
  let ?R = "set ids - {src} - {dst}"
  have split: "total_supply L s ids = unat (balance_of L s src) + (unat (balance_of L s dst) +
      (\<Sum>aid\<in>?R. unat (balance_of L s aid)))" for s
  proof -
    have "total_supply L s ids = (\<Sum>aid\<in>set ids. unat (balance_of L s aid))"
      using assms(1) by (simp add: total_supply_def sum_list_distinct_conv_sum_set)
    also have "\<dots> = unat (balance_of L s src) + (\<Sum>aid\<in>set ids - {src}. unat (balance_of L s aid))"
      using assms(2) by (intro sum.remove) auto
    also have "(\<Sum>aid\<in>set ids - {src}. unat (balance_of L s aid)) = unat (balance_of L s dst) +
        (\<Sum>aid\<in>?R. unat (balance_of L s aid))"
      using assms(3,4) by (intro sum.remove) auto
    finally show ?thesis .
  qed
  have "(\<Sum>aid\<in>?R. unat (balance_of L st1 aid)) = (\<Sum>aid\<in>?R. unat (balance_of L st aid))"
    using rest by (intro sum.cong) auto
  moreover have "unat (balance_of L st1 src) + unat (balance_of L st1 dst) =
      unat (balance_of L st src) + unat (balance_of L st dst)"
    using le fits by (simp add: src dst unat_sub unat_add_lem [THEN iffD1] word_le_nat_alt)
  ultimately show ?thesis by (simp add: split)
qed

lemma honest_transfer_passes:
  assumes rules: "native_transfer_rules L C reserved" and signed: "transfers_signed C"
    and ok: "fuzz_state_ok C reserved accs" and mem: "x \<in> set accs" "y \<in> set accs"
    and neq: "fa_account_id x \<noteq> fa_account_id y"
    and r: "readable L st (map fa_account_id accs)"
    and fits: "total_supply L st (map fa_account_id accs) < 2 ^ 128"
    and nonce: "unat (account_nonce L st (fa_account_id x)) + 2 < 2 ^ 128"
  shows "\<exists>st2. checked_execution L C (init_accounts accs) b t nxt
    (create_transfer C (fa_account_id x) n (fa_account_id y) a (fa_private_key x)) st = Inr st2"
proof -
  let ?ids = "map fa_account_id accs" and ?x = "fa_account_id x" and ?y = "fa_account_id y"
  let ?tx = "create_transfer C ?x n ?y a (fa_private_key x)"
  have ids: "map fst (init_accounts accs) = ?ids" by (simp add: init_accounts_def)
  have d: "distinct ?ids" using ok by (simp add: fuzz_state_ok_def)
  have in_ids: "?x \<in> set ?ids" "?y \<in> set ?ids" using mem by auto
  note bal = readable_balance [OF r in_ids(1)] readable_balance [OF r in_ids(2)]
  have m1: "unat (- 1 :: u128) = 2 ^ 128 - 1"
    by (simp add: unsigned_minus_1_eq_mask mask_eq_exp_minus_1)
  have n1: "account_nonce L st ?x \<noteq> - 1" using nonce m1 by auto
  obtain res st1 where ex: "execute_check_on_state L ?tx st b t = (res, st1)" by fastforce
  note D = transfer_rulesD [OF rules fuzz_state_okD(2,1) [OF ok mem(1)] neq
      fuzz_state_okD(3) [OF ok mem(1)] fuzz_state_okD(3) [OF ok mem(2)] bal n1 ex]
  have unres: "aid \<notin> set reserved" if "aid \<in> set ?ids" for aid
    using that ok by (auto simp: fuzz_state_ok_def)
  have "\<exists>st2. execution_ok L C ?ids b t nxt ?tx st st2"
  proof (cases res)
    case (Inl e)
    with D(2) unres have "untouched L (set ?ids) st st1"
      by (auto simp: untouched_def)
    with ex Inl show ?thesis by (simp add: execution_ok_def)
  next
    case (Inr applied)
    note D3 = D(3) [OF Inr]
    have acc: "transfer_accepted n a (balance_of L st ?x) (account_nonce L st ?x) (balance_of L st ?y)"
      using D(1) Inr by simp
    have rest: "native_balance L st1 aid = native_balance L st aid"
      if "aid \<in> set ?ids" "aid \<noteq> ?x" "aid \<noteq> ?y" for aid
      using D3 unres [OF that(1)] that(2,3) unfolding untouched_def by blast
    have r1: "readable L st1 ?ids"
      unfolding readable_def
    proof
      fix aid assume aid: "aid \<in> set ?ids"
      then show "is_ok (native_balance L st1 aid)"
        using D3 rest [OF aid] r by (cases "aid = ?x \<or> aid = ?y") (auto simp: readable_def)
    qed
    have "balance_of L st1 ?x = balance_of L st ?x - a" "balance_of L st1 ?y = balance_of L st ?y + a"
      using D3 by (auto intro: balance_of_eq)
    then have total: "total_supply L st1 ?ids = total_supply L st ?ids"
      using supply_of_transfer [OF d in_ids neq, of a L st st1] acc rest
      by (simp add: transfer_accepted_def balance_of_def)
    have inc: "unat (account_nonce L st1 ?x) = unat (account_nonce L st ?x) + 1"
      using D3 nonce by (simp add: unat_word_ariths)
    obtain res2 st2 where ex2: "execute_check_on_state L applied st1 (fst nxt) (snd nxt) = (res2, st2)"
      by fastforce
    note bal1 = readable_balance [OF r1 in_ids(1)] readable_balance [OF r1 in_ids(2)]
    have n2: "account_nonce L st1 ?x \<noteq> - 1" using nonce inc m1 by auto
    have ex2': "execute_check_on_state L ?tx st1 (fst nxt) (snd nxt) = (res2, st2)"
      using ex2 D3 by simp
    have "n \<noteq> account_nonce L st1 ?x" using acc inc by (auto simp: transfer_accepted_def)
    then have "\<not> is_ok res2"
      using transfer_rulesD(1) [OF rules fuzz_state_okD(2,1) [OF ok mem(1)] neq
        fuzz_state_okD(3) [OF ok mem(1)] fuzz_state_okD(3) [OF ok mem(2)] bal1 n2 ex2']
      by (simp add: transfer_accepted_def)
    moreover have "signer_account_ids C applied = [?x]"
      using D3 signed fuzz_state_okD(1) [OF ok mem(1)] by (simp add: transfers_signed_def)
    ultimately show ?thesis
      using ex Inr r1 total inc fits ex2 by (simp add: execution_ok_def)
  qed
  with r show ?thesis by (simp add: checked_execution_iff [of "init_accounts accs", unfolded ids, OF d])
qed

subsection \<open>The whole targets, on any chain\<close>

lemma contract_caught_state:
  "contract_gen (gcatch (arbitrary_fuzz_state A C G))
     (\<lambda>r. case r of Inl _ \<Rightarrow> True | Inr accs \<Rightarrow> fuzz_state_ok C (reserved_account_ids G) accs)
     (\<lambda>p. bad_seed C p \<or> check_panic p)"
  by (rule contract_weaken [OF contract_gcatch [OF contract_fuzz_state]]) (auto split: sum.splits)

lemma contract_fuzz_state_transition:
  "contract_gen (fuzz_state_transition L C G A) (\<lambda>_. True) (\<lambda>p. bad_seed C p \<or> check_panic p)"
proof -
  have run: "contract_gen (transition_loop L C A accs of_nat 0 n st) (\<lambda>_. True)
      (\<lambda>p. bad_seed C p \<or> check_panic p)"
    if "fuzz_state_ok C (reserved_account_ids G) accs" for accs n st
    using that by (intro contract_weaken [OF contract_transition_loop]) (auto simp: fuzz_state_ok_def)
  show ?thesis
    unfolding fuzz_state_transition_def
    by (rule contract_gbind [OF contract_caught_state], rule contract_sum_case, rule contract_gret, simp,
        rule contract_gbind_any [OF contract_gunwrap_or [OF contract_prim]], simp,
        rule contract_gbind_any [OF run], simp, rule contract_gret, simp)
qed

lemma contract_fuzz_replay_prevention:
  "contract_gen (fuzz_replay_prevention L C G A) (\<lambda>_. True) (\<lambda>p. bad_seed C p \<or> check_panic p)"
proof -
  let ?Q = "\<lambda>p. bad_seed C p \<or> check_panic p"
  have draws: "contract_gen (gcatch (mixed_transaction A C accs)) (\<lambda>_. True) ?Q" for accs
    by (rule contract_weaken [OF contract_gcatch [OF contract_fuzz_tx]]) auto
  have check: "contract_gen (glift (checked_execution L C init b t nxt tx st)) (\<lambda>_. True) ?Q" for init b t nxt tx st
    by (rule contract_glift) (auto dest: checked_execution_panic)
  show ?thesis
    unfolding fuzz_replay_prevention_def Let_def
    by (rule contract_gbind [OF contract_caught_state], rule contract_sum_case, rule contract_gret, simp,
        rule contract_gbind_any [OF draws], rule contract_sum_case, rule contract_gret, simp,
        rule contract_sum_case, rule contract_gret, simp,
        rule contract_gbind_any [OF check], rule contract_gret, simp)
qed

end
