(* ===== verification/Privacy.thy ===== *)
theory Privacy
  imports State_Transition
begin

text \<open>
  \<open>fuzz_props/src/privacy.rs\<close>: privacy-preserving transactions whose proof is synthesised for the
  message and state they are checked against. The circuit, its receipts, the commitment scheme and
  the encryption are the record \<open>privacy_api\<close>. The generator's contract is that its transactions are
  well-formed by construction: distinct signers in step with the nonces, distinct public accounts,
  a non-empty list of private actions without repeated nullifiers or commitments.
\<close>

record ('st, 'data) privacy_api =
  get_program_image_id :: "'st \<Rightarrow> account_id \<Rightarrow> image_id option"
  commitment_set_digest :: "'st \<Rightarrow> commitment_set_digest"
  privacy_preserving_circuit_id :: image_id
  circuit_output_to_bytes :: "pp_circuit_output \<Rightarrow> bytes"
  fake_receipt_to_vec :: "image_id \<Rightarrow> bytes \<Rightarrow> bytes option"
  native_effect_to_vec :: "native_effect \<Rightarrow> bytes option"
  native_token_program_id :: account_id
  validity_window_try_from :: "u64 option \<times> u64 option \<Rightarrow> validity_window option"
  validity_window_unbounded :: validity_window
  nullifier_for_account_initialization :: "account_id \<Rightarrow> nullifier"
  commitment_new :: "account_id \<Rightarrow> 'data account \<Rightarrow> commitment"
  encryption_encrypt :: "'data account \<Rightarrow> bytes \<Rightarrow> bytes \<Rightarrow> nullifier \<Rightarrow> ciphertext"
  pp_witness_for_message :: "pp_message \<Rightarrow> zk_proof \<Rightarrow> private_key list \<Rightarrow> pp_witness_set"

subsection \<open>Passing proofs\<close>

definition reconstruct_public_action :: "account_id list \<Rightarrow> public_action_with_id \<Rightarrow> public_action" where
  "reconstruct_public_action signer_ids action = \<lparr>
     pa_account_id = pai_account_id action,
     pa_is_authorized = (pai_account_id action \<in> set signer_ids),
     pa_effects = pai_effects action\<rparr>"

fun reanchor_claim :: "('st, 'data) privacy_api \<Rightarrow> 'st \<Rightarrow> program_image_claim \<Rightarrow> program_image_claim" where
  "reanchor_claim V st (Disclosed aid img) =
     (case get_program_image_id V st aid of None \<Rightarrow> Disclosed aid img | Some live \<Rightarrow> Disclosed aid live)"
| "reanchor_claim V st (Undisclosed h) = Undisclosed h"

definition reconstruct_output ::
  "('st, 'data) privacy_api \<Rightarrow> pp_message \<Rightarrow> 'st \<Rightarrow> account_id list \<Rightarrow> pp_circuit_output" where
  "reconstruct_output V m st signer_ids = \<lparr>
     pco_public_actions = map (reconstruct_public_action signer_ids) (ppm_public_actions m),
     pco_private_actions = ppm_private_actions m,
     pco_block_validity_window = ppm_block_validity_window m,
     pco_timestamp_validity_window = ppm_timestamp_validity_window m,
     pco_program_image_claims = map (reanchor_claim V st) (ppm_program_image_claims m)\<rparr>"

definition synthesize_passing_proof ::
  "('st, 'data) privacy_api \<Rightarrow> pp_message \<Rightarrow> 'st \<Rightarrow> account_id list \<Rightarrow> zk_proof outcome" where
  "synthesize_passing_proof V m st signer_ids =
     (let journal = circuit_output_to_bytes V (reconstruct_output V m st signer_ids) in
      obind (expect (Expect_Failed ''InnerReceipt is borsh-serialisable'')
               (fake_receipt_to_vec V (privacy_preserving_circuit_id V) journal)) (\<lambda>proof_bytes.
        Inr (Proof proof_bytes)))"

subsection \<open>Accounts, effects, windows\<close>

definition arb_account :: "'u arbitrary_api \<Rightarrow> ('st, 'data) genesis_api \<Rightarrow> ('u, 'data account) gen" where
  "arb_account A G = gbind (prim (draw_u128 A)) (\<lambda>n. gbind (prim (draw_u128 A)) (\<lambda>b.
     gret ((account_funded G b)\<lparr>acc_nonce := n mod 1024\<rparr>)))"

definition arb_public_effect ::
  "'u arbitrary_api \<Rightarrow> ('st, 'data) privacy_api \<Rightarrow> ('u, deferred_public_effect) gen" where
  "arb_public_effect A V = gbind (draw_below A 4) (\<lambda>coin.
     if coin = 0 then
       gbind (prim (draw_bytes32 A)) (\<lambda>p. gbind (prim (draw_bytes32 A)) (\<lambda>s.
       gbind (prim (draw_vec_u8 A)) (\<lambda>d.
         gret \<lparr>eff_program_account_id = AccountId p, eff_shard_program_account_id = AccountId s,
               eff_data = d\<rparr>)))
     else
       gbind (prim (draw_u128 A)) (\<lambda>amount. gbind (prim (draw_bool A)) (\<lambda>debit.
       gbind (glift (expect (Expect_Failed ''native effect is borsh-serialisable'')
                (native_effect_to_vec V (if debit then Debit amount else Credit amount)))) (\<lambda>d.
         gret \<lparr>eff_program_account_id = native_token_program_id V,
               eff_shard_program_account_id = native_token_program_id V, eff_data = d\<rparr>))))"

definition arb_public_effects ::
  "'u arbitrary_api \<Rightarrow> ('st, 'data) privacy_api \<Rightarrow> ('u, deferred_public_effect list) gen" where
  "arb_public_effects A V = gbind (draw_below A 3) (\<lambda>n. grepeat n (arb_public_effect A V))"

text \<open>\<open>bool::arbitrary(u)?.then(|| u64::from(u8::arbitrary(u).unwrap_or(0) % 8))\<close>\<close>

definition arb_bound :: "'u arbitrary_api \<Rightarrow> ('u, u64 option) gen" where
  "arb_bound A = gbind (prim (draw_bool A)) (\<lambda>present.
     if present then gbind (gunwrap_or 0 (prim (draw_u8 A))) (\<lambda>b. gret (Some (ucast (b mod 8))))
     else gret None)"

definition arb_validity_window ::
  "'u arbitrary_api \<Rightarrow> ('st, 'data) privacy_api \<Rightarrow> ('u, validity_window) gen" where
  "arb_validity_window A V = gbind (draw_below A 4) (\<lambda>coin.
     if coin \<noteq> 0 then gret (validity_window_unbounded V)
     else gbind (arb_bound A) (\<lambda>from. gbind (arb_bound A) (\<lambda>to.
       gret (case validity_window_try_from V (from, to) of
               Some w \<Rightarrow> w | None \<Rightarrow> validity_window_unbounded V))))"

definition arb_encrypted_account_data ::
  "'u arbitrary_api \<Rightarrow> ('st, 'data) genesis_api \<Rightarrow> ('st, 'data) privacy_api \<Rightarrow>
   ('u, encrypted_account_data) gen" where
  "arb_encrypted_account_data A G V = gbind (arb_account A G) (\<lambda>account.
     gbind (prim (draw_bytes32 A)) (\<lambda>identifier.
     gbind (prim (draw_bytes32 A)) (\<lambda>shared_secret.
     gbind (prim (draw_bytes32 A)) (\<lambda>null_aid.
     let ciphertext = encryption_encrypt V account identifier shared_secret
           (nullifier_for_account_initialization V (AccountId null_aid)) in
     gbind (prim (draw_vec_u8 A)) (\<lambda>epk. gbind (prim (draw_u8 A)) (\<lambda>view_tag.
       gret \<lparr>ead_ciphertext = ciphertext, ead_epk = epk, ead_view_tag = view_tag\<rparr>))))))"

definition arb_commitment ::
  "'u arbitrary_api \<Rightarrow> ('st, 'data) genesis_api \<Rightarrow> ('st, 'data) privacy_api \<Rightarrow> ('u, commitment) gen" where
  "arb_commitment A G V = gbind (prim (draw_bytes32 A)) (\<lambda>aid. gbind (arb_account A G) (\<lambda>account.
     gret (commitment_new V (AccountId aid) account)))"

subsection \<open>Private actions\<close>

definition arb_private_action ::
  "'u arbitrary_api \<Rightarrow> ('st, 'data) genesis_api \<Rightarrow> ('st, 'data) privacy_api \<Rightarrow> commitment_set_digest \<Rightarrow>
   ('u, private_action) gen" where
  "arb_private_action A G V live_root = gbind (prim (draw_bytes32 A)) (\<lambda>null_aid.
     let nullifier = nullifier_for_account_initialization V (AccountId null_aid) in
     gbind (prim (draw_bool A)) (\<lambda>live.
     gbind (if live then gret live_root else prim (draw_bytes32 A)) (\<lambda>root.
     gbind (arb_commitment A G V) (\<lambda>commitment.
     gbind (arb_encrypted_account_data A G V) (\<lambda>post.
       gret \<lparr>pra_nullifier = nullifier, pra_root = root, pra_commitment = commitment,
             pra_encrypted_post_state = post\<rparr>)))))"

definition push_private_action_if_unique ::
  "private_action list \<Rightarrow> private_action \<Rightarrow> private_action list" where
  "push_private_action_if_unique actions action =
     (if \<not> list_ex (\<lambda>a. pra_nullifier a = pra_nullifier action \<or> pra_commitment a = pra_commitment action) actions
      then actions @ [action] else actions)"

fun private_actions_loop ::
  "'u arbitrary_api \<Rightarrow> ('st, 'data) genesis_api \<Rightarrow> ('st, 'data) privacy_api \<Rightarrow> commitment_set_digest \<Rightarrow>
   nat \<Rightarrow> private_action list \<Rightarrow> ('u, private_action list) gen" where
  "private_actions_loop A G V live_root 0 actions = gret actions"
| "private_actions_loop A G V live_root (Suc n) actions =
     gbind (arb_private_action A G V live_root) (\<lambda>action.
       private_actions_loop A G V live_root n (push_private_action_if_unique actions action))"

definition arb_private_actions ::
  "'u arbitrary_api \<Rightarrow> ('st, 'data) genesis_api \<Rightarrow> ('st, 'data) privacy_api \<Rightarrow> commitment_set_digest \<Rightarrow>
   ('u, private_action list) gen" where
  "arb_private_actions A G V live_root = gbind (draw_below A 4) (\<lambda>n_priv.
     gbind (private_actions_loop A G V live_root n_priv []) (\<lambda>actions.
       if actions = [] then gbind (arb_private_action A G V live_root) (\<lambda>action. gret [action])
       else gret actions))"

subsection \<open>Signers and public actions\<close>

fun signers_loop ::
  "'u arbitrary_api \<Rightarrow> crypto \<Rightarrow> fuzz_account list \<Rightarrow> nat \<Rightarrow> private_key list \<Rightarrow> account_id list \<Rightarrow>
   ('u, private_key list \<times> account_id list) gen" where
  "signers_loop A C accounts 0 keys signer_ids = gret (keys, signer_ids)"
| "signers_loop A C accounts (Suc n) keys signer_ids =
     gbind (draw_index A (length accounts)) (\<lambda>i.
     gbind (glift (index accounts i)) (\<lambda>account.
     let key = fa_private_key account;
         aid = account_id_for_key C key in
     if aid \<in> set signer_ids then signers_loop A C accounts n keys signer_ids
     else signers_loop A C accounts n (keys @ [key]) (signer_ids @ [aid])))"

definition arb_signers ::
  "'u arbitrary_api \<Rightarrow> crypto \<Rightarrow> fuzz_account list \<Rightarrow> ('u, private_key list \<times> account_id list) gen" where
  "arb_signers A C accounts =
     (let max_signers = min (length accounts) 3 in
      gbind (if max_signers = 0 then gret 0 else draw_below A (max_signers + 1)) (\<lambda>n_signers.
        signers_loop A C accounts n_signers [] []))"

fun extra_accounts_loop ::
  "'u arbitrary_api \<Rightarrow> fuzz_account list \<Rightarrow> nat \<Rightarrow> account_id list \<Rightarrow> ('u, account_id list) gen" where
  "extra_accounts_loop A accounts 0 ids = gret ids"
| "extra_accounts_loop A accounts (Suc n) ids =
     gbind (if accounts \<noteq> [] then prim (draw_bool A) else gret False) (\<lambda>known.
     gbind (if known
            then gbind (draw_index A (length accounts)) (\<lambda>i.
                 gbind (glift (index accounts i)) (\<lambda>account. gret (fa_account_id account)))
            else gbind (prim (draw_bytes32 A)) (\<lambda>b. gret (AccountId b))) (\<lambda>aid.
       extra_accounts_loop A accounts n (if aid \<in> set ids then ids else ids @ [aid])))"

definition arb_public_account_ids ::
  "'u arbitrary_api \<Rightarrow> fuzz_account list \<Rightarrow> account_id list \<Rightarrow> ('u, account_id list) gen" where
  "arb_public_account_ids A accounts signer_ids = gbind (prim (draw_bool A)) (\<lambda>with_signers.
     gbind (draw_below A 4) (\<lambda>n_extra.
       extra_accounts_loop A accounts n_extra (if with_signers then signer_ids else [])))"

text \<open>\<open>ids.into_iter().map(f).collect::<ArbResult<Vec<_>>>()\<close>\<close>

fun gmap :: "('a \<Rightarrow> ('u, 'b) gen) \<Rightarrow> 'a list \<Rightarrow> ('u, 'b list) gen" where
  "gmap f [] = gret []"
| "gmap f (x # xs) = gbind (f x) (\<lambda>y. gbind (gmap f xs) (\<lambda>ys. gret (y # ys)))"

definition arb_public_actions ::
  "'u arbitrary_api \<Rightarrow> ('st, 'data) privacy_api \<Rightarrow> account_id list \<Rightarrow> ('u, public_action_with_id list) gen" where
  "arb_public_actions A V = gmap (\<lambda>aid. gbind (arb_public_effects A V) (\<lambda>effects.
     gret \<lparr>pai_account_id = aid, pai_effects = effects\<rparr>))"

subsection \<open>Transactions\<close>

definition arb_privacy_preserving_tx ::
  "('st, 'data, 'err, 'diff) lez \<Rightarrow> crypto \<Rightarrow> ('st, 'data) genesis_api \<Rightarrow> ('st, 'data) privacy_api \<Rightarrow>
   'u arbitrary_api \<Rightarrow> 'st \<Rightarrow> fuzz_account list \<Rightarrow> ('u, pp_transaction) gen" where
  "arb_privacy_preserving_tx L C G V A st accounts =
     gbind (arb_signers A C accounts) (\<lambda>(keys, signer_ids).
     let nonces = map (account_nonce L st) signer_ids in
     gbind (arb_public_account_ids A accounts signer_ids) (\<lambda>public_account_ids.
     gbind (arb_public_actions A V public_account_ids) (\<lambda>public_actions.
     gbind (arb_private_actions A G V (commitment_set_digest V st)) (\<lambda>private_actions.
     gbind (arb_validity_window A V) (\<lambda>block_window.
     gbind (arb_validity_window A V) (\<lambda>timestamp_window.
     let message = \<lparr>ppm_public_actions = public_actions, ppm_nonces = nonces,
           ppm_private_actions = private_actions, ppm_block_validity_window = block_window,
           ppm_timestamp_validity_window = timestamp_window, ppm_program_image_claims = []\<rparr> in
     gbind (draw_below A 8) (\<lambda>coin.
     gbind (if coin = 0 then gbind (prim (draw_vec_u8 A)) (\<lambda>b. gret (Proof b))
            else glift (synthesize_passing_proof V message st signer_ids)) (\<lambda>proof.
       gret \<lparr>ppt_message = message,
             ppt_witness_set = pp_witness_for_message V message proof keys\<rparr>))))))))"

definition build_pure_private_tx ::
  "('st, 'data, 'err, 'diff) lez \<Rightarrow> crypto \<Rightarrow> ('st, 'data) privacy_api \<Rightarrow> 'st \<Rightarrow> private_key \<Rightarrow>
   private_action list \<Rightarrow> pp_transaction outcome" where
  "build_pure_private_tx L C V st key private_actions =
     (let signer_id = account_id_for_key C key;
          message = \<lparr>ppm_public_actions = [], ppm_nonces = [account_nonce L st signer_id],
            ppm_private_actions = private_actions,
            ppm_block_validity_window = validity_window_unbounded V,
            ppm_timestamp_validity_window = validity_window_unbounded V,
            ppm_program_image_claims = []\<rparr>
      in obind (synthesize_passing_proof V message st [signer_id]) (\<lambda>proof.
           Inr \<lparr>ppt_message = message, ppt_witness_set = pp_witness_for_message V message proof [key]\<rparr>))"

definition arb_conflicting_nullifier_pair ::
  "('st, 'data, 'err, 'diff) lez \<Rightarrow> crypto \<Rightarrow> ('st, 'data) genesis_api \<Rightarrow> ('st, 'data) privacy_api \<Rightarrow>
   'u arbitrary_api \<Rightarrow> 'st \<Rightarrow> fuzz_account list \<Rightarrow> ('u, pp_transaction \<times> pp_transaction) gen" where
  "arb_conflicting_nullifier_pair L C G V A st accounts =
     (if length accounts < 2 then gfail IncorrectFormat
      else
        gbind (draw_index A (length accounts)) (\<lambda>i.
        gbind (draw_index A (length accounts)) (\<lambda>j0.
        gbind (if j0 = i then glift (checked_rem (i + 1) (length accounts)) else gret j0) (\<lambda>j.
        gbind (glift (index accounts i)) (\<lambda>acc_b.
        gbind (glift (index accounts j)) (\<lambda>acc_c.
        let key_b = fa_private_key acc_b; key_c = fa_private_key acc_c in
        if account_id_for_key C key_b = account_id_for_key C key_c then gfail IncorrectFormat
        else
          gbind (prim (draw_bytes32 A)) (\<lambda>null_aid.
          let root = commitment_set_digest V st;
              shared_nullifier = nullifier_for_account_initialization V (AccountId null_aid) in
          gbind (arb_commitment A G V) (\<lambda>comm_b.
          gbind (arb_commitment A G V) (\<lambda>comm_c.
          if comm_b = comm_c then gfail IncorrectFormat
          else
            gbind (arb_encrypted_account_data A G V) (\<lambda>post_b.
            gbind (arb_encrypted_account_data A G V) (\<lambda>post_c.
            gbind (glift (build_pure_private_tx L C V st key_b
              [\<lparr>pra_nullifier = shared_nullifier, pra_root = root, pra_commitment = comm_b,
                pra_encrypted_post_state = post_b\<rparr>])) (\<lambda>tx_b.
            gbind (glift (build_pure_private_tx L C V st key_c
              [\<lparr>pra_nullifier = shared_nullifier, pra_root = root, pra_commitment = comm_c,
                pra_encrypted_post_state = post_c\<rparr>])) (\<lambda>tx_c.
              gret (tx_b, tx_c))))))))))))))"

subsection \<open>What a synthesised proof depends on\<close>

lemma proof_state_independent:
  assumes "ppm_program_image_claims m = []"
  shows "synthesize_passing_proof V m st1 ids = synthesize_passing_proof V m st2 ids"
  using assms by (simp add: synthesize_passing_proof_def reconstruct_output_def)

lemma proof_signer_set:
  assumes "\<forall>a\<in>set (ppm_public_actions m). pai_account_id a \<in> set ids1 \<longleftrightarrow> pai_account_id a \<in> set ids2"
  shows "synthesize_passing_proof V m st ids1 = synthesize_passing_proof V m st ids2"
proof -
  have "map (reconstruct_public_action ids1) (ppm_public_actions m) =
      map (reconstruct_public_action ids2) (ppm_public_actions m)"
    using assms by (simp add: reconstruct_public_action_def)
  then show ?thesis by (simp only: synthesize_passing_proof_def reconstruct_output_def)
qed

text \<open>A receipt accepts one journal only, so the proof binds the authorisation of every action.\<close>

definition binding_receipts :: "('st, 'data) privacy_api \<Rightarrow> bool" where
  "binding_receipts V \<longleftrightarrow> inj (circuit_output_to_bytes V) \<and>
     (\<forall>circuit j1 j2 b. fake_receipt_to_vec V circuit j1 = Some b \<longrightarrow>
        fake_receipt_to_vec V circuit j2 = Some b \<longrightarrow> j1 = j2)"

lemma proof_binds:
  assumes "binding_receipts V"
    and "synthesize_passing_proof V m1 st1 ids1 = Inr p" and "synthesize_passing_proof V m2 st2 ids2 = Inr p"
  shows "reconstruct_output V m1 st1 ids1 = reconstruct_output V m2 st2 ids2"
proof -
  from assms(2,3) have "circuit_output_to_bytes V (reconstruct_output V m1 st1 ids1) =
      circuit_output_to_bytes V (reconstruct_output V m2 st2 ids2)"
    using assms(1) unfolding binding_receipts_def
    by (auto simp: synthesize_passing_proof_def Let_def obind_Inr_iff expect_Inr_iff)
  with assms(1) show ?thesis by (auto simp: binding_receipts_def dest: injD)
qed

subsection \<open>Well-formed by construction\<close>

definition encode_panic :: "('st, 'data) privacy_api \<Rightarrow> panic \<Rightarrow> bool" where
  "encode_panic V p \<longleftrightarrow>
     p = Expect_Failed ''native effect is borsh-serialisable'' \<and> (\<exists>e. native_effect_to_vec V e = None) \<or>
     p = Expect_Failed ''InnerReceipt is borsh-serialisable'' \<and>
       (\<exists>circuit journal. fake_receipt_to_vec V circuit journal = None)"

definition window_ok :: "('st, 'data) privacy_api \<Rightarrow> validity_window \<Rightarrow> bool" where
  "window_ok V w \<longleftrightarrow> w = validity_window_unbounded V \<or>
     (\<exists>from_bound to_bound. validity_window_try_from V (from_bound, to_bound) = Some w \<and>
        pred_option (\<lambda>b. b < 8) from_bound \<and> pred_option (\<lambda>b. b < 8) to_bound)"

definition private_actions_unique :: "private_action list \<Rightarrow> bool" where
  "private_actions_unique xs \<longleftrightarrow> distinct (map pra_nullifier xs) \<and> distinct (map pra_commitment xs)"

definition signers_ok :: "crypto \<Rightarrow> fuzz_account list \<Rightarrow> private_key list \<Rightarrow> account_id list \<Rightarrow> bool" where
  "signers_ok C accounts keys ids \<longleftrightarrow> ids = map (account_id_for_key C) keys \<and> distinct ids \<and>
     set keys \<subseteq> fa_private_key ` set accounts"

definition pp_message_ok ::
  "('st, 'data, 'err, 'diff) lez \<Rightarrow> ('st, 'data) privacy_api \<Rightarrow> 'st \<Rightarrow> account_id list \<Rightarrow> pp_message \<Rightarrow> bool" where
  "pp_message_ok L V st signer_ids m \<longleftrightarrow>
     ppm_nonces m = map (account_nonce L st) signer_ids \<and>
     distinct (map pai_account_id (ppm_public_actions m)) \<and>
     (\<forall>a\<in>set (ppm_public_actions m). length (pai_effects a) \<le> 2) \<and>
     ppm_private_actions m \<noteq> [] \<and> length (ppm_private_actions m) \<le> 3 \<and>
     private_actions_unique (ppm_private_actions m) \<and>
     window_ok V (ppm_block_validity_window m) \<and> window_ok V (ppm_timestamp_validity_window m) \<and>
     ppm_program_image_claims m = []"

definition pp_tx_ok ::
  "('st, 'data, 'err, 'diff) lez \<Rightarrow> crypto \<Rightarrow> ('st, 'data) privacy_api \<Rightarrow> 'st \<Rightarrow> fuzz_account list \<Rightarrow>
   pp_transaction \<Rightarrow> bool" where
  "pp_tx_ok L C V st accounts tx \<longleftrightarrow> (\<exists>keys ids proof.
     signers_ok C accounts keys ids \<and> length ids \<le> 3 \<and> pp_message_ok L V st ids (ppt_message tx) \<and>
     ppt_witness_set tx = pp_witness_for_message V (ppt_message tx) proof keys)"

lemma push_unique:
  assumes "private_actions_unique xs"
  shows "private_actions_unique (push_private_action_if_unique xs a)"
    and "set xs \<subseteq> set (push_private_action_if_unique xs a)"
    and "length (push_private_action_if_unique xs a) \<le> Suc (length xs)"
  using assms
  by (auto simp: push_private_action_if_unique_def private_actions_unique_def list_ex_iff)

lemma contract_arb_account [gen_intros]: "contract_gen (arb_account A G) (\<lambda>_. True) Q"
  unfolding arb_account_def by (intro contract_gbind_any contract_prim contract_gret) simp

lemma contract_arb_commitment [gen_intros]: "contract_gen (arb_commitment A G V) (\<lambda>_. True) Q"
  unfolding arb_commitment_def
  by (intro contract_gbind_any contract_prim contract_arb_account contract_gret) simp

lemma contract_encrypted [gen_intros]: "contract_gen (arb_encrypted_account_data A G V) (\<lambda>_. True) Q"
  unfolding arb_encrypted_account_data_def Let_def
  by (intro contract_gbind_any contract_prim contract_arb_account contract_gret) simp

lemma contract_private_action [gen_intros]: "contract_gen (arb_private_action A G V root) (\<lambda>_. True) Q"
  unfolding arb_private_action_def Let_def
  by (intro contract_gbind_any contract_prim contract_arb_commitment contract_encrypted contract_gret contract_if)
    simp_all

lemma contract_private_actions_loop:
  assumes "private_actions_unique xs"
  shows "contract_gen (private_actions_loop A G V root n xs)
    (\<lambda>ys. private_actions_unique ys \<and> length ys \<le> length xs + n) Q"
  using assms
proof (induction n arbitrary: xs)
  case (Suc n)
  show ?case
    unfolding private_actions_loop.simps
  proof (rule contract_gbind_any [OF contract_private_action])
    fix a
    let ?ys = "push_private_action_if_unique xs a"
    show "contract_gen (private_actions_loop A G V root n ?ys)
      (\<lambda>ys. private_actions_unique ys \<and> length ys \<le> length xs + Suc n) Q"
      using push_unique(3) [OF Suc.prems, of a]
      by (intro contract_weaken [OF Suc.IH [OF push_unique(1) [OF Suc.prems]]]) auto
  qed
qed (auto intro: contract_gret)

lemma contract_private_actions:
  "contract_gen (arb_private_actions A G V root)
     (\<lambda>ys. ys \<noteq> [] \<and> length ys \<le> 3 \<and> private_actions_unique ys) Q"
  unfolding arb_private_actions_def
proof (rule contract_gbind [OF contract_draw_below])
  fix n :: nat
  assume "n < 4"
  then have "contract_gen (private_actions_loop A G V root n [])
      (\<lambda>ys. private_actions_unique ys \<and> length ys \<le> 3) Q"
    by (intro contract_weaken [OF contract_private_actions_loop]) (auto simp: private_actions_unique_def)
  then show "contract_gen (gbind (private_actions_loop A G V root n []) (\<lambda>actions.
      if actions = [] then gbind (arb_private_action A G V root) (\<lambda>action. gret [action]) else gret actions))
      (\<lambda>ys. ys \<noteq> [] \<and> length ys \<le> 3 \<and> private_actions_unique ys) Q"
    by (rule contract_gbind)
      (auto intro!: contract_if contract_gbind_any contract_private_action contract_gret
        simp: private_actions_unique_def)
qed simp

lemma contract_bound [gen_intros]: "contract_gen (arb_bound A) (pred_option (\<lambda>b. b < 8)) Q"
proof -
  have "ucast (b mod 8) < (8 :: u64)" for b :: u8
  proof -
    have "unat (b mod 8) < 8" by (simp add: unat_mod)
    then show ?thesis by (simp add: word_less_nat_alt unat_ucast_up)
  qed
  then show ?thesis
    unfolding arb_bound_def
    by (intro contract_gbind_any contract_prim contract_if contract_gunwrap_or contract_gret) simp_all
qed

lemma contract_validity_window [gen_intros]: "contract_gen (arb_validity_window A V) (window_ok V) Q"
  unfolding arb_validity_window_def
  by (rule contract_gbind_any, rule contract_weaken [OF contract_draw_below [of 4]])
    (auto intro!: contract_if contract_gret contract_gbind [OF contract_bound]
      simp: window_ok_def split: option.splits)

lemma contract_public_effect:
  "contract_gen (arb_public_effect A V) (\<lambda>_. True) (encode_panic V)"
  unfolding arb_public_effect_def
  by (rule contract_gbind_any, rule contract_weaken [OF contract_draw_below [of 4]])
    (auto intro!: contract_if contract_gret contract_gbind_any contract_prim contract_glift
      simp: expect_Inl_iff encode_panic_def)

lemma contract_public_effects:
  "contract_gen (arb_public_effects A V) (\<lambda>xs. length xs \<le> 2) (encode_panic V)"
  unfolding arb_public_effects_def
  by (rule contract_gbind [OF contract_draw_below], simp,
      rule contract_weaken [OF contract_grepeat [OF contract_public_effect]]) auto

lemma contract_gmap:
  assumes "\<And>x. x \<in> set xs \<Longrightarrow> contract_gen (f x) (R x) Q"
  shows "contract_gen (gmap f xs) (\<lambda>ys. list_all2 R xs ys) Q"
  using assms
proof (induction xs)
  case (Cons x xs)
  show ?case
    unfolding gmap.simps
    by (rule contract_gbind [OF Cons.prems [of x]], simp,
        rule contract_gbind [OF Cons.IH [OF Cons.prems]]) (auto intro: contract_gret)
qed (auto intro: contract_gret)

lemma contract_public_actions:
  "contract_gen (arb_public_actions A V ids)
     (\<lambda>xs. map pai_account_id xs = ids \<and> (\<forall>a\<in>set xs. length (pai_effects a) \<le> 2)) (encode_panic V)"
proof -
  have "contract_gen (arb_public_actions A V ids)
     (\<lambda>xs. list_all2 (\<lambda>aid a. pai_account_id a = aid \<and> length (pai_effects a) \<le> 2) ids xs) (encode_panic V)"
    unfolding arb_public_actions_def
    by (rule contract_gmap, rule contract_gbind [OF contract_public_effects]) (auto intro: contract_gret)
  moreover have "list_all2 (\<lambda>aid a. pai_account_id a = aid \<and> length (pai_effects a) \<le> 2) ids xs \<Longrightarrow>
      map pai_account_id xs = ids \<and> (\<forall>a\<in>set xs. length (pai_effects a) \<le> 2)" for xs
    by (induction ids arbitrary: xs) (auto simp: list_all2_Cons1)
  ultimately show ?thesis by (blast intro: contract_weaken)
qed

lemma contract_signers_loop:
  assumes "signers_ok C accounts keys ids" and "accounts \<noteq> [] \<or> n = 0"
  shows "contract_gen (signers_loop A C accounts n keys ids)
    (\<lambda>(keys', ids'). signers_ok C accounts keys' ids' \<and> length ids' \<le> length ids + n) Q"
  using assms
proof (induction n arbitrary: keys ids)
  case (Suc n)
  then have pos: "0 < length accounts" and ne: "accounts \<noteq> []" by auto
  let ?P = "\<lambda>(keys', ids'). signers_ok C accounts keys' ids' \<and> length ids' \<le> length ids + Suc n"
  show ?case
    unfolding signers_loop.simps Let_def
  proof (intro contract_gbind [OF contract_draw_index [OF pos]] contract_gbind [OF contract_index] contract_if)
    fix x :: fuzz_account
    let ?id = "account_id_for_key C (fa_private_key x)"
    show "contract_gen (signers_loop A C accounts n keys ids) ?P Q"
      by (rule contract_weaken [OF Suc.IH [OF Suc.prems(1)]]) (use ne in auto)
    assume "x \<in> set accounts" "?id \<notin> set ids"
    then have "signers_ok C accounts (keys @ [fa_private_key x]) (ids @ [?id])"
      using Suc.prems(1) by (auto simp: signers_ok_def)
    then show "contract_gen (signers_loop A C accounts n (keys @ [fa_private_key x]) (ids @ [?id])) ?P Q"
      by (rule contract_weaken [OF Suc.IH]) (use ne in auto)
  qed
qed (auto intro: contract_gret)

lemma contract_signers:
  "contract_gen (arb_signers A C accounts)
     (\<lambda>(keys, ids). signers_ok C accounts keys ids \<and> length ids \<le> 3) Q"
proof -
  have start: "signers_ok C accounts [] []" by (simp add: signers_ok_def)
  have "contract_gen (if min (length accounts) 3 = 0 then gret 0 else draw_below A (min (length accounts) 3 + 1))
      (\<lambda>n. n \<le> 3 \<and> (accounts \<noteq> [] \<or> n = 0)) Q"
    by (intro contract_if contract_gret contract_weaken [OF contract_draw_below]) auto
  then show ?thesis
    unfolding arb_signers_def Let_def
    by (rule contract_gbind) (auto intro: contract_weaken [OF contract_signers_loop [OF start]])
qed

lemma contract_extra_accounts:
  assumes "distinct ids"
  shows "contract_gen (extra_accounts_loop A accounts n ids) distinct Q"
  using assms
proof (induction n arbitrary: ids)
  case (Suc n)
  have pick: "contract_gen (if known
      then gbind (draw_index A (length accounts)) (\<lambda>i. gbind (glift (index accounts i)) (\<lambda>x. gret (fa_account_id x)))
      else gbind (prim (draw_bytes32 A)) (\<lambda>b. gret (AccountId b))) (\<lambda>_. True) Q"
    if "known \<longrightarrow> accounts \<noteq> []" for known
    using that
    by (intro contract_if contract_gbind [OF contract_draw_index] contract_gbind [OF contract_index]
        contract_gbind_any [OF contract_prim] contract_gret) auto
  have coin: "contract_gen (if accounts \<noteq> [] then prim (draw_bool A) else gret False)
      (\<lambda>known. known \<longrightarrow> accounts \<noteq> []) Q"
    by (intro contract_if contract_gret contract_weaken [OF contract_prim]) auto
  show ?case
    unfolding extra_accounts_loop.simps
    by (intro contract_gbind [OF coin] contract_gbind_any pick Suc.IH) (use Suc.prems in auto)
qed (auto intro: contract_gret)

lemma contract_public_account_ids:
  "distinct signer_ids \<Longrightarrow> contract_gen (arb_public_account_ids A accounts signer_ids) distinct Q"
  unfolding arb_public_account_ids_def
  by (intro contract_gbind_any contract_prim contract_weaken [OF contract_draw_below [of 4]] contract_extra_accounts)
    auto

lemma contract_proof: "contract_gen (glift (synthesize_passing_proof V m st ids)) (\<lambda>_. True) (encode_panic V)"
  by (rule contract_glift)
    (auto simp: synthesize_passing_proof_def Let_def obind_Inl_iff expect_Inl_iff encode_panic_def)

lemma contract_privacy_tx:
  "contract_gen (arb_privacy_preserving_tx L C G V A st accounts) (pp_tx_ok L C V st accounts) (encode_panic V)"
  unfolding arb_privacy_preserving_tx_def Let_def
  apply (rule contract_gbind [OF contract_signers], clarify)
  apply (rule contract_gbind [OF contract_public_account_ids], simp add: signers_ok_def)
  apply (rule contract_gbind [OF contract_public_actions])
  apply (rule contract_gbind [OF contract_private_actions])
  apply (rule contract_gbind [OF contract_validity_window])
  apply (rule contract_gbind [OF contract_validity_window])
  apply (rule contract_gbind_any, rule contract_weaken [OF contract_draw_below [of 8]], simp, simp, simp)
  apply (rule contract_gbind_any, intro contract_if contract_gbind_any contract_prim contract_gret contract_proof, simp)
  apply (rule contract_gret)
  apply (auto simp: pp_tx_ok_def pp_message_ok_def)
  done

interpretation privacy_tx: contract_gen "arb_privacy_preserving_tx L C G V A st accounts"
    "pp_tx_ok L C V st accounts" "encode_panic V"
  for L :: "('st, 'data, 'err, 'diff) lez" and C and G :: "('st, 'data) genesis_api"
    and V and A :: "'u arbitrary_api" and st accounts
  by (rule contract_privacy_tx)


subsection \<open>Conflicting pairs\<close>

text \<open>Two transactions of different signers that spend the same nullifier.\<close>

definition conflicting_pair ::
  "('st, 'data, 'err, 'diff) lez \<Rightarrow> crypto \<Rightarrow> ('st, 'data) privacy_api \<Rightarrow> 'st \<Rightarrow> fuzz_account list \<Rightarrow>
   pp_transaction \<times> pp_transaction \<Rightarrow> bool" where
  "conflicting_pair L C V st accounts = (\<lambda>(tx_b, tx_c). \<exists>x\<in>set accounts. \<exists>y\<in>set accounts. \<exists>action_b action_c.
     account_id_for_key C (fa_private_key x) \<noteq> account_id_for_key C (fa_private_key y) \<and>
     pra_nullifier action_b = pra_nullifier action_c \<and>
     pra_commitment action_b \<noteq> pra_commitment action_c \<and>
     pra_root action_b = commitment_set_digest V st \<and> pra_root action_c = commitment_set_digest V st \<and>
     build_pure_private_tx L C V st (fa_private_key x) [action_b] = Inr tx_b \<and>
     build_pure_private_tx L C V st (fa_private_key y) [action_c] = Inr tx_c)"

lemma build_pure_private_message:
  assumes "build_pure_private_tx L C V st key actions = Inr tx"
  shows "ppm_public_actions (ppt_message tx) = []"
    and "ppm_private_actions (ppt_message tx) = actions"
    and "ppm_nonces (ppt_message tx) = [account_nonce L st (account_id_for_key C key)]"
    and "ppm_program_image_claims (ppt_message tx) = []"
  using assms by (auto simp: build_pure_private_tx_def Let_def obind_Inr_iff)

text \<open>The proof of a pure private transaction is the one any other state would give it.\<close>

lemma build_pure_private_proof:
  assumes "build_pure_private_tx L C V st key actions = Inr tx"
  shows "\<exists>proof. synthesize_passing_proof V (ppt_message tx) st' [account_id_for_key C key] = Inr proof \<and>
    ppt_witness_set tx = pp_witness_for_message V (ppt_message tx) proof [key]"
proof -
  from assms obtain pf where
    "synthesize_passing_proof V (ppt_message tx) st [account_id_for_key C key] = Inr pf"
    and "ppt_witness_set tx = pp_witness_for_message V (ppt_message tx) pf [key]"
    by (auto simp: build_pure_private_tx_def Let_def obind_Inr_iff)
  with proof_state_independent [OF build_pure_private_message(4) [OF assms], of V st "[account_id_for_key C key]" st'] show ?thesis
    by (intro exI [of _ pf]) simp
qed

lemma contract_build_pure:
  "contract_gen (glift (build_pure_private_tx L C V st key actions))
     (\<lambda>tx. build_pure_private_tx L C V st key actions = Inr tx) (encode_panic V)"
  by (rule contract_glift)
    (auto simp: build_pure_private_tx_def synthesize_passing_proof_def Let_def obind_Inl_iff expect_Inl_iff
      encode_panic_def)

lemma conflicting_pairI:
  assumes "x \<in> set accounts" and "y \<in> set accounts"
    and "account_id_for_key C (fa_private_key x) \<noteq> account_id_for_key C (fa_private_key y)"
    and "comm_b \<noteq> comm_c"
    and "build_pure_private_tx L C V st (fa_private_key x)
      [\<lparr>pra_nullifier = n, pra_root = commitment_set_digest V st, pra_commitment = comm_b,
        pra_encrypted_post_state = post_b\<rparr>] = Inr tx_b"
    and "build_pure_private_tx L C V st (fa_private_key y)
      [\<lparr>pra_nullifier = n, pra_root = commitment_set_digest V st, pra_commitment = comm_c,
        pra_encrypted_post_state = post_c\<rparr>] = Inr tx_c"
  shows "conflicting_pair L C V st accounts (tx_b, tx_c)"
  unfolding conflicting_pair_def prod.case
  by (rule bexI [OF _ assms(1)], rule bexI [OF _ assms(2)], rule exI, rule exI,
      intro conjI, rule assms(3), use assms(4-6) in auto)

lemma contract_conflicting_pair:
  "contract_gen (arb_conflicting_nullifier_pair L C G V A st accounts)
     (conflicting_pair L C V st accounts) (encode_panic V)"
proof (cases "length accounts < 2")
  case True
  then show ?thesis by (simp add: arb_conflicting_nullifier_pair_def contract_gfail)
next
  case False
  then have pos: "0 < length accounts" by auto
  have other: "contract_gen (if j0 = i then glift (checked_rem (i + 1) (length accounts)) else gret j0)
      (\<lambda>j. j < length accounts) Q" if "j0 < length accounts" for i j0 and Q :: "panic \<Rightarrow> bool"
    using that pos by (intro contract_if contract_glift contract_gret) (auto simp: checked_rem_def)
  show ?thesis
    using False unfolding arb_conflicting_nullifier_pair_def Let_def
    apply simp
    apply (rule contract_gbind [OF contract_draw_index [OF pos]])
    apply (rule contract_gbind [OF contract_draw_index [OF pos]])
    apply (rule contract_gbind [OF other], assumption)
    apply (rule contract_gbind [OF contract_index], assumption)
    apply (rule contract_gbind [OF contract_index], assumption)
    apply (intro contract_if contract_gfail contract_gbind_any [OF contract_prim]
        contract_gbind_any [OF contract_arb_commitment] contract_gbind_any [OF contract_encrypted])
    apply (rule contract_gbind [OF contract_build_pure])
    apply (rule contract_gbind [OF contract_build_pure])
    apply (rule contract_gret)
    apply (rule conflicting_pairI; assumption)
    done
qed

interpretation nullifier_pair: contract_gen "arb_conflicting_nullifier_pair L C G V A st accounts"
    "conflicting_pair L C V st accounts" "encode_panic V"
  for L :: "('st, 'data, 'err, 'diff) lez" and C and G :: "('st, 'data) genesis_api"
    and V and A :: "'u arbitrary_api" and st accounts
  by (rule contract_conflicting_pair)

end
