(* ===== verification/Privacy_Targets.thy ===== *)
theory Privacy_Targets
  imports Privacy
begin

text \<open>
  The targets on the privacy-preserving executor: \<open>fuzz_privacy_preserving_state_transition.rs\<close>,
  which folds the declared public effects itself and compares, and
  \<open>fuzz_transaction_ordering_independence.rs\<close>, which applies a nullifier-conflicting pair in both
  orders.
\<close>

record ('st, 'data) pp_exec_api =
  message_public_account_ids :: "pp_message \<Rightarrow> account_id list"
  message_commitments :: "pp_message \<Rightarrow> commitment list"
  has_proof_for_commitment :: "'st \<Rightarrow> commitment \<Rightarrow> bool"
  native_effect_from_slice :: "bytes \<Rightarrow> native_effect option"
  set_native_shard :: "'data \<Rightarrow> u128 \<Rightarrow> 'data"
  public_account_nonce_increment :: "u128 \<Rightarrow> u128"

subsection \<open>Folding the public effects\<close>

fun apply_native_effect :: "native_effect \<Rightarrow> u128 \<Rightarrow> u128 option" where
  "apply_native_effect (Debit amount) balance = checked_sub balance amount"
| "apply_native_effect (Credit amount) balance = checked_add balance amount"

text \<open>The inner loop; \<open>None\<close> is \<open>continue 'actions\<close>, taken at the first effect on another program or shard.\<close>

fun fold_native_effects ::
  "('st, 'data) privacy_api \<Rightarrow> ('st, 'data) pp_exec_api \<Rightarrow> deferred_public_effect list \<Rightarrow> u128 \<Rightarrow>
   u128 option outcome" where
  "fold_native_effects V E [] balance = Inr (Some balance)"
| "fold_native_effects V E (effect # effects) balance =
     (if eff_program_account_id effect \<noteq> native_token_program_id V
         \<or> eff_shard_program_account_id effect \<noteq> native_token_program_id V
      then Inr None
      else obind (expect (Violation ''PublicEffectsApplied'') (native_effect_from_slice E (eff_data effect))) (\<lambda>native.
           obind (expect (Violation ''PublicEffectsApplied'') (apply_native_effect native balance)) (\<lambda>balance'.
             fold_native_effects V E effects balance')))"

definition check_public_action ::
  "('st, 'data, 'err, 'diff) lez \<Rightarrow> ('st, 'data) privacy_api \<Rightarrow> ('st, 'data) pp_exec_api \<Rightarrow> 'st \<Rightarrow> 'st \<Rightarrow>
   account_id list \<Rightarrow> public_action_with_id \<Rightarrow> unit outcome" where
  "check_public_action L V E state_before state signer_ids action =
     obind (native_balance L state_before (pai_account_id action)) (\<lambda>balance0.
     obind (fold_native_effects V E (pai_effects action) balance0) (\<lambda>r.
       case r of
         None \<Rightarrow> Inr ()
       | Some balance \<Rightarrow>
           let expected0 = get_account_by_id L state_before (pai_account_id action);
               expected1 = (if pai_effects action \<noteq> []
                 then expected0\<lparr>acc_data := set_native_shard E (acc_data expected0) balance\<rparr> else expected0);
               expected = (if pai_account_id action \<in> set signer_ids
                 then expected1\<lparr>acc_nonce := public_account_nonce_increment E (acc_nonce expected1)\<rparr>
                 else expected1)
           in ensure (get_account_by_id L state (pai_account_id action) = expected)
                (Violation ''PublicEffectsApplied'')))"

subsection \<open>The state-transition target\<close>

definition tracked_accounts :: "account_id list \<Rightarrow> account_id list \<Rightarrow> account_id list" where
  "tracked_accounts genesis_ids others = fold (\<lambda>aid ids. if aid \<in> set ids then ids else ids @ [aid]) others genesis_ids"

definition check_accepted ::
  "('st, 'data, 'err, 'diff) lez \<Rightarrow> ('st, 'data) privacy_api \<Rightarrow> ('st, 'data) pp_exec_api \<Rightarrow> pp_message \<Rightarrow>
   account_id list \<Rightarrow> nonce_snapshot \<Rightarrow> 'st \<Rightarrow> 'st \<Rightarrow> u64 \<Rightarrow> u64 \<Rightarrow> lee_transaction \<Rightarrow> 'st outcome" where
  "check_accepted L V E m signer_ids nonces_before state_before state block_id timestamp applied_tx =
     obind (for_each (\<lambda>c. ensure (has_proof_for_commitment E state c) (Violation ''CommitmentInsertion''))
              (message_commitments E m)) (\<lambda>_.
     obind (assert_nonce_increment_correctness L signer_ids nonces_before state) (\<lambda>_.
     obind (for_each (check_public_action L V E state_before state signer_ids) (ppm_public_actions m)) (\<lambda>_.
       assert_replay_rejection L applied_tx state (block_id + 1) (timestamp + 1))))"

definition checked_privacy_execution ::
  "('st, 'data, 'err, 'diff) lez \<Rightarrow> crypto \<Rightarrow> ('st, 'data) privacy_api \<Rightarrow> ('st, 'data) pp_exec_api \<Rightarrow>
   account_id list \<Rightarrow> u64 \<Rightarrow> u64 \<Rightarrow> pp_transaction \<Rightarrow> 'st \<Rightarrow> 'st outcome" where
  "checked_privacy_execution L C V E genesis_ids block_id timestamp tx st =
     (let signer_ids = map (\<lambda>(_, pk). account_id_from C pk)
            (ppw_signatures_and_public_keys (ppt_witness_set tx));
          public_account_ids = message_public_account_ids E (ppt_message tx)
      in case stateless_check L (PrivacyPreserving tx) of
        Inl _ \<Rightarrow> Inr st
      | Inr lee_tx \<Rightarrow>
          let tracked = tracked_accounts genesis_ids (signer_ids @ public_account_ids) in
          obind (snapshot_balances L st tracked) (\<lambda>balances_before.
          let nonces_before = snapshot_nonces L st tracked in
          case execute_check_on_state L lee_tx st block_id timestamp of
            (result, st') \<Rightarrow>
              let ctx = \<lparr>ctx_state_before = st, ctx_state_after = st',
                    ctx_execution_succeeded = is_ok result, ctx_balances_before = balances_before,
                    ctx_nonces_before = nonces_before\<rparr> in
              obind (check_invariant ctx (state_isolation_on_failure L)) (\<lambda>_.
              obind (check_invariant ctx (failed_tx_nonce_stability L)) (\<lambda>_.
              case result of
                Inl _ \<Rightarrow> obind (ensure (commitment_set_digest V st' = commitment_set_digest V st)
                    (Violation ''PrivateStateIsolationOnFailure'')) (\<lambda>_. Inr st')
              | Inr applied_tx \<Rightarrow>
                  check_accepted L V E (ppt_message tx) signer_ids nonces_before st st' block_id timestamp
                    applied_tx))))"

fun privacy_loop ::
  "('st, 'data, 'err, 'diff) lez \<Rightarrow> crypto \<Rightarrow> ('st, 'data) genesis_api \<Rightarrow> ('st, 'data) privacy_api \<Rightarrow>
   ('st, 'data) pp_exec_api \<Rightarrow> 'u arbitrary_api \<Rightarrow> fuzz_account list \<Rightarrow> nat \<Rightarrow> nat \<Rightarrow> 'st \<Rightarrow> ('u, 'st) gen" where
  "privacy_loop L C G V E A accs i 0 st = gret st"
| "privacy_loop L C G V E A accs i (Suc n) st =
     gbind (gcatch (arb_privacy_preserving_tx L C G V A st accs)) (\<lambda>r.
       case r of
         Inl _ \<Rightarrow> gret st
       | Inr tx \<Rightarrow> gbind (glift (checked_privacy_execution L C V E (map fst (init_accounts accs))
                          (1 + of_nat i) (of_nat i) tx st))
                     (privacy_loop L C G V E A accs (Suc i) n))"

definition fuzz_privacy_preserving_state_transition ::
  "('st, 'data, 'err, 'diff) lez \<Rightarrow> crypto \<Rightarrow> ('st, 'data) genesis_api \<Rightarrow> ('st, 'data) privacy_api \<Rightarrow>
   ('st, 'data) pp_exec_api \<Rightarrow> 'u arbitrary_api \<Rightarrow> ('u, unit) gen" where
  "fuzz_privacy_preserving_state_transition L C G V E A = gbind (gcatch (arbitrary_fuzz_state A C G)) (\<lambda>r.
     case r of
       Inl _ \<Rightarrow> gret ()
     | Inr accs \<Rightarrow>
         gbind (gunwrap_or 0 (prim (draw_u8 A))) (\<lambda>b.
         gbind (privacy_loop L C G V E A accs 0 (unat b mod 6) (genesis_state G (init_accounts accs) []))
           (\<lambda>_. gret ())))"

subsection \<open>The ordering target\<close>

definition gate :: "('st, 'data, 'err, 'diff) lez \<Rightarrow> pp_transaction \<Rightarrow> lee_transaction option" where
  "gate L tx = (case stateless_check L (PrivacyPreserving tx) of Inl _ \<Rightarrow> None | Inr lee \<Rightarrow> Some lee)"

text \<open>The acceptance of two transactions applied one after the other.\<close>

definition apply_both ::
  "('st, 'data, 'err, 'diff) lez \<Rightarrow> lee_transaction \<Rightarrow> lee_transaction \<Rightarrow> 'st \<Rightarrow> bool \<times> bool" where
  "apply_both L first second base =
     (case execute_check_on_state L first base 1 0 of
        (r1, s1) \<Rightarrow> (case execute_check_on_state L second s1 1 0 of (r2, _) \<Rightarrow> (is_ok r1, is_ok r2)))"

definition ordering_check ::
  "('st, 'data, 'err, 'diff) lez \<Rightarrow> pp_transaction \<times> pp_transaction \<Rightarrow> 'st \<Rightarrow> unit outcome" where
  "ordering_check L = (\<lambda>(tx_b, tx_c) base.
     case (gate L tx_b, gate L tx_c) of
       (Some b, Some c) \<Rightarrow>
         (case (apply_both L b c base, apply_both L c b base) of
            ((rb1, rc1), (rc2, rb2)) \<Rightarrow>
              obind (ensure (\<not> (rb1 \<and> rc1)) (Violation ''NoDoubleSpend'')) (\<lambda>_.
              obind (ensure (\<not> (rc2 \<and> rb2)) (Violation ''NoDoubleSpend'')) (\<lambda>_.
                ensure ((of_bool rb1 + of_bool rc1 :: u8) = of_bool rb2 + of_bool rc2)
                  (Violation ''OrderIndependentAcceptance''))))
     | _ \<Rightarrow> Inr ())"

fun seed_loop ::
  "('st, 'data, 'err, 'diff) lez \<Rightarrow> crypto \<Rightarrow> ('st, 'data) genesis_api \<Rightarrow> ('st, 'data) privacy_api \<Rightarrow>
   'u arbitrary_api \<Rightarrow> fuzz_account list \<Rightarrow> nat \<Rightarrow> nat \<Rightarrow> 'st \<Rightarrow> ('u, 'st) gen" where
  "seed_loop L C G V A accs i 0 base = gret base"
| "seed_loop L C G V A accs i (Suc n) base =
     gbind (gcatch (arb_privacy_preserving_tx L C G V A base accs)) (\<lambda>r.
       case r of
         Inl _ \<Rightarrow> gret base
       | Inr tx \<Rightarrow>
           (case gate L tx of
              None \<Rightarrow> seed_loop L C G V A accs (Suc i) n base
            | Some lee \<Rightarrow> seed_loop L C G V A accs (Suc i) n
                (snd (execute_check_on_state L lee base (1 + of_nat i) (of_nat i)))))"

definition fuzz_transaction_ordering_independence ::
  "('st, 'data, 'err, 'diff) lez \<Rightarrow> crypto \<Rightarrow> ('st, 'data) genesis_api \<Rightarrow> ('st, 'data) privacy_api \<Rightarrow>
   'u arbitrary_api \<Rightarrow> ('u, unit) gen" where
  "fuzz_transaction_ordering_independence L C G V A = gbind (gcatch (arbitrary_fuzz_state A C G)) (\<lambda>r.
     case r of
       Inl _ \<Rightarrow> gret ()
     | Inr accs \<Rightarrow>
         if length accs < 2 then gret ()
         else gbind (gunwrap_or 0 (prim (draw_u8 A))) (\<lambda>b.
              gbind (seed_loop L C G V A accs 0 (unat b mod 4) (genesis_state G (init_accounts accs) [])) (\<lambda>base.
              gbind (gcatch (arb_conflicting_nullifier_pair L C G V A base accs)) (\<lambda>r2.
                case r2 of
                  Inl _ \<Rightarrow> gret ()
                | Inr pair \<Rightarrow> glift (ordering_check L pair base)))))"

subsection \<open>What the folded effects mean\<close>

fun debits :: "native_effect list \<Rightarrow> nat" where
  "debits [] = 0"
| "debits (Debit a # es) = unat a + debits es"
| "debits (Credit a # es) = debits es"

fun credits :: "native_effect list \<Rightarrow> nat" where
  "credits [] = 0"
| "credits (Debit a # es) = credits es"
| "credits (Credit a # es) = unat a + credits es"

text \<open>Every prefix stays between zero and the width of the balance.\<close>

fun solvent :: "nat \<Rightarrow> native_effect list \<Rightarrow> bool" where
  "solvent b [] = True"
| "solvent b (Debit a # es) = (unat a \<le> b \<and> solvent (b - unat a) es)"
| "solvent b (Credit a # es) = (b + unat a < 2 ^ 128 \<and> solvent (b + unat a) es)"

definition native_only :: "('st, 'data) privacy_api \<Rightarrow> deferred_public_effect list \<Rightarrow> bool" where
  "native_only V es \<longleftrightarrow> (\<forall>e\<in>set es. eff_program_account_id e = native_token_program_id V \<and>
     eff_shard_program_account_id e = native_token_program_id V)"

lemma solvent_Cons:
  "solvent b (n # ns) \<longleftrightarrow> solvent b [n] \<and> solvent (b + credits [n] - debits [n]) ns"
  by (cases n) auto

lemma apply_native_effect_Some_iff:
  "apply_native_effect n b = Some c \<longleftrightarrow> solvent (unat b) [n] \<and> unat c = unat b + credits [n] - debits [n]"
  by (cases n) (auto simp: checked_sub_Some_iff checked_add_Some_iff word_le_nat_alt)

lemma apply_native_effect_None_iff: "apply_native_effect n b = None \<longleftrightarrow> \<not> solvent (unat b) [n]"
  by (cases n) (auto simp: checked_sub_None_iff checked_add_None_iff word_less_nat_alt)

lemma fold_native_effects_Some_iff:
  "fold_native_effects V E es b = Inr (Some b') \<longleftrightarrow>
     native_only V es \<and> (\<exists>ns. list_all2 (\<lambda>e n. native_effect_from_slice E (eff_data e) = Some n) es ns \<and>
       solvent (unat b) ns \<and> unat b' + debits ns = unat b + credits ns)"
proof (induction es arbitrary: b)
  case Nil
  show ?case by (auto simp: native_only_def word_unat_eq_iff)
next
  case (Cons e es)
  show ?case
  proof (cases "eff_program_account_id e = native_token_program_id V \<and>
      eff_shard_program_account_id e = native_token_program_id V")
    case True
    show ?thesis
    proof (cases "native_effect_from_slice E (eff_data e)")
      case None
      with True show ?thesis by (simp add: list_all2_Cons1)
    next
      case (Some n)
      show ?thesis
      proof (cases "apply_native_effect n b")
        case None
        then have "\<not> solvent (unat b) (n # ns)" for ns
          by (subst solvent_Cons) (simp add: apply_native_effect_None_iff)
        with True Some None show ?thesis by (simp add: list_all2_Cons1) blast
      next
        case app: (Some c)
        then have c: "unat c = unat b + credits [n] - debits [n]" "solvent (unat b) [n]"
          by (simp_all add: apply_native_effect_Some_iff)
        define d k where "d = debits [n]" and "k = credits [n]"
        have "debits (n # ns) = d + debits ns" "credits (n # ns) = k + credits ns" for ns
          by (cases n; simp add: d_def k_def)+
        moreover have "d \<le> unat b + k" "unat c = unat b + k - d"
          using c by (cases n; simp add: d_def k_def)+
        ultimately have "unat b' + debits (n # ns) = unat b + credits (n # ns) \<longleftrightarrow>
            unat b' + debits ns = unat c + credits ns" for ns
          by auto
        moreover have "solvent (unat b) (n # ns) \<longleftrightarrow> solvent (unat c) ns" for ns
          using c by (subst solvent_Cons) simp
        ultimately show ?thesis
          using True Some app by (simp add: Cons.IH list_all2_Cons1 native_only_def) blast
      qed
    qed
  qed (auto simp: native_only_def)
qed

subsection \<open>The verdict of one checked privacy-preserving execution\<close>

lemma tracked_accounts_props:
  assumes "distinct ids"
  shows "distinct (tracked_accounts ids others)" and "set (tracked_accounts ids others) = set ids \<union> set others"
proof -
  have "distinct (tracked_accounts ids others) \<and> set (tracked_accounts ids others) = set ids \<union> set others"
    using assms by (induction others arbitrary: ids) (auto simp: tracked_accounts_def)
  then show "distinct (tracked_accounts ids others)"
    and "set (tracked_accounts ids others) = set ids \<union> set others" by auto
qed

text \<open>The account after the effects: balance folded into the native shard, nonce raised for a signer.\<close>

definition folded_account ::
  "('st, 'data, 'err, 'diff) lez \<Rightarrow> ('st, 'data) pp_exec_api \<Rightarrow> 'st \<Rightarrow> account_id list \<Rightarrow>
   public_action_with_id \<Rightarrow> u128 \<Rightarrow> 'data account" where
  "folded_account L E st signer_ids action balance =
     (let a = get_account_by_id L st (pai_account_id action) in
      \<lparr>acc_nonce = (if pai_account_id action \<in> set signer_ids
         then public_account_nonce_increment E (acc_nonce a) else acc_nonce a),
       acc_data = (if pai_effects action = [] then acc_data a else set_native_shard E (acc_data a) balance)\<rparr>)"

text \<open>
  What is asked of one public action. With an effect on another program or shard the fold ends there
  (\<open>Inr None\<close>) and the account is not compared, as in the target.
\<close>

definition effects_applied ::
  "('st, 'data, 'err, 'diff) lez \<Rightarrow> ('st, 'data) privacy_api \<Rightarrow> ('st, 'data) pp_exec_api \<Rightarrow> 'st \<Rightarrow> 'st \<Rightarrow>
   account_id list \<Rightarrow> public_action_with_id \<Rightarrow> bool" where
  "effects_applied L V E st st' signer_ids action \<longleftrightarrow>
     (\<exists>b0. native_balance L st (pai_account_id action) = Inr b0 \<and>
       (case fold_native_effects V E (pai_effects action) b0 of
          Inl _ \<Rightarrow> False
        | Inr None \<Rightarrow> True
        | Inr (Some b) \<Rightarrow> get_account_by_id L st' (pai_account_id action) = folded_account L E st signer_ids action b))"

lemma check_public_action_iff:
  "check_public_action L V E st st' ids action = Inr () \<longleftrightarrow> effects_applied L V E st st' ids action"
proof (cases "native_balance L st (pai_account_id action)")
  case (Inl p)
  then show ?thesis by (simp add: check_public_action_def effects_applied_def)
next
  case bal: (Inr b0)
  show ?thesis
  proof (cases "fold_native_effects V E (pai_effects action) b0")
    case (Inl p)
    with bal show ?thesis by (simp add: check_public_action_def effects_applied_def)
  next
    case (Inr r)
    with bal show ?thesis
      by (cases r)
        (auto simp: check_public_action_def effects_applied_def ensure_Inr_iff folded_account_def Let_def)
  qed
qed

text \<open>
  The effects before the first one on another program or shard. A chain may accept an action only if
  these decode and stay solvent; when the action has no other effect the account is known exactly.
\<close>

definition native_prefix :: "('st, 'data) privacy_api \<Rightarrow> deferred_public_effect list \<Rightarrow> deferred_public_effect list" where
  "native_prefix V = takeWhile (\<lambda>e. native_only V [e])"

lemma native_prefix_only: "native_only V (native_prefix V es)"
  by (auto simp: native_only_def native_prefix_def dest: set_takeWhileD)

lemma native_prefix_all: "native_only V es \<Longrightarrow> native_prefix V es = es"
  unfolding native_prefix_def takeWhile_eq_all_conv by (auto simp: native_only_def)

lemma fold_native_effects_prefix:
  "fold_native_effects V E es b =
     obind (fold_native_effects V E (native_prefix V es) b) (\<lambda>r. Inr (if native_only V es then r else None))"
proof (induction es arbitrary: b)
  case (Cons e es)
  show ?case
    by (cases "native_effect_from_slice E (eff_data e)")
      (auto simp: native_prefix_def native_only_def obind_assoc expect_def Cons.IH [unfolded native_prefix_def native_only_def]
        split: option.splits)
qed (simp add: native_prefix_def native_only_def)

definition settles ::
  "('st, 'data, 'err, 'diff) lez \<Rightarrow> ('st, 'data) privacy_api \<Rightarrow> ('st, 'data) pp_exec_api \<Rightarrow> 'st \<Rightarrow> 'st \<Rightarrow>
   account_id list \<Rightarrow> public_action_with_id \<Rightarrow> bool" where
  "settles L V E st st' signer_ids action \<longleftrightarrow>
     (\<exists>b ns b'. native_balance L st (pai_account_id action) = Inr b \<and>
       list_all2 (\<lambda>e n. native_effect_from_slice E (eff_data e) = Some n) (native_prefix V (pai_effects action)) ns \<and>
       solvent (unat b) ns \<and> unat b' + debits ns = unat b + credits ns \<and>
       (native_only V (pai_effects action) \<longrightarrow>
          get_account_by_id L st' (pai_account_id action) = folded_account L E st signer_ids action b'))"

lemma settles_effects_applied:
  assumes "settles L V E st st' signer_ids action"
  shows "effects_applied L V E st st' signer_ids action"
proof -
  from assms obtain b ns b' where b: "native_balance L st (pai_account_id action) = Inr b"
    and ns: "list_all2 (\<lambda>e n. native_effect_from_slice E (eff_data e) = Some n) (native_prefix V (pai_effects action)) ns"
      "solvent (unat b) ns" "unat b' + debits ns = unat b + credits ns"
    and after: "native_only V (pai_effects action) \<longrightarrow>
      get_account_by_id L st' (pai_account_id action) = folded_account L E st signer_ids action b'"
    unfolding settles_def by blast
  have "fold_native_effects V E (native_prefix V (pai_effects action)) b = Inr (Some b')"
    using ns native_prefix_only [of V "pai_effects action"] unfolding fold_native_effects_Some_iff by blast
  then have "fold_native_effects V E (pai_effects action) b =
      Inr (if native_only V (pai_effects action) then Some b' else None)"
    by (subst fold_native_effects_prefix) simp
  with b after show ?thesis by (simp add: effects_applied_def)
qed

definition privacy_execution_ok ::
  "('st, 'data, 'err, 'diff) lez \<Rightarrow> ('st, 'data) privacy_api \<Rightarrow> ('st, 'data) pp_exec_api \<Rightarrow>
   account_id list \<Rightarrow> account_id list \<Rightarrow> u64 \<Rightarrow> u64 \<Rightarrow> pp_message \<Rightarrow> lee_transaction \<Rightarrow> 'st \<Rightarrow> 'st \<Rightarrow> bool" where
  "privacy_execution_ok L V E tracked signer_ids b t m lee st st2 \<longleftrightarrow>
     (case execute_check_on_state L lee st b t of
        (Inl _, st') \<Rightarrow> untouched L (set tracked) st st' \<and>
          commitment_set_digest V st' = commitment_set_digest V st \<and> st2 = st'
      | (Inr applied, st') \<Rightarrow>
          (\<forall>c\<in>set (message_commitments E m). has_proof_for_commitment E st' c) \<and>
          (\<forall>aid\<in>set signer_ids. unat (account_nonce L st' aid) = unat (account_nonce L st aid) + 1) \<and>
          (\<forall>action\<in>set (ppm_public_actions m). effects_applied L V E st st' signer_ids action) \<and>
          \<not> is_ok (fst (execute_check_on_state L applied st' (b + 1) (t + 1))) \<and>
          st2 = snd (execute_check_on_state L applied st' (b + 1) (t + 1)))"

lemma checked_privacy_execution_iff:
  assumes g: "distinct genesis_ids"
    and ids: "signer_ids = map (\<lambda>(_, pk). account_id_from C pk) (ppw_signatures_and_public_keys (ppt_witness_set tx))"
    and tracked: "tracked = tracked_accounts genesis_ids (signer_ids @ message_public_account_ids E (ppt_message tx))"
  shows "checked_privacy_execution L C V E genesis_ids b t tx st = Inr st2 \<longleftrightarrow>
    (case stateless_check L (PrivacyPreserving tx) of
       Inl _ \<Rightarrow> st2 = st
     | Inr lee \<Rightarrow> readable L st tracked \<and>
         privacy_execution_ok L V E tracked signer_ids b t (ppt_message tx) lee st st2)"
proof (cases "stateless_check L (PrivacyPreserving tx)")
  case (Inl e)
  then show ?thesis by (auto simp: checked_privacy_execution_def Let_def)
next
  case (Inr lee)
  have d: "distinct tracked" and sub: "set signer_ids \<subseteq> set tracked"
    using tracked_accounts_props [OF g] tracked by auto
  let ?bals = "map (\<lambda>aid. (aid, balance_of L st aid)) tracked"
  let ?nons = "map (\<lambda>aid. (aid, account_nonce L st aid)) tracked"
  obtain r st' where ex: "execute_check_on_state L lee st b t = (r, st')" by fastforce
  have stable: "readable L st tracked \<Longrightarrow>
      balances_stable L st' ?bals \<and> nonces_stable L st' ?nons \<longleftrightarrow> untouched L (set tracked) st st'"
    using readable_balance [of L st tracked]
    by (auto simp: balances_stable_def nonces_stable_def untouched_def)
  have incr: "signers_incremented L signer_ids ?nons st' \<longleftrightarrow> (\<forall>aid\<in>set signer_ids.
      unat (account_nonce L st' aid) = unat (account_nonce L st aid) + 1)"
    using sub unfolding signers_incremented_def hm_get_graph by auto
  have run: "checked_privacy_execution L C V E genesis_ids b t tx st = Inr st2 \<longleftrightarrow>
      readable L st tracked \<and>
      (\<not> is_ok r \<longrightarrow> balances_stable L st' ?bals) \<and> (\<not> is_ok r \<longrightarrow> nonces_stable L st' ?nons) \<and>
      (case r of
         Inl _ \<Rightarrow> commitment_set_digest V st' = commitment_set_digest V st \<and> st2 = st'
       | Inr applied \<Rightarrow> check_accepted L V E (ppt_message tx) signer_ids ?nons st st' b t applied = Inr st2)"
    unfolding checked_privacy_execution_def Let_def ids [symmetric] tracked [symmetric]
    by (auto simp: Inr ex obind_Inr_iff ensure_Inr_iff snapshot_balances_Inr_iff [OF d] snapshot_nonces_eq [OF d]
        isolation.check_ok_iff stability.check_ok_iff split: sum.splits)
  show ?thesis
  proof (cases r)
    case rej: (Inl e)
    show ?thesis
      unfolding run by (simp add: privacy_execution_ok_def ex rej Inr) (use stable in auto)
  next
    case acc: (Inr applied)
    show ?thesis
      unfolding run
      by (auto simp: privacy_execution_ok_def ex acc Inr check_accepted_def obind_Inr_iff for_each_Inr_iff ensure_Inr_iff nonce_increment_iff incr
          check_public_action_iff replay_rejection_iff)
  qed
qed

subsection \<open>Ordering independence\<close>

definition nullifiers :: "pp_transaction \<Rightarrow> nullifier set" where
  "nullifiers tx = pra_nullifier ` set (ppm_private_actions (ppt_message tx))"

text \<open>
  What the oracle relies on: the gate hands a transaction through unchanged, a rejected transaction
  leaves the state as it was, and an accepted one spends its nullifiers, in every later block too.
\<close>

definition gate_identity :: "('st, 'data, 'err, 'diff) lez \<Rightarrow> bool" where
  "gate_identity L \<longleftrightarrow> (\<forall>raw tx. stateless_check L raw = Inr tx \<longrightarrow> tx = raw)"

definition rejection_is_noop :: "('st, 'data, 'err, 'diff) lez \<Rightarrow> bool" where
  "rejection_is_noop L \<longleftrightarrow> (\<forall>tx st b t e st'. execute_check_on_state L tx st b t = (Inl e, st') \<longrightarrow> st' = st)"

definition nullifiers_spent_once :: "('st, 'data, 'err, 'diff) lez \<Rightarrow> bool" where
  "nullifiers_spent_once L \<longleftrightarrow> (\<forall>x y st b t b' t' applied st1. nullifiers x \<inter> nullifiers y \<noteq> {} \<longrightarrow>
     execute_check_on_state L (PrivacyPreserving x) st b t = (Inr applied, st1) \<longrightarrow>
     \<not> is_ok (fst (execute_check_on_state L (PrivacyPreserving y) st1 b' t')))"

lemma ordering_check_iff:
  assumes "gate L b = Some b'" and "gate L c = Some c'"
    and "apply_both L b' c' base = (rb1, rc1)" and "apply_both L c' b' base = (rc2, rb2)"
  shows "ordering_check L (b, c) base = Inr () \<longleftrightarrow>
    \<not> (rb1 \<and> rc1) \<and> \<not> (rb2 \<and> rc2) \<and> ((rb1 \<or> rc1) \<longleftrightarrow> (rb2 \<or> rc2))"
  using assms by (auto simp: ordering_check_def obind_Inr_iff ensure_Inr_iff)

lemma gate_Some: "gate_identity L \<Longrightarrow> gate L tx = Some lee \<Longrightarrow> lee = PrivacyPreserving tx"
  by (auto simp: gate_def gate_identity_def split: sum.splits)

text \<open>Acceptance of the first transaction decides: the second one gets what the base state gives it, or nothing.\<close>

lemma apply_both_conflict:
  assumes "rejection_is_noop L" and "nullifiers_spent_once L" and "nullifiers x \<inter> nullifiers y \<noteq> {}"
  shows "apply_both L (PrivacyPreserving x) (PrivacyPreserving y) base =
    (let accepts = (\<lambda>z. is_ok (fst (execute_check_on_state L (PrivacyPreserving z) base 1 0)))
     in (accepts x, \<not> accepts x \<and> accepts y))"
proof -
  obtain r s1 where ex: "execute_check_on_state L (PrivacyPreserving x) base 1 0 = (r, s1)" by fastforce
  show ?thesis
  proof (cases r)
    case (Inl e)
    with ex assms(1) have "s1 = base" by (simp add: rejection_is_noop_def)
    with ex Inl show ?thesis by (simp add: apply_both_def Let_def split: prod.splits)
  next
    case (Inr applied)
    with ex assms(2,3) have "\<not> is_ok (fst (execute_check_on_state L (PrivacyPreserving y) s1 1 0))"
      by (auto simp: nullifiers_spent_once_def)
    with ex Inr show ?thesis by (auto simp: apply_both_def Let_def split: prod.splits)
  qed
qed

lemma ordering_check_ok:
  assumes laws: "gate_identity L" "rejection_is_noop L" "nullifiers_spent_once L"
    and shared: "nullifiers x \<inter> nullifiers y \<noteq> {}"
  shows "ordering_check L (x, y) base = Inr ()"
proof (cases "gate L x = None \<or> gate L y = None")
  case True
  then show ?thesis by (auto simp: ordering_check_def split: option.splits)
next
  case False
  with gate_Some [OF laws(1)] have g: "gate L x = Some (PrivacyPreserving x)" "gate L y = Some (PrivacyPreserving y)"
    by auto
  have shared': "nullifiers y \<inter> nullifiers x \<noteq> {}" using shared by blast
  note both = apply_both_conflict [OF laws(2,3) shared, of base]
    apply_both_conflict [OF laws(2,3) shared', of base]
  show ?thesis
    unfolding ordering_check_iff [OF g both [unfolded Let_def]] by auto
qed

lemma conflicting_pair_shares:
  assumes "conflicting_pair L C V st accounts (x, y)"
  shows "nullifiers x \<inter> nullifiers y \<noteq> {}"
proof -
  from assms obtain kx ky ax ay where
    "build_pure_private_tx L C V st kx [ax] = Inr x" "build_pure_private_tx L C V st ky [ay] = Inr y"
    "pra_nullifier ax = pra_nullifier ay"
    unfolding conflicting_pair_def by blast
  then show ?thesis by (auto simp: nullifiers_def dest!: build_pure_private_message(2))
qed

lemma contract_seed_loop:
  "contract_gen (seed_loop L C G V A accs i n base) (\<lambda>_. True) (encode_panic V)"
proof (induction n arbitrary: i base)
  case (Suc n)
  show ?case
    unfolding seed_loop.simps
    by (rule contract_gbind_any [OF contract_weaken [OF contract_gcatch [OF contract_privacy_tx]]])
      (auto split: sum.split option.split intro: Suc.IH contract_gret)
qed (auto intro: contract_gret)

lemma contract_ordering_independence:
  assumes "gate_identity L" and "rejection_is_noop L" and "nullifiers_spent_once L"
  shows "contract_gen (fuzz_transaction_ordering_independence L C G V A) (\<lambda>_. True)
    (\<lambda>p. bad_seed C p \<or> encode_panic V p)"
proof -
  let ?Q = "\<lambda>p. bad_seed C p \<or> encode_panic V p"
  have accs: "contract_gen (gcatch (arbitrary_fuzz_state A C G)) (\<lambda>_. True) ?Q"
    by (rule contract_weaken [OF contract_gcatch [OF contract_fuzz_state]]) auto
  have seed: "contract_gen (seed_loop L C G V A accs i n base) (\<lambda>_. True) ?Q" for accs i n base
    by (rule contract_weaken [OF contract_seed_loop]) auto
  have pair: "contract_gen (gcatch (arb_conflicting_nullifier_pair L C G V A base accs))
      (\<lambda>r. case r of Inl _ \<Rightarrow> True | Inr p \<Rightarrow> ordering_check L p base = Inr ()) ?Q" for base accs
    by (rule contract_weaken [OF contract_gcatch [OF contract_conflicting_pair]])
      (auto split: sum.splits intro!: ordering_check_ok assms conflicting_pair_shares)
  show ?thesis
    unfolding fuzz_transaction_ordering_independence_def
    apply (rule contract_gbind_any [OF accs])
    apply (split sum.split, intro conjI allI impI contract_gret contract_if TrueI)
    apply (rule contract_gbind_any [OF contract_gunwrap_or [OF contract_prim TrueI]])
    apply (rule contract_gbind_any [OF seed])
    apply (rule contract_gbind [OF pair])
    apply (auto split: sum.splits simp: glift_def intro: contract_gret)
    done
qed

subsection \<open>The state-transition target on a lawful chain\<close>

text \<open>
  What an accepted privacy-preserving transaction does on a lawful chain: it is handed back, its
  commitments are inserted, its signers' nonces advance by one and each of its public accounts is
  settled. The chain spends nullifiers once, so nothing is said about the replay.
\<close>

definition private_ledger_rules ::
  "('st, 'data, 'err, 'diff) lez \<Rightarrow> crypto \<Rightarrow> ('st, 'data) privacy_api \<Rightarrow> ('st, 'data) pp_exec_api \<Rightarrow> bool" where
  "private_ledger_rules L C V E \<longleftrightarrow> (\<forall>tx st b t applied st'.
     execute_check_on_state L (PrivacyPreserving tx) st b t = (Inr applied, st') \<longrightarrow>
     (let m = ppt_message tx;
          signers = map (\<lambda>(_, pk). account_id_from C pk) (ppw_signatures_and_public_keys (ppt_witness_set tx))
      in applied = PrivacyPreserving tx \<and>
         (\<forall>c\<in>set (message_commitments E m). has_proof_for_commitment E st' c) \<and>
         (distinct signers \<longrightarrow>
            (\<forall>aid\<in>set signers. unat (account_nonce L st' aid) = unat (account_nonce L st aid) + 1)) \<and>
         (distinct (map pai_account_id (ppm_public_actions m)) \<longrightarrow>
            (\<forall>a\<in>set (ppm_public_actions m). settles L V E st st' signers a))))"


text \<open>A witness set names the public keys of the keys that signed it.\<close>

definition witnesses_name_keys :: "crypto \<Rightarrow> ('st, 'data) privacy_api \<Rightarrow> bool" where
  "witnesses_name_keys C V \<longleftrightarrow> (\<forall>m pf keys.
     map snd (ppw_signatures_and_public_keys (pp_witness_for_message V m pf keys)) =
       map (public_key_new_from_private_key C) keys)"

definition balances_readable :: "('st, 'data, 'err, 'diff) lez \<Rightarrow> bool" where
  "balances_readable L \<longleftrightarrow> (\<forall>st ids. readable L st ids)"

definition lawful_private_chain ::
  "('st, 'data, 'err, 'diff) lez \<Rightarrow> crypto \<Rightarrow> ('st, 'data) privacy_api \<Rightarrow> ('st, 'data) pp_exec_api \<Rightarrow> bool" where
  "lawful_private_chain L C V E \<longleftrightarrow> gate_identity L \<and> rejection_is_noop L \<and> nullifiers_spent_once L \<and>
     balances_readable L \<and> witnesses_name_keys C V \<and> private_ledger_rules L C V E"

lemma pp_tx_ok_signers:
  assumes "witnesses_name_keys C V" and "pp_tx_ok L C V st accounts tx"
  shows "distinct (map (\<lambda>(_, pk). account_id_from C pk) (ppw_signatures_and_public_keys (ppt_witness_set tx)))"
proof -
  from assms(2) obtain keys pf where d: "distinct (map (account_id_for_key C) keys)"
    and w: "ppt_witness_set tx = pp_witness_for_message V (ppt_message tx) pf keys"
    by (auto simp: pp_tx_ok_def signers_ok_def)
  have "map (\<lambda>(_, pk). account_id_from C pk) (ppw_signatures_and_public_keys (ppt_witness_set tx)) =
      map (account_id_from C) (map snd (ppw_signatures_and_public_keys (ppt_witness_set tx)))"
    by (simp add: case_prod_unfold)
  also have "\<dots> = map (account_id_for_key C) keys"
    using assms(1) unfolding w by (simp add: witnesses_name_keys_def account_id_for_key_def)
  finally show ?thesis using d by simp
qed

lemma pp_tx_ok_replay:
  assumes "nullifiers_spent_once L" and "pp_tx_ok L C V st0 accounts tx"
    and "execute_check_on_state L (PrivacyPreserving tx) st b t = (Inr applied, st')"
  shows "\<not> is_ok (fst (execute_check_on_state L (PrivacyPreserving tx) st' b' t'))"
proof -
  have "nullifiers tx \<inter> nullifiers tx \<noteq> {}"
    using assms(2) by (auto simp: pp_tx_ok_def pp_message_ok_def nullifiers_def)
  with assms(1,3) show ?thesis unfolding nullifiers_spent_once_def by blast
qed

lemma private_execution_passes:
  assumes law: "lawful_private_chain L C V E" and tx: "pp_tx_ok L C V st0 accounts tx"
    and g: "distinct genesis_ids"
  shows "\<exists>st2. checked_privacy_execution L C V E genesis_ids b t tx st = Inr st2"
proof (cases "stateless_check L (PrivacyPreserving tx)")
  case (Inl e)
  then show ?thesis unfolding checked_privacy_execution_iff [OF g refl refl] by simp
next
  case (Inr lee)
  with law have lee: "lee = PrivacyPreserving tx" by (auto simp: lawful_private_chain_def gate_identity_def)
  obtain r st' where ex: "execute_check_on_state L (PrivacyPreserving tx) st b t = (r, st')" by fastforce
  have read: "readable L st ids" for ids
    using law by (simp add: lawful_private_chain_def balances_readable_def)
  show ?thesis
  proof (cases r)
    case rej: (Inl e)
    with law ex have "st' = st" by (simp add: lawful_private_chain_def rejection_is_noop_def)
    with ex rej read show ?thesis
      unfolding checked_privacy_execution_iff [OF g refl refl]
      by (simp add: Inr lee privacy_execution_ok_def untouched_def)
  next
    case acc: (Inr applied)
    have d: "distinct (map pai_account_id (ppm_public_actions (ppt_message tx)))"
      using tx by (auto simp: pp_tx_ok_def pp_message_ok_def)
    have ds: "distinct (map (\<lambda>(_, pk). account_id_from C pk) (ppw_signatures_and_public_keys (ppt_witness_set tx)))"
      using law pp_tx_ok_signers [OF _ tx] by (simp add: lawful_private_chain_def)
    have rules: "private_ledger_rules L C V E" and spent: "nullifiers_spent_once L"
      using law by (simp_all add: lawful_private_chain_def)
    note out = rules [unfolded private_ledger_rules_def Let_def, rule_format, OF ex [unfolded acc]]
    have replay: "\<not> is_ok (fst (execute_check_on_state L (PrivacyPreserving tx) st' (b + 1) (t + 1)))"
      using pp_tx_ok_replay [OF spent tx ex [unfolded acc]] .
    show ?thesis
      unfolding checked_privacy_execution_iff [OF g refl refl]
      using out d ds replay read settles_effects_applied [of L V E st st']
      by (simp add: Inr lee privacy_execution_ok_def ex acc)
  qed
qed

lemma contract_privacy_loop:
  assumes "lawful_private_chain L C V E" and "distinct (map fa_account_id accs)"
  shows "contract_gen (privacy_loop L C G V E A accs i n st) (\<lambda>_. True) (encode_panic V)"
proof (induction n arbitrary: i st)
  case (Suc n)
  have pass: "contract_gen (glift (checked_privacy_execution L C V E (map fst (init_accounts accs)) b t tx st))
      (\<lambda>_. True) (encode_panic V)" if "pp_tx_ok L C V st accs tx" for tx b t
    using private_execution_passes [OF assms(1) that, of "map fst (init_accounts accs)" b t st] assms(2)
    by (auto simp: init_ids glift_def intro: contract_gret)
  show ?case
    unfolding privacy_loop.simps
    by (rule contract_gbind [OF contract_gcatch [OF contract_privacy_tx]])
      (auto split: sum.split intro!: contract_gret contract_gbind_any [OF pass] Suc.IH)
qed (auto intro: contract_gret)

lemma contract_privacy_state_transition:
  assumes "lawful_private_chain L C V E"
  shows "contract_gen (fuzz_privacy_preserving_state_transition L C G V E A) (\<lambda>_. True)
    (\<lambda>p. bad_seed C p \<or> encode_panic V p)"
proof -
  let ?Q = "\<lambda>p. bad_seed C p \<or> encode_panic V p"
  have accs: "contract_gen (gcatch (arbitrary_fuzz_state A C G))
      (\<lambda>r. case r of Inl _ \<Rightarrow> True | Inr accs \<Rightarrow> distinct (map fa_account_id accs)) ?Q"
    by (rule contract_weaken [OF contract_gcatch [OF contract_fuzz_state]])
      (auto simp: fuzz_state_ok_def split: sum.splits)
  have run: "contract_gen (privacy_loop L C G V E A accs i n st) (\<lambda>_. True) ?Q"
    if "distinct (map fa_account_id accs)" for accs i n st
    by (rule contract_weaken [OF contract_privacy_loop [OF assms that]]) auto
  show ?thesis
    unfolding fuzz_privacy_preserving_state_transition_def
    by (rule contract_gbind [OF accs], rule contract_sum_case, rule contract_gret, simp,
        rule contract_gbind_any [OF contract_gunwrap_or [OF contract_prim]], simp,
        rule contract_gbind_any [OF run], simp, rule contract_gret, simp)
qed

end
