(* ===== verification/State_Diffs.thy ===== *)
theory State_Diffs
  imports State_Transition
begin

text \<open>
  The targets that compare the two ways a transaction reaches the state, validation followed by
  the application of its diff and direct execution: \<open>fuzz_validate_execute_consistency.rs\<close>,
  \<open>fuzz_apply_state_diff_split_path.rs\<close>, \<open>fuzz_state_diff_computation.rs\<close> and
  \<open>fuzz_sequencer_vs_replayer.rs\<close>. The verdict of every comparison is characterised; where the
  chain executes by validating and applying, the split path and the replayed block agree with the
  direct path and the sequenced block.
\<close>

record ('st, 'err, 'diff) public_api =
  affected_public_account_ids :: "public_transaction \<Rightarrow> account_id list"
  from_public_transaction :: "public_transaction \<Rightarrow> 'st \<Rightarrow> u64 \<Rightarrow> u64 \<Rightarrow> 'err + 'diff"
  clock_invocation :: "u64 \<Rightarrow> u64 \<Rightarrow> public_transaction"
  transition_from_public_transaction ::
    "public_transaction \<Rightarrow> 'st \<Rightarrow> u64 \<Rightarrow> u64 \<Rightarrow> ('err + unit) \<times> 'st"

subsection \<open>Validation against execution\<close>

text \<open>\<open>for (id, expected) in public_diff { assert_eq!(expected, exec_state.get(id)) }\<close>\<close>

definition diff_matches ::
  "('st, 'data, 'err, 'diff) lez \<Rightarrow> (account_id, 'data account) hash_map \<Rightarrow> 'st \<Rightarrow> unit outcome" where
  "diff_matches L diff st' = for_each (\<lambda>(aid, expected).
     ensure (expected = get_account_by_id L st' aid) (Violation ''DiffMismatch'')) diff"

text \<open>\<open>for id in ids { if before != after { assert!(public_diff.contains_key(id)) } }\<close>\<close>

definition changes_declared ::
  "('st, 'data, 'err, 'diff) lez \<Rightarrow> (account_id, 'data account) hash_map \<Rightarrow> account_id list \<Rightarrow>
   'st \<Rightarrow> 'st \<Rightarrow> unit outcome" where
  "changes_declared L diff ids st st' = for_each (\<lambda>aid.
     if get_account_by_id L st aid \<noteq> get_account_by_id L st' aid
     then ensure (hm_get diff aid \<noteq> None) (Violation ''UndeclaredChange'')
     else Inr ()) ids"

definition consistency_check ::
  "('st, 'data, 'err, 'diff) lez \<Rightarrow> crypto \<Rightarrow> (account_id \<times> u128) list \<Rightarrow> lee_transaction \<Rightarrow> 'st \<Rightarrow>
   unit outcome" where
  "consistency_check L C init tx st =
     (let nonces_before = snapshot_nonces L st (map fst init) in
      case (validate_on_state L tx st 1 0, execute_check_on_state L tx st 1 0) of
        (Inr d, (Inr applied_tx, exec_state)) \<Rightarrow>
          let diff = public_diff L d;
              known_ids = hs_collect (map fst init @ map fst diff) in
          obind (diff_matches L diff exec_state) (\<lambda>_.
          obind (changes_declared L diff known_ids st exec_state) (\<lambda>_.
          obind (sum_balances L st known_ids) (\<lambda>total_before.
          obind (sum_balances L exec_state known_ids) (\<lambda>total_after.
          obind (ensure (total_before = total_after) (Violation ''BalanceConservation'')) (\<lambda>_.
            assert_nonce_increment_correctness L (signer_account_ids C applied_tx) nonces_before exec_state)))))
      | (Inl _, (Inl _, _)) \<Rightarrow> Inr ()
      | (Inr _, (Inl _, _)) \<Rightarrow> Inl (Violation ''ExecuteRejected'')
      | (Inl _, (Inr _, _)) \<Rightarrow> Inl (Violation ''ValidateRejected''))"

text \<open>Fuzzed accounts, then a fuzzed transaction through the stateless gate, then a check.\<close>

definition checked_arbitrary_tx ::
  "('st, 'data, 'err, 'diff) lez \<Rightarrow> crypto \<Rightarrow> ('st, 'data) genesis_api \<Rightarrow> 'u arbitrary_api \<Rightarrow>
   (fuzz_account list \<Rightarrow> lee_transaction \<Rightarrow> unit outcome) \<Rightarrow> ('u, unit) gen" where
  "checked_arbitrary_tx L C G A check = gbind (gcatch (arbitrary_fuzz_state A C G)) (\<lambda>r.
     case r of
       Inl _ \<Rightarrow> gret ()
     | Inr accs \<Rightarrow> gbind (gcatch (arb_lee_transaction A C)) (\<lambda>r2.
         case r2 of
           Inl _ \<Rightarrow> gret ()
         | Inr raw \<Rightarrow> (case stateless_check L raw of
             Inl _ \<Rightarrow> gret ()
           | Inr tx \<Rightarrow> glift (check accs tx))))"

definition fuzz_validate_execute_consistency ::
  "('st, 'data, 'err, 'diff) lez \<Rightarrow> crypto \<Rightarrow> ('st, 'data) genesis_api \<Rightarrow> 'u arbitrary_api \<Rightarrow>
   ('u, unit) gen" where
  "fuzz_validate_execute_consistency L C G A = checked_arbitrary_tx L C G A (\<lambda>accs tx.
     consistency_check L C (init_accounts accs) tx (genesis_state G (init_accounts accs) []))"

subsection \<open>The split path\<close>

definition accounts_equal ::
  "('st, 'data, 'err, 'diff) lez \<Rightarrow> string \<Rightarrow> string \<Rightarrow> account_id list \<Rightarrow> 'st \<Rightarrow> 'st \<Rightarrow> unit outcome" where
  "accounts_equal L tag nonce_tag ids st1 st2 = for_each (\<lambda>aid.
     let a = get_account_by_id L st1 aid; b = get_account_by_id L st2 aid in
     obind (ensure (data_native_balance L (acc_data a) = data_native_balance L (acc_data b)) (Violation tag)) (\<lambda>_.
     obind (ensure (acc_nonce a = acc_nonce b) (Violation nonce_tag)) (\<lambda>_.
       ensure (acc_data a = acc_data b) (Violation tag)))) ids"

definition split_path_check ::
  "('st, 'data, 'err, 'diff) lez \<Rightarrow> crypto \<Rightarrow> (account_id \<times> u128) list \<Rightarrow> lee_transaction \<Rightarrow> 'st \<Rightarrow>
   unit outcome" where
  "split_path_check L C init tx st =
     (case validate_on_state L tx st 1 0 of
        Inl _ \<Rightarrow> Inr ()
      | Inr diff \<Rightarrow>
          let signer_ids = signer_account_ids C tx;
              nonces_before = hm_collect (map (\<lambda>aid. (aid, account_nonce L st aid)) signer_ids);
              diff_account_ids = map fst (public_diff L diff);
              split_state = apply_state_diff L diff st in
          obind (assert_nonce_increment_correctness L signer_ids nonces_before split_state) (\<lambda>_.
          case execute_check_on_state L tx st 1 0 of
            (Inl _, _) \<Rightarrow> Inr ()
          | (Inr _, exec_state) \<Rightarrow>
              accounts_equal L ''SplitPathEquivalence'' ''NonceIncrementCorrectness''
                (hs_collect (map fst init @ diff_account_ids)) split_state exec_state))"

definition fuzz_apply_state_diff_split_path ::
  "('st, 'data, 'err, 'diff) lez \<Rightarrow> crypto \<Rightarrow> ('st, 'data) genesis_api \<Rightarrow> 'u arbitrary_api \<Rightarrow>
   ('u, unit) gen" where
  "fuzz_apply_state_diff_split_path L C G A = checked_arbitrary_tx L C G A (\<lambda>accs tx.
     split_path_check L C (init_accounts accs) tx (genesis_state G (init_accounts accs) []))"

subsection \<open>Containment of the diff\<close>

definition diff_containment_check ::
  "('st, 'data, 'err, 'diff) lez \<Rightarrow> ('st, 'err, 'diff) public_api \<Rightarrow> public_transaction \<Rightarrow> 'st \<Rightarrow>
   unit outcome" where
  "diff_containment_check L P pub_tx st =
     (let affected = affected_public_account_ids P pub_tx in
      case from_public_transaction P pub_tx st 1 0 of
        Inl _ \<Rightarrow> Inr ()
      | Inr d \<Rightarrow>
          let diff = public_diff L d in
          obind (for_each (\<lambda>changed_id. ensure (changed_id \<in> set affected) (Violation ''UndeclaredAccount''))
                   (map fst diff)) (\<lambda>_.
          case stateless_check L (Public pub_tx) of
            Inl _ \<Rightarrow> Inr ()
          | Inr checked_tx \<Rightarrow>
              (case execute_check_on_state L checked_tx st 1 0 of
                 (Inl _, _) \<Rightarrow> Inr ()
               | (Inr _, exec_state) \<Rightarrow> changes_declared L diff affected st exec_state)))"

definition fuzz_state_diff_computation ::
  "('st, 'data, 'err, 'diff) lez \<Rightarrow> ('st, 'err, 'diff) public_api \<Rightarrow> crypto \<Rightarrow>
   ('st, 'data) genesis_api \<Rightarrow> 'u arbitrary_api \<Rightarrow> ('u, unit) gen" where
  "fuzz_state_diff_computation L P C G A = gbind (gcatch (arbitrary_fuzz_state A C G)) (\<lambda>r.
     case r of
       Inl _ \<Rightarrow> gret ()
     | Inr accs \<Rightarrow> gbind (gcatch (arb_public_transaction A C)) (\<lambda>r2.
         case r2 of
           Inl _ \<Rightarrow> gret ()
         | Inr pub_tx \<Rightarrow> glift (diff_containment_check L P pub_tx
             (genesis_state G (init_accounts accs) []))))"

subsection \<open>Sequencer and replayer\<close>

record 'st sequencer =
  seq_state :: 'st
  seq_accepted :: "lee_transaction list"
  seq_touched :: "account_id list"

text \<open>One mempool transaction: gate, validate, record, apply; rejected ones are skipped.\<close>

definition sequence_tx ::
  "('st, 'data, 'err, 'diff) lez \<Rightarrow> u64 \<Rightarrow> u64 \<Rightarrow> lee_transaction \<Rightarrow> 'st sequencer \<Rightarrow> 'st sequencer" where
  "sequence_tx L block_id timestamp raw s =
     (case stateless_check L raw of
        Inl _ \<Rightarrow> s
      | Inr tx \<Rightarrow>
          (case validate_on_state L tx (seq_state s) block_id timestamp of
             Inl _ \<Rightarrow> s
           | Inr diff \<Rightarrow> \<lparr>
               seq_state = apply_state_diff L diff (seq_state s),
               seq_accepted = seq_accepted s @ [tx],
               seq_touched = fold (\<lambda>aid ids. snd (hs_insert aid ids)) (map fst (public_diff L diff))
                 (seq_touched s)\<rparr>))"

fun sequencer_loop ::
  "('st, 'data, 'err, 'diff) lez \<Rightarrow> crypto \<Rightarrow> 'u arbitrary_api \<Rightarrow> fuzz_account list \<Rightarrow> u64 \<Rightarrow> u64 \<Rightarrow>
   nat \<Rightarrow> 'st sequencer \<Rightarrow> ('u, 'st sequencer) gen" where
  "sequencer_loop L C A accs block_id timestamp 0 s = gret s"
| "sequencer_loop L C A accs block_id timestamp (Suc n) s = gbind (gcatch (mixed_transaction A C accs)) (\<lambda>r.
     case r of
       Inl _ \<Rightarrow> gret s
     | Inr raw \<Rightarrow> sequencer_loop L C A accs block_id timestamp n (sequence_tx L block_id timestamp raw s))"

fun replay_block ::
  "('st, 'data, 'err, 'diff) lez \<Rightarrow> u64 \<Rightarrow> u64 \<Rightarrow> lee_transaction list \<Rightarrow> 'st \<Rightarrow> 'st outcome" where
  "replay_block L block_id timestamp [] st = Inr st"
| "replay_block L block_id timestamp (tx # txs) st =
     (case stateless_check L tx of
        Inl _ \<Rightarrow> Inl (Violation ''ReplayerAcceptsAllSequencerTxs'')
      | Inr checked_tx \<Rightarrow>
          (case execute_check_on_state L checked_tx st block_id timestamp of
             (Inl _, _) \<Rightarrow> Inl (Violation ''ReplayerAcceptsAllSequencerTxs'')
           | (Inr _, st') \<Rightarrow> replay_block L block_id timestamp txs st'))"

text \<open>
  The end of the target, after the sequencer's loop: the clock on the sequencer (an error returns
  early), the replay, the clock on the replayer, the comparison of the touched accounts.
\<close>

definition replay_and_compare ::
  "('st, 'data, 'err, 'diff) lez \<Rightarrow> ('st, 'err, 'diff) public_api \<Rightarrow> ('st, 'data) genesis_api \<Rightarrow>
   bool \<Rightarrow> u64 \<Rightarrow> u64 \<Rightarrow> 'st \<Rightarrow> 'st sequencer \<Rightarrow> unit outcome" where
  "replay_and_compare L P G run_clock block_id timestamp base_state s =
     (let clock_tx = clock_invocation P block_id timestamp;
          seq_clock = (if run_clock
            then transition_from_public_transaction P clock_tx (seq_state s) block_id timestamp
            else (Inr (), seq_state s))
      in case seq_clock of
        (Inl _, _) \<Rightarrow> Inr ()
      | (Inr _, sequenced) \<Rightarrow>
          obind (replay_block L block_id timestamp (seq_accepted s) base_state) (\<lambda>rep_state.
            if run_clock then
              (case transition_from_public_transaction P clock_tx rep_state block_id timestamp of
                 (Inl _, _) \<Rightarrow> Inl (Violation ''ClockConsistency'')
               | (Inr _, replayed) \<Rightarrow>
                   accounts_equal L ''SequencerReplayerEquivalence'' ''SequencerReplayerEquivalence''
                     (fold (\<lambda>aid ids. snd (hs_insert aid ids)) (sys_clock_account_ids G) (seq_touched s))
                     sequenced replayed)
            else accounts_equal L ''SequencerReplayerEquivalence'' ''SequencerReplayerEquivalence''
                   (seq_touched s) sequenced rep_state))"

definition fuzz_sequencer_vs_replayer ::
  "('st, 'data, 'err, 'diff) lez \<Rightarrow> ('st, 'err, 'diff) public_api \<Rightarrow> crypto \<Rightarrow>
   ('st, 'data) genesis_api \<Rightarrow> 'u arbitrary_api \<Rightarrow> ('u, unit) gen" where
  "fuzz_sequencer_vs_replayer L P C G A =
     gbind (gunwrap_or 0 (prim (draw_u8 A))) (\<lambda>selector.
     gbind (gcatch (arbitrary_fuzz_state A C G)) (\<lambda>r.
       case r of
         Inl _ \<Rightarrow> gret ()
       | Inr accs \<Rightarrow>
           gbind (gunwrap_or 1000 (prim (draw_u64 A))) (\<lambda>timestamp.
           gbind (gunwrap_or 0 (prim (draw_u8 A))) (\<lambda>b.
             let base_state = genesis_state G (init_accounts accs) [] in
             gbind (sequencer_loop L C A accs 1 timestamp (unat b mod 8)
                \<lparr>seq_state = base_state, seq_accepted = [],
                 seq_touched = hs_collect (map fst (init_accounts accs))\<rparr>) (\<lambda>s.
               glift (replay_and_compare L P G (unat selector mod 8 = 1) 1 timestamp base_state s))))))"

subsection \<open>Verdicts of the comparisons\<close>

lemma diff_matches_iff:
  "diff_matches L diff st' = Inr () \<longleftrightarrow> (\<forall>(aid, a)\<in>set diff. get_account_by_id L st' aid = a)"
  by (auto simp: diff_matches_def for_each_Inr_iff ensure_Inr_iff)

lemma hm_get_None_iff: "hm_get m k = None \<longleftrightarrow> k \<notin> fst ` set m"
  by (simp add: hm_get_def map_of_eq_None_iff)

lemma changes_declared_iff:
  "changes_declared L diff ids st st' = Inr () \<longleftrightarrow>
     (\<forall>aid\<in>set ids. aid \<notin> fst ` set diff \<longrightarrow> get_account_by_id L st' aid = get_account_by_id L st aid)"
  by (auto simp: changes_declared_def for_each_Inr_iff ensure_Inr_iff hm_get_None_iff)

text \<open>Nonce and data decide; the separate comparison of balances adds nothing to that of the data.\<close>

lemma accounts_equal_iff:
  "accounts_equal L tag tag2 ids st1 st2 = Inr () \<longleftrightarrow>
     (\<forall>aid\<in>set ids. get_account_by_id L st1 aid = get_account_by_id L st2 aid)"
  by (auto simp: accounts_equal_def for_each_Inr_iff obind_Inr_iff ensure_Inr_iff Let_def
      intro: account.equality)

definition diff_exact ::
  "('st, 'data, 'err, 'diff) lez \<Rightarrow> account_id list \<Rightarrow> (account_id, 'data account) hash_map \<Rightarrow> 'st \<Rightarrow> 'st \<Rightarrow> bool"
  where
  "diff_exact L ids diff st st' \<longleftrightarrow>
     (\<forall>(aid, a)\<in>set diff. get_account_by_id L st' aid = a) \<and>
     (\<forall>aid\<in>set ids. aid \<notin> fst ` set diff \<longrightarrow> get_account_by_id L st' aid = get_account_by_id L st aid)"

definition supply_kept ::
  "('st, 'data, 'err, 'diff) lez \<Rightarrow> account_id set \<Rightarrow> 'st \<Rightarrow> 'st \<Rightarrow> bool" where
  "supply_kept L ids st st' \<longleftrightarrow>
     (\<forall>aid\<in>ids. is_ok (native_balance L st aid) \<and> is_ok (native_balance L st' aid)) \<and>
     (\<Sum>aid\<in>ids. unat (balance_of L st aid)) < 2 ^ 128 \<and>
     (\<Sum>aid\<in>ids. unat (balance_of L st' aid)) = (\<Sum>aid\<in>ids. unat (balance_of L st aid))"

lemma supply_set: "distinct ids \<Longrightarrow> total_supply L st ids = (\<Sum>aid\<in>set ids. unat (balance_of L st aid))"
  by (simp add: total_supply_def sum_list_distinct_conv_sum_set)

lemma supply_check_iff:
  assumes "distinct ids"
  shows "obind (sum_balances L st ids) (\<lambda>b. obind (sum_balances L st' ids) (\<lambda>a.
      obind (ensure (b = a) p) (\<lambda>_. k))) = Inr () \<longleftrightarrow> supply_kept L (set ids) st st' \<and> k = Inr ()"
proof -
  have fit: "unat t < 2 ^ 128" for t :: u128 using unsigned_less [of t, where ?'a = nat] by simp
  show ?thesis
  proof
    assume "obind (sum_balances L st ids) (\<lambda>b. obind (sum_balances L st' ids) (\<lambda>a.
      obind (ensure (b = a) p) (\<lambda>_. k))) = Inr ()"
    then obtain t where "sum_balances L st ids = Inr t" "sum_balances L st' ids = Inr t" "k = Inr ()"
      by (auto simp: obind_Inr_iff ensure_Inr_iff)
    then show "supply_kept L (set ids) st st' \<and> k = Inr ()"
      using fit [of t] by (simp add: supply_kept_def sum_balances_Inr readable_def supply_set [OF assms])
  next
    assume r: "supply_kept L (set ids) st st' \<and> k = Inr ()"
    then have "readable L st ids" "readable L st' ids" "total_supply L st ids < 2 ^ 128"
      "total_supply L st' ids = total_supply L st ids"
      by (auto simp: supply_kept_def readable_def supply_set [OF assms])
    with r show "obind (sum_balances L st ids) (\<lambda>b. obind (sum_balances L st' ids) (\<lambda>a.
      obind (ensure (b = a) p) (\<lambda>_. k))) = Inr ()"
      by (simp add: sum_balances_readable)
  qed
qed

lemma signers_incremented_snapshot:
  assumes "distinct (map fst init)"
  shows "signers_incremented L ids (snapshot_nonces L st (map fst init)) st' \<longleftrightarrow>
    (\<forall>aid\<in>set ids \<inter> fst ` set init. unat (account_nonce L st' aid) = unat (account_nonce L st aid) + 1)"
  unfolding signers_incremented_def snapshot_nonces_eq [OF assms] hm_get_graph by auto

lemma consistency_iff:
  assumes "distinct (map fst init)"
  shows "consistency_check L C init tx st = Inr () \<longleftrightarrow>
    (case (validate_on_state L tx st 1 0, execute_check_on_state L tx st 1 0) of
       (Inr d, (Inr applied, st')) \<Rightarrow>
         diff_exact L (map fst init) (public_diff L d) st st' \<and>
         supply_kept L (fst ` set init \<union> fst ` set (public_diff L d)) st st' \<and>
         (\<forall>aid\<in>set (signer_account_ids C applied) \<inter> fst ` set init.
            unat (account_nonce L st' aid) = unat (account_nonce L st aid) + 1)
     | (Inl _, (Inl _, _)) \<Rightarrow> True
     | _ \<Rightarrow> False)"
proof -
  obtain r st' where ex: "execute_check_on_state L tx st 1 0 = (r, st')" by fastforce
  show ?thesis
  proof (cases "validate_on_state L tx st 1 0")
    case (Inl e)
    then show ?thesis by (cases r) (simp_all add: consistency_check_def ex Let_def)
  next
    case (Inr d)
    let ?ids = "hs_collect (map fst init @ map fst (public_diff L d))"
    have sup: "obind (sum_balances L st ?ids) (\<lambda>b. obind (sum_balances L st' ?ids) (\<lambda>a.
      obind (ensure (b = a) p) (\<lambda>_. k))) = Inr () \<longleftrightarrow>
        supply_kept L (fst ` set init \<union> fst ` set (public_diff L d)) st st' \<and> k = Inr ()" for p k
      by (subst supply_check_iff) simp_all
    show ?thesis
    proof (cases r)
      case (Inl e)
      with Inr ex show ?thesis by (simp add: consistency_check_def Let_def)
    next
      case (Inr applied)
      with \<open>validate_on_state L tx st 1 0 = Inr d\<close> ex show ?thesis
        by (simp add: consistency_check_def Let_def obind_Inr_iff [of "diff_matches _ _ _"]
            obind_Inr_iff [of "changes_declared _ _ _ _ _"] sup nonce_increment_iff
            signers_incremented_snapshot [OF assms] diff_matches_iff changes_declared_iff diff_exact_def)
          (auto simp: diff_matches_iff changes_declared_iff)
    qed
  qed
qed

lemma split_path_iff:
  "split_path_check L C init tx st = Inr () \<longleftrightarrow>
    (case validate_on_state L tx st 1 0 of
       Inl _ \<Rightarrow> True
     | Inr d \<Rightarrow>
         (\<forall>aid\<in>set (signer_account_ids C tx). unat (account_nonce L (apply_state_diff L d st) aid) =
            unat (account_nonce L st aid) + 1) \<and>
         (\<forall>applied st'. execute_check_on_state L tx st 1 0 = (Inr applied, st') \<longrightarrow>
            (\<forall>aid\<in>fst ` set init \<union> fst ` set (public_diff L d).
               get_account_by_id L (apply_state_diff L d st) aid = get_account_by_id L st' aid)))"
proof -
  have snap: "signers_incremented L ids (hm_collect (map (\<lambda>aid. (aid, account_nonce L st aid)) ids)) st' \<longleftrightarrow>
      (\<forall>aid\<in>set ids. unat (account_nonce L st' aid) = unat (account_nonce L st aid) + 1)" for ids st'
    by (auto simp: signers_incremented_def hm_get_wf [OF hm_collect_wf, symmetric] set_hm_collect_fun)
  show ?thesis
    by (auto simp: split_path_check_def Let_def obind_Inr_iff nonce_increment_iff snap accounts_equal_iff
        split: sum.splits prod.splits)
qed

lemma diff_containment_iff:
  "diff_containment_check L P pub_tx st = Inr () \<longleftrightarrow>
    (case from_public_transaction P pub_tx st 1 0 of
       Inl _ \<Rightarrow> True
     | Inr d \<Rightarrow>
         fst ` set (public_diff L d) \<subseteq> set (affected_public_account_ids P pub_tx) \<and>
         (\<forall>checked applied st'. stateless_check L (Public pub_tx) = Inr checked \<longrightarrow>
            execute_check_on_state L checked st 1 0 = (Inr applied, st') \<longrightarrow>
            (\<forall>aid\<in>set (affected_public_account_ids P pub_tx).
               aid \<notin> fst ` set (public_diff L d) \<longrightarrow>
               get_account_by_id L st' aid = get_account_by_id L st aid)))"
  by (auto simp: diff_containment_check_def Let_def obind_Inr_iff for_each_Inr_iff ensure_Inr_iff
      changes_declared_iff split: sum.splits prod.splits)

subsection \<open>The replayed block\<close>

text \<open>
  The two promises behind the sequencer target: executing a transaction is validating it and
  applying the diff, and a transaction that passed the stateless check passes it again unchanged.
\<close>

definition executes_by_diff :: "('st, 'data, 'err, 'diff) lez \<Rightarrow> bool" where
  "executes_by_diff L \<longleftrightarrow> (\<forall>tx st b t. case validate_on_state L tx st b t of
       Inl _ \<Rightarrow> \<not> is_ok (fst (execute_check_on_state L tx st b t))
     | Inr d \<Rightarrow> execute_check_on_state L tx st b t = (Inr tx, apply_state_diff L d st))"

definition stateless_stable :: "('st, 'data, 'err, 'diff) lez \<Rightarrow> bool" where
  "stateless_stable L \<longleftrightarrow> (\<forall>raw tx. stateless_check L raw = Inr tx \<longrightarrow> stateless_check L tx = Inr tx)"

lemma executes_by_diffD:
  assumes "executes_by_diff L" and "validate_on_state L tx st b t = Inr d"
  shows "execute_check_on_state L tx st b t = (Inr tx, apply_state_diff L d st)"
  using assms(1) [unfolded executes_by_diff_def, rule_format, of tx st b t] assms(2) by simp

lemma replay_block_append:
  "replay_block L b t (xs @ ys) st = obind (replay_block L b t xs st) (replay_block L b t ys)"
  by (induction xs arbitrary: st) (auto split: sum.splits prod.splits)

text \<open>The invariant of the sequencer: replaying what it accepted reproduces its state.\<close>

definition block_replays ::
  "('st, 'data, 'err, 'diff) lez \<Rightarrow> u64 \<Rightarrow> u64 \<Rightarrow> 'st \<Rightarrow> 'st sequencer \<Rightarrow> bool" where
  "block_replays L b t base s \<longleftrightarrow> replay_block L b t (seq_accepted s) base = Inr (seq_state s)"

lemma sequence_tx_replays:
  assumes "executes_by_diff L" and "stateless_stable L" and "block_replays L b t base s"
  shows "block_replays L b t base (sequence_tx L b t raw s)"
proof (cases "stateless_check L raw")
  case (Inr tx)
  with assms(2) have again: "stateless_check L tx = Inr tx" by (simp add: stateless_stable_def)
  show ?thesis
  proof (cases "validate_on_state L tx (seq_state s) b t")
    case (Inr d)
    with assms(1) have "execute_check_on_state L tx (seq_state s) b t = (Inr tx, apply_state_diff L d (seq_state s))"
      by (rule executes_by_diffD)
    with again assms(3) Inr \<open>stateless_check L raw = Inr tx\<close> show ?thesis
      by (simp add: block_replays_def sequence_tx_def replay_block_append)
  qed (use Inr assms(3) in \<open>simp add: sequence_tx_def\<close>)
qed (use assms(3) in \<open>simp add: sequence_tx_def\<close>)

lemma sequence_fold_replays:
  "executes_by_diff L \<Longrightarrow> stateless_stable L \<Longrightarrow> block_replays L b t base s \<Longrightarrow>
     block_replays L b t base (fold (sequence_tx L b t) txs s)"
  by (induction txs arbitrary: s) (auto intro: sequence_tx_replays)

text \<open>Whatever a mempool offers, what the sequencer accepted replays to the same state.\<close>

lemma sequenced_block_replays:
  assumes "executes_by_diff L" and "stateless_stable L"
    and "s = fold (sequence_tx L b t) mempool \<lparr>seq_state = base, seq_accepted = [], seq_touched = ids\<rparr>"
  shows "replay_block L b t (seq_accepted s) base = Inr (seq_state s)"
  using sequence_fold_replays [OF assms(1,2)] assms(3) by (simp add: block_replays_def)

lemma replay_and_compare_ok:
  assumes "block_replays L b t base s"
  shows "replay_and_compare L P G run_clock b t base s = Inr ()"
proof -
  have same: "accounts_equal L tag tag2 ids st st = Inr ()" for tag tag2 ids st
    by (simp add: accounts_equal_iff)
  obtain r st' where "transition_from_public_transaction P (clock_invocation P b t) (seq_state s) b t = (r, st')"
    by fastforce
  with assms show ?thesis
    by (cases r) (simp_all add: replay_and_compare_def block_replays_def same Let_def)
qed

lemma contract_sequencer_loop:
  assumes "executes_by_diff L" and "stateless_stable L" and "block_replays L b t base s"
  shows "contract_gen (sequencer_loop L C A accs b t n s) (block_replays L b t base) (bad_seed C)"
  using assms(3)
proof (induction n arbitrary: s)
  case (Suc n)
  have draws: "contract_gen (gcatch (mixed_transaction A C accs)) (\<lambda>_. True) (bad_seed C)"
    by (rule contract_weaken [OF contract_gcatch [OF contract_fuzz_tx]]) auto
  show ?case
    unfolding sequencer_loop.simps
    by (rule contract_gbind_any [OF draws])
      (use Suc.prems in \<open>auto split: sum.split intro: Suc.IH contract_gret
         sequence_tx_replays [OF assms(1,2)]\<close>)
qed (auto intro: contract_gret)

lemma contract_sequencer_vs_replayer:
  fixes A :: "'u arbitrary_api" and L :: "('st, 'data, 'err, 'diff) lez"
  assumes "executes_by_diff L" and "stateless_stable L"
  shows "contract_gen (fuzz_sequencer_vs_replayer L P C G A) (\<lambda>_. True) (bad_seed C)"
proof -
  have draws: "contract_gen (gcatch (arbitrary_fuzz_state A C G)) (\<lambda>_. True) (bad_seed C)"
    by (rule contract_weaken [OF contract_gcatch [OF contract_fuzz_state]]) auto
  have run: "contract_gen (gbind (sequencer_loop L C A accs b t n
      \<lparr>seq_state = base, seq_accepted = [], seq_touched = ids\<rparr>) (\<lambda>s.
        glift (replay_and_compare L P G clock b t base s))) (\<lambda>_. True) (bad_seed C)" for accs b t n base ids clock
    by (rule contract_gbind [OF contract_sequencer_loop [OF assms, where base = base]])
      (auto simp: block_replays_def glift_def replay_and_compare_ok [unfolded block_replays_def] intro: contract_gret)
  show ?thesis
    unfolding fuzz_sequencer_vs_replayer_def Let_def
    by (intro contract_gbind_any contract_gunwrap_or contract_prim draws)
      (auto split: sum.split intro!: contract_gret contract_gbind_any contract_gunwrap_or contract_prim run)
qed

text \<open>The same promise settles the split path: the two states are equal, only the nonces remain to check.\<close>

lemma split_path_by_diff:
  assumes "executes_by_diff L" and "split_path_check L C init tx st = Inl p"
  shows "p = Expect_Failed ''nonce overflow'' \<or> p = Violation ''NonceIncrementCorrectness''"
proof (cases "validate_on_state L tx st 1 0")
  case (Inr d)
  with assms(1) have "execute_check_on_state L tx st 1 0 = (Inr tx, apply_state_diff L d st)"
    by (rule executes_by_diffD)
  moreover have "accounts_equal L tag tag2 ids s s = Inr ()" for tag tag2 ids s
    by (simp add: accounts_equal_iff)
  ultimately show ?thesis
    using assms(2) Inr by (auto simp: split_path_check_def Let_def obind_Inl_iff dest: nonce_increment_panic)
qed (use assms(2) in \<open>simp add: split_path_check_def\<close>)

subsection \<open>The verdicts in terms of agreement between states\<close>

definition same_accounts ::
  "('st, 'data, 'err, 'diff) lez \<Rightarrow> account_id set \<Rightarrow> 'st \<Rightarrow> 'st \<Rightarrow> bool" where
  "same_accounts L ids st1 st2 \<longleftrightarrow> (\<forall>aid\<in>ids. get_account_by_id L st1 aid = get_account_by_id L st2 aid)"

definition nonces_advance ::
  "('st, 'data, 'err, 'diff) lez \<Rightarrow> account_id set \<Rightarrow> 'st \<Rightarrow> 'st \<Rightarrow> bool" where
  "nonces_advance L ids st st' \<longleftrightarrow>
     (\<forall>aid\<in>ids. unat (account_nonce L st' aid) = unat (account_nonce L st aid) + 1)"

lemma split_path_verdict:
  "split_path_check L C init tx st = Inr () \<longleftrightarrow>
    (case validate_on_state L tx st 1 0 of
       Inl _ \<Rightarrow> True
     | Inr d \<Rightarrow> nonces_advance L (set (signer_account_ids C tx)) st (apply_state_diff L d st) \<and>
         (case execute_check_on_state L tx st 1 0 of
            (Inl _, _) \<Rightarrow> True
          | (Inr _, st') \<Rightarrow> same_accounts L (fst ` set init \<union> fst ` set (public_diff L d))
              (apply_state_diff L d st) st'))"
  by (auto simp: split_path_iff same_accounts_def nonces_advance_def split: sum.splits prod.splits)

lemma diff_containment_verdict:
  "diff_containment_check L P pub_tx st = Inr () \<longleftrightarrow>
    (case from_public_transaction P pub_tx st 1 0 of
       Inl _ \<Rightarrow> True
     | Inr d \<Rightarrow>
         fst ` set (public_diff L d) \<subseteq> set (affected_public_account_ids P pub_tx) \<and>
         (case stateless_check L (Public pub_tx) of
            Inl _ \<Rightarrow> True
          | Inr checked \<Rightarrow> (case execute_check_on_state L checked st 1 0 of
              (Inl _, _) \<Rightarrow> True
            | (Inr _, st') \<Rightarrow> same_accounts L
                (set (affected_public_account_ids P pub_tx) - fst ` set (public_diff L d)) st st')))"
  by (auto simp: diff_containment_iff same_accounts_def split: sum.splits prod.splits)

end
