(* ===== verification/Authentication.thy ===== *)
theory Authentication
  imports State_Diffs
begin

text \<open>
  The targets on signatures, witness sets and transaction accessors:
  \<open>fuzz_signature_verification.rs\<close>, \<open>fuzz_witness_set_verification.rs\<close> and
  \<open>fuzz_transaction_properties.rs\<close>. For each, a sound implementation of the interface raises no
  alarm. That the signature and the witness target report every other one is in \<open>Target_Coverage\<close>.
\<close>

subsection \<open>Signatures\<close>

record signature_api =
  signature_new :: "private_key \<Rightarrow> bytes \<Rightarrow> signature_t"
  signature_is_valid_for :: "signature_t \<Rightarrow> bytes \<Rightarrow> public_key \<Rightarrow> bool"

text \<open>\<open>if let (Ok(a), Ok(b)) = (g(u), h(u))\<close>: both draws happen.\<close>

definition gboth :: "('u, 'a) gen \<Rightarrow> ('u, 'b) gen \<Rightarrow> ('u, ('a \<times> 'b) option) gen" where
  "gboth g h = gbind (gcatch g) (\<lambda>r. gbind (gcatch h) (\<lambda>s.
     gret (case (r, s) of (Inr a, Inr b) \<Rightarrow> Some (a, b) | _ \<Rightarrow> None)))"

definition draw_msg :: "'u arbitrary_api \<Rightarrow> ('u, bytes) gen" where
  "draw_msg A = gunwrap_or (replicate 32 0) (prim (draw_bytes32 A))"

definition sign_verify_check :: "signature_api \<Rightarrow> crypto \<Rightarrow> private_key \<Rightarrow> bytes \<Rightarrow> unit outcome" where
  "sign_verify_check S C private_key msg =
     (let public_key = public_key_new_from_private_key C private_key;
          sig = signature_new S private_key msg
      in ensure (signature_is_valid_for S sig msg public_key) (Violation ''SignVerify''))"

definition cross_key_check ::
  "signature_api \<Rightarrow> crypto \<Rightarrow> private_key \<Rightarrow> private_key \<Rightarrow> bytes \<Rightarrow> unit outcome" where
  "cross_key_check S C key_a key_b msg =
     (let public_a = public_key_new_from_private_key C key_a;
          public_b = public_key_new_from_private_key C key_b;
          sig_from_a = signature_new S key_a msg
      in if public_a \<noteq> public_b
         then ensure (\<not> signature_is_valid_for S sig_from_a msg public_b) (Violation ''CrossKey'')
         else Inr ())"

definition fuzz_signature_verification ::
  "signature_api \<Rightarrow> 'u arbitrary_api \<Rightarrow> crypto \<Rightarrow> ('u, unit) gen" where
  "fuzz_signature_verification S A C =
     gbind (gcatch (arb_private_key A C)) (\<lambda>r1.
     gbind (case r1 of
         Inl _ \<Rightarrow> gret ()
       | Inr key \<Rightarrow> gbind (draw_msg A) (\<lambda>msg. glift (sign_verify_check S C key msg))) (\<lambda>_.
     gbind (gboth (arb_signature A) (arb_public_key A C)) (\<lambda>r2.
     gbind (case r2 of
         None \<Rightarrow> gret ()
       | Some (sig, pk) \<Rightarrow> gbind (draw_msg A) (\<lambda>msg.
           let _ = signature_is_valid_for S sig msg pk in gret ())) (\<lambda>_.
     gbind (gboth (arb_private_key A C) (arb_private_key A C)) (\<lambda>r3.
       case r3 of
         None \<Rightarrow> gret ()
       | Some (key_a, key_b) \<Rightarrow> gbind (draw_msg A) (\<lambda>msg. glift (cross_key_check S C key_a key_b msg)))))))"

subsection \<open>Witness sets\<close>

record witness_api =
  witness_for_message :: "pub_message \<Rightarrow> private_key list \<Rightarrow> witness_set"
  witness_is_valid_for :: "witness_set \<Rightarrow> pub_message \<Rightarrow> bool"
  pub_message_to_vec :: "pub_message \<Rightarrow> bytes option"

text \<open>\<open>for _ in 0..n { match g(u) { Ok(k) => keys.push(k), Err(_) => break } }\<close>\<close>

fun take_until_error :: "nat \<Rightarrow> ('u, 'a) gen \<Rightarrow> ('u, 'a list) gen" where
  "take_until_error 0 g = gret []"
| "take_until_error (Suc n) g = gbind (gcatch g) (\<lambda>r. case r of
       Inl _ \<Rightarrow> gret []
     | Inr x \<Rightarrow> gbind (take_until_error n g) (\<lambda>xs. gret (x # xs)))"

definition correct_verification :: "witness_api \<Rightarrow> pub_message \<Rightarrow> private_key list \<Rightarrow> unit outcome" where
  "correct_verification W msg keys =
     ensure (witness_is_valid_for W (witness_for_message W msg keys) msg) (Violation ''CorrectVerification'')"

definition messages_are_distinct :: "witness_api \<Rightarrow> pub_message \<Rightarrow> pub_message \<Rightarrow> bool" where
  "messages_are_distinct W msg_a msg_b = (case (pub_message_to_vec W msg_a, pub_message_to_vec W msg_b) of
       (Some a, Some b) \<Rightarrow> a \<noteq> b
     | _ \<Rightarrow> False)"

definition message_isolation :: "witness_api \<Rightarrow> pub_message \<Rightarrow> pub_message \<Rightarrow> private_key \<Rightarrow> unit outcome" where
  "message_isolation W msg_a msg_b key =
     ensure (\<not> witness_is_valid_for W (witness_for_message W msg_a [key]) msg_b) (Violation ''MessageIsolation'')"

definition fuzz_witness_set_verification ::
  "witness_api \<Rightarrow> 'u arbitrary_api \<Rightarrow> crypto \<Rightarrow> ('u, unit) gen" where
  "fuzz_witness_set_verification W A C =
     gbind (gboth (arb_witness_set A C) (arb_pub_tx_message A)) (\<lambda>r1.
     let _ = (case r1 of None \<Rightarrow> False | Some (ws, msg) \<Rightarrow> witness_is_valid_for W ws msg) in
     gbind (gcatch (arb_pub_tx_message A)) (\<lambda>r2.
     gbind (case r2 of
         Inl _ \<Rightarrow> gret ()
       | Inr msg \<Rightarrow>
           gbind (gunwrap_or 0 (prim (draw_u8 A))) (\<lambda>b.
           gbind (take_until_error (unat b mod 4) (arb_private_key A C)) (\<lambda>keys.
             glift (correct_verification W msg keys)))) (\<lambda>_.
     gbind (gboth (arb_pub_tx_message A) (arb_pub_tx_message A)) (\<lambda>r3.
       case r3 of
         None \<Rightarrow> gret ()
       | Some (msg_a, msg_b) \<Rightarrow>
           if messages_are_distinct W msg_a msg_b then
             gbind (gcatch (arb_private_key A C)) (\<lambda>r4. case r4 of
               Inl _ \<Rightarrow> gret ()
             | Inr key \<Rightarrow> glift (message_isolation W msg_a msg_b key))
           else gret ()))))"

subsection \<open>Transaction accessors\<close>

record accessor_api =
  message_try_new :: "account_id \<Rightarrow> program_shard_selector list \<Rightarrow> u128 list \<Rightarrow> u128 \<Rightarrow> pub_message option"
  native_balance_selector :: "account_id \<Rightarrow> program_shard_selector"
  acc_native_token_program_id :: account_id
  into_raw_parts :: "witness_set \<Rightarrow> (signature_t \<times> public_key) list"
  lee_hash :: "lee_transaction \<Rightarrow> bytes"
  lee_affected_public_account_ids :: "lee_transaction \<Rightarrow> account_id list"

definition fixed_key :: "crypto \<Rightarrow> u8 \<Rightarrow> private_key outcome" where
  "fixed_key C b = expect (Expect_Failed ''known-good key'') (private_key_try_new C (replicate 32 b))"

definition signed_by_two_checks ::
  "accessor_api \<Rightarrow> ('st, 'err, 'diff) public_api \<Rightarrow> witness_api \<Rightarrow> crypto \<Rightarrow> unit outcome" where
  "signed_by_two_checks T P W C =
     obind (fixed_key C 1) (\<lambda>key1. obind (fixed_key C 2) (\<lambda>key2.
     let addr1 = account_id_for_key C key1; addr2 = account_id_for_key C key2 in
     obind (expect (Expect_Failed ''known-good message'')
              (message_try_new T (acc_native_token_program_id T)
                 [native_balance_selector T addr1, native_balance_selector T addr2] [0, 0] 1337)) (\<lambda>message.
     let ws = witness_for_message W message [key1, key2];
         pub_tx = \<lparr>pt_message = message, pt_witness_set = ws\<rparr> in
     obind (ensure (length (ws_signatures_and_public_keys (pt_witness_set pub_tx)) = 2)
              (Violation ''SignerIdsNonEmpty'')) (\<lambda>_.
     let ws2 = witness_for_message W (pt_message pub_tx) [key1, key2] in
     obind (ensure (length (into_raw_parts T ws2) = 2) (Violation ''IntoRawPartsCount'')) (\<lambda>_.
     let affected = affected_public_account_ids P pub_tx in
     obind (ensure (affected \<noteq> []) (Violation ''AffectedAccountsContainSigners'')) (\<lambda>_.
     obind (ensure (addr1 \<in> set affected) (Violation ''AffectedAccountsContainSigners'')) (\<lambda>_.
     obind (ensure (addr2 \<in> set affected) (Violation ''AffectedAccountsContainSigners'')) (\<lambda>_.
     let lee_tx = Public pub_tx; hash = lee_hash T lee_tx in
     obind (ensure (hash \<noteq> replicate 32 0) (Violation ''HashNonDefault'')) (\<lambda>_.
     obind (ensure (hash = lee_hash T lee_tx) (Violation ''HashDeterministic'')) (\<lambda>_.
       ensure (addr1 \<in> set (lee_affected_public_account_ids T lee_tx))
         (Violation ''AffectedAccountsContainSigners'')))))))))))"

definition signer_only_check ::
  "accessor_api \<Rightarrow> ('st, 'err, 'diff) public_api \<Rightarrow> witness_api \<Rightarrow> crypto \<Rightarrow> unit outcome" where
  "signer_only_check T P W C =
     obind (fixed_key C 9) (\<lambda>signer_key.
     let signer_addr = account_id_for_key C signer_key;
         other1 = AccountId (replicate 32 0xA1); other2 = AccountId (replicate 32 0xA2) in
     if signer_addr \<noteq> other1 \<and> signer_addr \<noteq> other2 then
       (case message_try_new T (acc_native_token_program_id T)
               [native_balance_selector T other1, native_balance_selector T other2] [0] 7 of
          None \<Rightarrow> Inr ()
        | Some msg \<Rightarrow>
            let pt = \<lparr>pt_message = msg, pt_witness_set = witness_for_message W msg [signer_key]\<rparr>
            in ensure (signer_addr \<in> set (affected_public_account_ids P pt))
                 (Violation ''SignerOnlyAccountInAffected''))
     else Inr ())"

definition fuzzed_transfer_check ::
  "('st, 'data, 'err, 'diff) lez \<Rightarrow> ('st, 'err, 'diff) public_api \<Rightarrow> crypto \<Rightarrow> 'st \<Rightarrow> lee_transaction \<Rightarrow>
   unit outcome" where
  "fuzzed_transfer_check L P C st checked = (case checked of
       PrivacyPreserving _ \<Rightarrow> Inr ()
     | Public pub_tx \<Rightarrow>
         let signers = map (\<lambda>(_, pk). account_id_from C pk)
               (ws_signatures_and_public_keys (pt_witness_set pub_tx));
             affected = affected_public_account_ids P pub_tx in
         obind (for_each (\<lambda>signer. ensure (signer \<in> set affected)
                  (Violation ''AffectedAccountsContainSigners'')) signers) (\<lambda>_.
         case from_public_transaction P pub_tx st 1 0 of
           Inl _ \<Rightarrow> Inr ()
         | Inr diff \<Rightarrow> for_each (\<lambda>signer. ensure (hm_get (public_diff L diff) signer \<noteq> None)
             (Violation ''PublicDiffNonEmptyOnSuccess'')) signers))"

definition single_signer_check ::
  "accessor_api \<Rightarrow> witness_api \<Rightarrow> crypto \<Rightarrow> private_key \<Rightarrow> unit outcome" where
  "single_signer_check T W C key =
     (let addr = account_id_for_key C key in
      case message_try_new T (acc_native_token_program_id T) [native_balance_selector T addr] [0] 42 of
        None \<Rightarrow> Inr ()
      | Some msg \<Rightarrow>
          let ws = witness_for_message W msg [key];
              pairs = ws_signatures_and_public_keys ws in
          obind (ensure (length pairs = 1) (Violation ''SignerIdsNonEmpty'')) (\<lambda>_.
          obind (index pairs 0) (\<lambda>(_, pk).
          obind (ensure (account_id_from C pk = addr) (Violation ''SignerIdsDerivedFromKeys'')) (\<lambda>_.
            ensure (length (into_raw_parts T (witness_for_message W msg [key])) = 1)
              (Violation ''IntoRawPartsCount'')))))"

text \<open>An error in the second part returns from the target, so the last part runs only after it.\<close>

definition fuzz_transaction_properties ::
  "('st, 'data, 'err, 'diff) lez \<Rightarrow> accessor_api \<Rightarrow> ('st, 'err, 'diff) public_api \<Rightarrow> witness_api \<Rightarrow>
   crypto \<Rightarrow> ('st, 'data) genesis_api \<Rightarrow> 'u arbitrary_api \<Rightarrow> ('u, unit) gen" where
  "fuzz_transaction_properties L T P W C G A =
     gbind (glift (signed_by_two_checks T P W C)) (\<lambda>_.
     gbind (glift (signer_only_check T P W C)) (\<lambda>_.
     gbind (gcatch (arbitrary_fuzz_state A C G)) (\<lambda>r1.
       case r1 of
         Inl _ \<Rightarrow> gret ()
       | Inr accs \<Rightarrow>
           let st = genesis_state G (init_accounts accs) [] in
           gbind (gcatch (arb_fuzz_native_transfer A C accs)) (\<lambda>r2.
             case r2 of
               Inl _ \<Rightarrow> gret ()
             | Inr tx \<Rightarrow>
                 (case stateless_check L tx of
                    Inl _ \<Rightarrow> gret ()
                  | Inr (PrivacyPreserving _) \<Rightarrow> gret ()
                  | Inr (Public pub_tx) \<Rightarrow>
                      gbind (glift (fuzzed_transfer_check L P C st (Public pub_tx))) (\<lambda>_.
                      gbind (gcatch (arb_private_key A C)) (\<lambda>r3.
                        case r3 of
                          Inl _ \<Rightarrow> gret ()
                        | Inr key \<Rightarrow> glift (single_signer_check T W C key))))))))"

subsection \<open>Sound implementations raise no alarm\<close>

definition sound_signatures :: "signature_api \<Rightarrow> crypto \<Rightarrow> bool" where
  "sound_signatures S C \<longleftrightarrow> (\<forall>k msg pk. valid_private_key C k \<longrightarrow> valid_public_key C pk \<longrightarrow>
     (signature_is_valid_for S (signature_new S k msg) msg pk \<longleftrightarrow> pk = public_key_new_from_private_key C k))"

text \<open>A witness set is valid for the messages with the encoding of the one it was built for.\<close>

definition sound_witnesses :: "witness_api \<Rightarrow> crypto \<Rightarrow> bool" where
  "sound_witnesses W C \<longleftrightarrow> (\<forall>m1 m2 keys. (\<forall>k\<in>set keys. valid_private_key C k) \<longrightarrow> keys \<noteq> [] \<longrightarrow>
       (witness_is_valid_for W (witness_for_message W m1 keys) m2 \<longleftrightarrow>
        pub_message_to_vec W m1 = pub_message_to_vec W m2)) \<and>
     (\<forall>m1 m2. witness_is_valid_for W (witness_for_message W m1 []) m2)"

definition sound_accessors ::
  "('st, 'data, 'err, 'diff) lez \<Rightarrow> accessor_api \<Rightarrow> ('st, 'err, 'diff) public_api \<Rightarrow> witness_api \<Rightarrow>
   crypto \<Rightarrow> bool" where
  "sound_accessors L T P W C \<longleftrightarrow>
     (\<forall>m keys. map snd (ws_signatures_and_public_keys (witness_for_message W m keys)) =
        map (public_key_new_from_private_key C) keys) \<and>
     (\<forall>ws. into_raw_parts T ws = ws_signatures_and_public_keys ws) \<and>
     (\<forall>pt. set (signer_account_ids C (Public pt)) \<subseteq> set (affected_public_account_ids P pt)) \<and>
     (\<forall>pt. lee_affected_public_account_ids T (Public pt) = affected_public_account_ids P pt) \<and>
     (\<forall>tx. lee_hash T tx \<noteq> replicate 32 0) \<and>
     (\<forall>p ss ns a. message_try_new T p ss ns a \<noteq> None) \<and>
     (\<forall>pt st b t d. from_public_transaction P pt st b t = Inr d \<longrightarrow>
        set (signer_account_ids C (Public pt)) \<subseteq> fst ` set (public_diff L d))"

definition bad_fixed_key :: "crypto \<Rightarrow> panic \<Rightarrow> bool" where
  "bad_fixed_key C p \<longleftrightarrow> p = Expect_Failed ''known-good key'' \<and>
     (\<exists>b\<in>{1, 2, 9}. private_key_try_new C (replicate 32 b) = None)"

lemma contract_gboth:
  assumes "contract_gen g P1 Q" and "contract_gen h P2 Q"
  shows "contract_gen (gboth g h) (\<lambda>r. case r of None \<Rightarrow> True | Some (a, b) \<Rightarrow> P1 a \<and> P2 b) Q"
  unfolding gboth_def
  by (rule contract_gbind [OF contract_gcatch [OF assms(1)]], rule contract_gbind [OF contract_gcatch [OF assms(2)]])
    (auto intro!: contract_gret split: sum.splits)

lemma contract_take_until_error:
  assumes "contract_gen g P Q"
  shows "contract_gen (take_until_error n g) (\<lambda>xs. (\<forall>x\<in>set xs. P x) \<and> length xs \<le> n) Q"
proof (induction n)
  case (Suc n)
  show ?case
    unfolding take_until_error.simps
    by (rule contract_gbind [OF contract_gcatch [OF assms]])
      (auto split: sum.splits intro!: contract_gret contract_gbind [OF Suc])
qed (auto intro: contract_gret)

lemma glift_ok: "r = Inr () \<Longrightarrow> contract_gen (glift r) (\<lambda>_. True) Q"
  by (simp add: glift_def contract_gret)

lemma signer_pairs:
  assumes "sound_accessors L T P W C"
  shows "length (ws_signatures_and_public_keys (witness_for_message W m keys)) = length keys"
    and "set (map (account_id_for_key C) keys) \<subseteq>
      set (affected_public_account_ids P \<lparr>pt_message = m', pt_witness_set = witness_for_message W m keys\<rparr>)"
proof -
  let ?ws = "ws_signatures_and_public_keys (witness_for_message W m keys)"
  have pairs: "map snd ?ws = map (public_key_new_from_private_key C) keys"
    using assms unfolding sound_accessors_def by blast
  then show "length ?ws = length keys" by (metis length_map)
  have "map (\<lambda>(_, pk). account_id_from C pk) ?ws = map (account_id_from C) (map snd ?ws)"
    by (simp add: case_prod_unfold comp_def)
  also have "\<dots> = map (account_id_for_key C) keys"
    unfolding pairs by (simp add: account_id_for_key_def comp_def)
  finally have "signer_account_ids C (Public \<lparr>pt_message = m', pt_witness_set = witness_for_message W m keys\<rparr>) =
      map (account_id_for_key C) keys" by simp
  then show "set (map (account_id_for_key C) keys) \<subseteq>
      set (affected_public_account_ids P \<lparr>pt_message = m', pt_witness_set = witness_for_message W m keys\<rparr>)"
    using assms unfolding sound_accessors_def by metis
qed

lemma fixed_key_cases:
  "b \<in> {1, 2, 9} \<Longrightarrow> fixed_key C b = Inl p \<Longrightarrow> bad_fixed_key C p"
  by (auto simp: fixed_key_def expect_Inl_iff bad_fixed_key_def)

lemma signed_by_two_ok:
  assumes snd: "sound_accessors L T P W C" and "signed_by_two_checks T P W C = Inl p"
  shows "bad_fixed_key C p"
proof -
  note pairs = signer_pairs [OF snd]
  have laws: "into_raw_parts T ws = ws_signatures_and_public_keys ws"
    "lee_affected_public_account_ids T (Public pt) = affected_public_account_ids P pt"
    "lee_hash T tx \<noteq> replicate 32 0" "message_try_new T q ss ns a \<noteq> None" for ws pt tx q ss ns a
    using snd unfolding sound_accessors_def by blast+
  have "expect e (message_try_new T q ss ns a) \<noteq> Inl p" for e q ss ns a
    using laws(4) by (simp add: expect_Inl_iff)
  moreover have "affected_public_account_ids P \<lparr>pt_message = m', pt_witness_set = witness_for_message W m (k # ks)\<rparr> \<noteq> []"
    for m' m k ks
    using pairs(2) [of "k # ks" m' m] by auto
  ultimately show ?thesis
    using assms(2) pairs(2) [of "[_, _]"] fixed_key_cases [of 1 C p] fixed_key_cases [of 2 C p]
    by (auto simp: signed_by_two_checks_def Let_def obind_Inl_iff ensure_Inl_iff laws pairs(1))
qed

lemma signer_only_ok:
  assumes snd: "sound_accessors L T P W C" and "signer_only_check T P W C = Inl p"
  shows "bad_fixed_key C p"
  using assms(2) signer_pairs(2) [OF snd, of "[_]"] fixed_key_cases [of 9 C p]
  by (auto simp: signer_only_check_def Let_def obind_Inl_iff ensure_Inl_iff split: if_splits option.splits)

lemma fuzzed_transfer_ok:
  assumes "sound_accessors L T P W C"
  shows "fuzzed_transfer_check L P C st tx = Inr ()"
proof (cases tx)
  case (Public pt)
  have "set (signer_account_ids C (Public pt)) \<subseteq> set (affected_public_account_ids P pt)"
    and "\<And>d. from_public_transaction P pt st 1 0 = Inr d \<Longrightarrow>
      set (signer_account_ids C (Public pt)) \<subseteq> fst ` set (public_diff L d)"
    using assms unfolding sound_accessors_def by blast+
  then show ?thesis
    unfolding fuzzed_transfer_check_def Public lee_transaction.case Let_def signer_account_ids.simps(1) [symmetric]
    by (auto simp: obind_Inr_iff for_each_Inr_iff ensure_Inr_iff hm_get_None_iff subset_eq
        simp del: signer_account_ids.simps split: sum.splits)
qed (simp add: fuzzed_transfer_check_def)

lemma single_signer_ok:
  assumes snd: "sound_accessors L T P W C"
  shows "single_signer_check T W C key = Inr ()"
proof -
  have pairs: "map snd (ws_signatures_and_public_keys (witness_for_message W m [key])) =
      [public_key_new_from_private_key C key]" and raw: "into_raw_parts T ws = ws_signatures_and_public_keys ws" for m ws
    using snd unfolding sound_accessors_def by auto
  show ?thesis
  proof (cases "message_try_new T (acc_native_token_program_id T)
      [native_balance_selector T (account_id_for_key C key)] [0] 42")
    case (Some m)
    obtain s where "ws_signatures_and_public_keys (witness_for_message W m [key]) =
        [(s, public_key_new_from_private_key C key)]"
      using pairs [of m] by (auto simp: map_eq_Cons_conv)
    then show ?thesis
      by (simp add: single_signer_check_def Let_def Some raw index_def) (simp add: account_id_for_key_def)
  qed (simp add: single_signer_check_def)
qed

lemma contract_transaction_properties:
  assumes snd: "sound_accessors L T P W C"
  shows "contract_gen (fuzz_transaction_properties L T P W C G A) (\<lambda>_. True)
    (\<lambda>p. bad_fixed_key C p \<or> bad_seed C p)"
proof -
  let ?Q = "\<lambda>p. bad_fixed_key C p \<or> bad_seed C p"
  have accs: "contract_gen (gcatch (arbitrary_fuzz_state A C G)) (\<lambda>_. True) ?Q"
    by (rule contract_weaken [OF contract_gcatch [OF contract_fuzz_state]]) auto
  have tx: "contract_gen (gcatch (arb_fuzz_native_transfer A C accs)) (\<lambda>_. True) ?Q" for accs
    by (rule contract_weaken [OF contract_gcatch [OF contract_fuzz_native_transfer]]) auto
  have key: "contract_gen (gcatch (arb_private_key A C)) (\<lambda>_. True) ?Q"
    by (rule contract_weaken [OF contract_gcatch [OF contract_private_key]]) auto
  show ?thesis
    unfolding fuzz_transaction_properties_def Let_def
    apply (rule contract_gbind_any [OF contract_glift])
      apply (rule TrueI, use signed_by_two_ok [OF snd] in blast)
    apply (rule contract_gbind_any [OF contract_glift])
      apply (rule TrueI, use signer_only_ok [OF snd] in blast)
    apply (rule contract_gbind_any [OF accs])
    apply (auto split: sum.split lee_transaction.split intro!: contract_gret contract_gbind_any [OF tx]
        contract_gbind_any [OF key] contract_gbind_any [OF glift_ok] glift_ok fuzzed_transfer_ok [OF snd]
        single_signer_ok [OF snd])
    done
qed

end
