(* ===== verification/Codecs.thy ===== *)
theory Codecs
  imports State_Transition
begin

text \<open>
  The targets on encodings: \<open>fuzz_transaction_decoding.rs\<close>, \<open>fuzz_encoding_roundtrip.rs\<close>,
  \<open>fuzz_state_serialization.rs\<close>, \<open>fuzz_nullifier_set_roundtrip.rs\<close> and
  \<open>fuzz_stateless_verification.rs\<close>. A codec is a pair of an encoder and a decoder, both of which may
  fail; the codecs themselves (Borsh instances of the crates) are parameters. Each check is
  characterised by the equation between encoder and decoder it establishes.
\<close>

record ('a, 'e) codec =
  to_vec :: "'a \<Rightarrow> 'e + bytes"
  from_slice :: "bytes \<Rightarrow> 'e + 'a"

definition result_expect :: "panic \<Rightarrow> 'e + 'a \<Rightarrow> 'a outcome" where
  "result_expect p r = (case r of Inl _ \<Rightarrow> Inl p | Inr a \<Rightarrow> Inr a)"

lemma result_expect_Inr_iff [outcome_simps]: "result_expect p r = Inr a \<longleftrightarrow> r = Inr a"
  by (auto simp: result_expect_def split: sum.splits)

subsection \<open>Round trips\<close>

text \<open>Encode a value, decode the bytes, encode again, compare: the body shared by three targets.\<close>

definition reencode ::
  "('a, 'e) codec \<Rightarrow> panic \<Rightarrow> panic \<Rightarrow> panic \<Rightarrow> panic \<Rightarrow> 'a \<Rightarrow> unit outcome" where
  "reencode K no_encode no_decode no_encode2 differs x =
     obind (result_expect no_encode (to_vec K x)) (\<lambda>encoded.
     obind (result_expect no_decode (from_slice K encoded)) (\<lambda>x2.
     obind (result_expect no_encode2 (to_vec K x2)) (\<lambda>encoded2.
       ensure (encoded = encoded2) differs)))"

definition fuzz_transaction_decoding ::
  "(lee_transaction, 'e) codec \<Rightarrow> (bytes \<Rightarrow> 'e + 'block) \<Rightarrow> (bytes \<Rightarrow> 'e + hashable_block_data) \<Rightarrow>
   bytes \<Rightarrow> unit outcome" where
  "fuzz_transaction_decoding K block_from_slice hashable_from_slice data =
     obind (case from_slice K data of
         Inl _ \<Rightarrow> Inr ()
       | Inr tx \<Rightarrow> reencode K (Expect_Failed ''re-encode of valid tx must succeed'')
           (Expect_Failed ''second decode of re-encoded tx must succeed'') (Expect_Failed ''unwrap'')
           (Violation ''LeeTransaction roundtrip encoding divergence'') tx) (\<lambda>_.
     let _ = block_from_slice data; _ = hashable_from_slice data in Inr ())"

text \<open>\<open>PublicTransaction::to_bytes\<close> cannot fail; \<open>from_bytes\<close> can.\<close>

definition public_roundtrip ::
  "(public_transaction \<Rightarrow> bytes) \<Rightarrow> (bytes \<Rightarrow> 'e + public_transaction) \<Rightarrow> public_transaction \<Rightarrow> unit outcome"
  where
  "public_roundtrip to_bytes from_bytes tx =
     (let encoded = to_bytes tx in
      obind (result_expect (Violation ''Undecodable'') (from_bytes encoded)) (\<lambda>decoded.
        ensure (encoded = to_bytes decoded) (Violation ''RoundtripDivergence'')))"

definition canonical_check ::
  "('a \<Rightarrow> bytes) \<Rightarrow> (bytes \<Rightarrow> 'e + 'a) \<Rightarrow> bytes \<Rightarrow> unit outcome" where
  "canonical_check to_bytes from_bytes data = (case from_bytes data of
       Inl _ \<Rightarrow> Inr ()
     | Inr tx \<Rightarrow> ensure (data = to_bytes tx) (Violation ''NonCanonical''))"

definition fuzz_encoding_roundtrip ::
  "'u arbitrary_api \<Rightarrow> crypto \<Rightarrow> (public_transaction \<Rightarrow> bytes) \<Rightarrow> (bytes \<Rightarrow> 'e + public_transaction) \<Rightarrow>
   bytes \<Rightarrow> ('u, unit) gen" where
  "fuzz_encoding_roundtrip A C to_bytes from_bytes data =
     gbind (gcatch (arb_public_transaction A C)) (\<lambda>r.
     gbind (glift (case r of Inl _ \<Rightarrow> Inr () | Inr tx \<Rightarrow> public_roundtrip to_bytes from_bytes tx)) (\<lambda>_.
       glift (canonical_check to_bytes from_bytes data)))"

definition fuzz_state_serialization :: "('st, 'e) codec \<Rightarrow> bytes \<Rightarrow> unit outcome" where
  "fuzz_state_serialization K data = (case from_slice K data of
       Inl _ \<Rightarrow> Inr ()
     | Inr st \<Rightarrow> reencode K (Violation ''StateSerializationRoundtrip'') (Violation ''StateSerializationRoundtrip'')
         (Violation ''StateSerializationRoundtrip'') (Violation ''StateSerializationRoundtrip'') st)"

text \<open>Two fixed nullifiers through genesis; the raw decode at the end must only not panic.\<close>

definition nullifier_set_state ::
  "('st, 'data) genesis_api \<Rightarrow> (account_id \<Rightarrow> 'data account \<Rightarrow> commitment) \<Rightarrow> (bytes \<Rightarrow> nullifier) \<Rightarrow> 'st" where
  "nullifier_set_state G new_commitment from_byte_array =
     (let null1 = from_byte_array (replicate 32 0xAA);
          null2 = from_byte_array (replicate 32 0xBB);
          comm1 = new_commitment (AccountId (replicate 32 0x11)) (account_default G);
          comm2 = new_commitment (AccountId (replicate 32 0x22)) (account_default G)
      in genesis_state G [(AccountId (replicate 32 0x33), 0)] [(comm1, null1), (comm2, null2)])"

definition fuzz_nullifier_set_roundtrip ::
  "('st, 'e) codec \<Rightarrow> ('st, 'data) genesis_api \<Rightarrow> (account_id \<Rightarrow> 'data account \<Rightarrow> commitment) \<Rightarrow>
   (bytes \<Rightarrow> nullifier) \<Rightarrow> bytes \<Rightarrow> unit outcome" where
  "fuzz_nullifier_set_roundtrip K G new_commitment from_byte_array data =
     (let st = nullifier_set_state G new_commitment from_byte_array in
      obind (result_expect (Expect_Failed ''BorshSerialize for V03State must not fail'') (to_vec K st)) (\<lambda>bytes.
      obind (ensure (bytes \<noteq> []) (Violation ''EmptyEncoding'')) (\<lambda>_.
      obind (result_expect (Violation ''NullifierSetRoundtrip'') (from_slice K bytes)) (\<lambda>st2.
      obind (result_expect (Expect_Failed ''second BorshSerialize must not fail'') (to_vec K st2)) (\<lambda>bytes2.
      obind (ensure (bytes = bytes2) (Violation ''NullifierSetRoundtrip'')) (\<lambda>_.
        let _ = from_slice K data in Inr ()))))))"

subsection \<open>The stateless check\<close>

definition idempotency_check ::
  "('st, 'data, 'err, 'diff) lez \<Rightarrow> lee_transaction \<Rightarrow> unit outcome" where
  "idempotency_check L tx = (case stateless_check L tx of
       Inl _ \<Rightarrow> Inr ()
     | Inr checked_tx \<Rightarrow> ensure (is_ok (stateless_check L checked_tx)) (Violation ''StatelessIdempotency''))"

definition fuzz_stateless_verification ::
  "('st, 'data, 'err, 'diff) lez \<Rightarrow> (lee_transaction, 'e) codec \<Rightarrow> 'u arbitrary_api \<Rightarrow> crypto \<Rightarrow>
   bytes \<Rightarrow> ('u, unit) gen" where
  "fuzz_stateless_verification L K A C data =
     gbind (gcatch (arbitrary_transaction A C)) (\<lambda>r.
     gbind (glift (case r of Inl _ \<Rightarrow> Inr () | Inr tx \<Rightarrow> idempotency_check L tx)) (\<lambda>_.
       case from_slice K data of
         Inl _ \<Rightarrow> gret ()
       | Inr tx \<Rightarrow> (let _ = stateless_check L tx in gret ())))"

subsection \<open>Verdicts\<close>

definition stable_encoding :: "('a, 'e) codec \<Rightarrow> 'a \<Rightarrow> bool" where
  "stable_encoding K x \<longleftrightarrow> (\<exists>bs x2. to_vec K x = Inr bs \<and> from_slice K bs = Inr x2 \<and> to_vec K x2 = Inr bs)"

lemma reencode_iff: "reencode K p q r d x = Inr () \<longleftrightarrow> stable_encoding K x"
  by (auto simp: reencode_def stable_encoding_def outcome_simps)

lemma transaction_decoding_iff:
  "fuzz_transaction_decoding K bk hb data = Inr () \<longleftrightarrow>
     (\<forall>tx. from_slice K data = Inr tx \<longrightarrow> stable_encoding K tx)"
  by (auto simp: fuzz_transaction_decoding_def obind_Inr_iff reencode_iff split: sum.splits)

lemma state_serialization_iff:
  "fuzz_state_serialization K data = Inr () \<longleftrightarrow>
     (\<forall>st. from_slice K data = Inr st \<longrightarrow> stable_encoding K st)"
  by (auto simp: fuzz_state_serialization_def reencode_iff split: sum.splits)

lemma canonical_iff:
  "canonical_check to_bytes from_bytes data = Inr () \<longleftrightarrow>
     (\<forall>x. from_bytes data = Inr x \<longrightarrow> to_bytes x = data)"
  by (auto simp: canonical_check_def ensure_Inr_iff split: sum.splits)

lemma public_roundtrip_iff:
  "public_roundtrip to_bytes from_bytes tx = Inr () \<longleftrightarrow>
     (\<exists>tx2. from_bytes (to_bytes tx) = Inr tx2 \<and> to_bytes tx2 = to_bytes tx)"
  by (auto simp: public_roundtrip_def Let_def outcome_simps)

lemma nullifier_set_roundtrip_iff:
  "fuzz_nullifier_set_roundtrip K G nc nb data = Inr () \<longleftrightarrow>
     stable_encoding K (nullifier_set_state G nc nb) \<and> to_vec K (nullifier_set_state G nc nb) \<noteq> Inr []"
  by (auto simp: fuzz_nullifier_set_roundtrip_def Let_def outcome_simps stable_encoding_def)

lemma idempotency_iff:
  "idempotency_check L tx = Inr () \<longleftrightarrow>
     (\<forall>c. stateless_check L tx = Inr c \<longrightarrow> is_ok (stateless_check L c))"
  by (auto simp: idempotency_check_def ensure_Inr_iff split: sum.splits)

text \<open>A faithful codec: what it encodes decodes to the value, and what it decodes it can encode.\<close>

definition faithful_codec :: "('a, 'e) codec \<Rightarrow> bool" where
  "faithful_codec K \<longleftrightarrow> (\<forall>x bs. to_vec K x = Inr bs \<longrightarrow> from_slice K bs = Inr x) \<and>
     (\<forall>bs x. from_slice K bs = Inr x \<longrightarrow> is_ok (to_vec K x))"

lemma faithful_stable:
  "faithful_codec K \<Longrightarrow> from_slice K data = Inr x \<Longrightarrow> stable_encoding K x"
  unfolding faithful_codec_def stable_encoding_def is_ok_iff by blast

text \<open>
  Decoding an input and encoding the result is its normal form. A codec has normal forms if every
  input it decodes has one that is its own normal form: one more round changes nothing.
\<close>

definition normalise :: "('a, 'e) codec \<Rightarrow> bytes \<Rightarrow> bytes option" where
  "normalise K bs = (case from_slice K bs of
     Inl _ \<Rightarrow> None
   | Inr x \<Rightarrow> (case to_vec K x of Inl _ \<Rightarrow> None | Inr enc \<Rightarrow> Some enc))"

lemma normalise_Some_iff: "normalise K bs = Some enc \<longleftrightarrow> (\<exists>x. from_slice K bs = Inr x \<and> to_vec K x = Inr enc)"
  by (auto simp: normalise_def split: sum.splits)

definition has_normal_forms :: "('a, 'e) codec \<Rightarrow> bool" where
  "has_normal_forms K \<longleftrightarrow> (\<forall>bs. is_ok (from_slice K bs) \<longrightarrow>
     (\<exists>enc. normalise K bs = Some enc \<and> normalise K enc = Some enc))"

lemma stable_encoding_normal: "stable_encoding K x \<longleftrightarrow> (\<exists>enc. to_vec K x = Inr enc \<and> normalise K enc = Some enc)"
  by (auto simp: stable_encoding_def normalise_Some_iff)

lemma normalise_decoded: "from_slice K bs = Inr x \<Longrightarrow> normalise K bs = Some enc \<longleftrightarrow> to_vec K x = Inr enc"
  by (simp add: normalise_Some_iff)

lemma has_normal_forms_iff: "has_normal_forms K \<longleftrightarrow> (\<forall>bs x. from_slice K bs = Inr x \<longrightarrow> stable_encoding K x)"
proof -
  have "(\<exists>enc. normalise K bs = Some enc \<and> normalise K enc = Some enc) \<longleftrightarrow> stable_encoding K x"
    if "from_slice K bs = Inr x" for bs x
    by (simp add: stable_encoding_normal normalise_decoded [OF that])
  then show ?thesis by (simp add: has_normal_forms_def is_ok_iff) blast
qed

lemma faithful_normal_forms: "faithful_codec K \<Longrightarrow> has_normal_forms K"
  by (simp add: has_normal_forms_iff faithful_stable)

end
