(* ===== verification/Privacy_Encoding.thy ===== *)
theory Privacy_Encoding
  imports Privacy Authentication Codecs
begin

text \<open>
  The targets on the encoding and the witness sets of privacy-preserving transactions:
  \<open>fuzz_encoding_privacy_preserving.rs\<close>, whose checks run on fixed messages and on the raw input,
  and \<open>fuzz_privacy_preserving_witness.rs\<close>.
\<close>

record 'e pp_encoding_api =
  ppe_message_to_bytes :: "pp_message \<Rightarrow> bytes"
  ppe_message_from_bytes :: "bytes \<Rightarrow> 'e + pp_message"
  ppe_tx_to_bytes :: "pp_transaction \<Rightarrow> bytes"
  ppe_tx_from_bytes :: "bytes \<Rightarrow> 'e + pp_transaction"
  from_circuit_output :: "u128 list \<Rightarrow> pp_circuit_output \<Rightarrow> pp_message"
  ppe_public_account_ids :: "pp_message \<Rightarrow> account_id list"
  signatures_are_valid_for :: "pp_witness_set \<Rightarrow> pp_message \<Rightarrow> bool"
  pp_message_to_vec :: "pp_message \<Rightarrow> 'e + bytes"
  pp_affected_public_account_ids :: "pp_transaction \<Rightarrow> account_id list"

subsection \<open>Messages of the targets\<close>

text \<open>No private actions, no effects, unbounded windows.\<close>

definition plain_message :: "('st, 'data) privacy_api \<Rightarrow> account_id list \<Rightarrow> u128 list \<Rightarrow> pp_message" where
  "plain_message V account_ids nonces = \<lparr>
     ppm_public_actions = map (\<lambda>aid. \<lparr>pai_account_id = aid, pai_effects = []\<rparr>) account_ids,
     ppm_nonces = nonces, ppm_private_actions = [],
     ppm_block_validity_window = validity_window_unbounded V,
     ppm_timestamp_validity_window = validity_window_unbounded V,
     ppm_program_image_claims = []\<rparr>"

definition known_good :: "crypto \<Rightarrow> private_key outcome" where
  "known_good C = expect (Expect_Failed ''known-good'') (private_key_try_new C (replicate 32 1))"

definition minimal_message :: "crypto \<Rightarrow> ('st, 'data) privacy_api \<Rightarrow> pp_message outcome" where
  "minimal_message C V = obind (known_good C) (\<lambda>key.
     Inr (plain_message V [account_id_for_key C key] [0]))"

subsection \<open>The encoding target\<close>

definition message_roundtrip :: "'e pp_encoding_api \<Rightarrow> panic \<Rightarrow> pp_message \<Rightarrow> unit outcome" where
  "message_roundtrip K undecodable msg =
     (let encoded = ppe_message_to_bytes K msg in
      obind (ensure (encoded \<noteq> []) (Violation ''MessageEncodingRoundtrip'')) (\<lambda>_.
      obind (result_expect undecodable (ppe_message_from_bytes K encoded)) (\<lambda>decoded.
        ensure (encoded = ppe_message_to_bytes K decoded) (Violation ''MessageEncodingRoundtrip''))))"

definition tx_encoding_checks ::
  "'e pp_encoding_api \<Rightarrow> crypto \<Rightarrow> ('st, 'data) privacy_api \<Rightarrow> unit outcome" where
  "tx_encoding_checks K C V =
     obind (known_good C) (\<lambda>key.
     obind (minimal_message C V) (\<lambda>msg.
     let proof = Proof [0xDE, 0xAD, 0xBE, 0xEF];
         tx = \<lparr>ppt_message = msg, ppt_witness_set = pp_witness_for_message V msg proof [key]\<rparr>;
         bytes1 = ppe_tx_to_bytes K tx in
     obind (ensure (bytes1 \<noteq> []) (Violation ''TxEncodingNonEmpty'')) (\<lambda>_.
     obind (ensure (bytes1 = ppe_tx_to_bytes K tx) (Violation ''TxEncodingDeterministic'')) (\<lambda>_.
     obind (result_expect (Violation ''TxRoundtrip'') (ppe_tx_from_bytes K bytes1)) (\<lambda>decoded.
       ensure (bytes1 = ppe_tx_to_bytes K decoded) (Violation ''TxEncodingDeterministic''))))))"

definition circuit_output_mapping ::
  "'e pp_encoding_api \<Rightarrow> crypto \<Rightarrow> ('st, 'data) privacy_api \<Rightarrow> unit outcome" where
  "circuit_output_mapping K C V =
     obind (known_good C) (\<lambda>key.
     let addr = account_id_for_key C key;
         nonces = [7];
         effects = [\<lparr>eff_program_account_id = native_token_program_id V,
           eff_shard_program_account_id = native_token_program_id V, eff_data = [42]\<rparr>];
         output = \<lparr>pco_public_actions = [\<lparr>pa_account_id = addr, pa_is_authorized = True, pa_effects = effects\<rparr>],
           pco_private_actions = [], pco_block_validity_window = validity_window_unbounded V,
           pco_timestamp_validity_window = validity_window_unbounded V, pco_program_image_claims = []\<rparr>;
         msg = from_circuit_output K nonces output in
     obind (ensure (ppe_public_account_ids K msg = [addr]) (Violation ''CircuitOutputMapping'')) (\<lambda>_.
     obind (ensure (ppm_nonces msg = nonces) (Violation ''CircuitOutputMapping'')) (\<lambda>_.
     obind (ensure (ppm_public_actions msg = [\<lparr>pai_account_id = addr, pai_effects = effects\<rparr>])
              (Violation ''CircuitOutputMapping'')) (\<lambda>_.
       ensure (ppm_private_actions msg = []) (Violation ''CircuitOutputMapping'')))))"

text \<open>The accounts of the keys \<open>[i + 1; 32]\<close> that are valid, each with its index as nonce.\<close>

definition varied_message :: "crypto \<Rightarrow> ('st, 'data) privacy_api \<Rightarrow> nat \<Rightarrow> pp_message" where
  "varied_message C V n_accounts =
     (let entries = List.map_filter (\<lambda>i. map_option (\<lambda>key. (account_id_for_key C key, of_nat i))
            (private_key_try_new C (replicate 32 (of_nat i + 1)))) [0..<n_accounts]
      in plain_message V (map fst entries) (map snd entries))"

definition fuzz_encoding_privacy_preserving ::
  "'e pp_encoding_api \<Rightarrow> crypto \<Rightarrow> ('st, 'data) privacy_api \<Rightarrow> bytes \<Rightarrow> unit outcome" where
  "fuzz_encoding_privacy_preserving K C V data =
     obind (minimal_message C V) (\<lambda>msg.
     obind (message_roundtrip K (Violation ''MessageEncodingRoundtrip'') msg) (\<lambda>_.
     obind (tx_encoding_checks K C V) (\<lambda>_.
     obind (circuit_output_mapping K C V) (\<lambda>_.
     obind (canonical_check (ppe_message_to_bytes K) (ppe_message_from_bytes K) data) (\<lambda>_.
       for_each (\<lambda>n. message_roundtrip K (Expect_Failed ''round-trip must succeed for well-formed message'')
                       (varied_message C V n)) [0, 1, 2, 3])))))"

subsection \<open>The witness target\<close>

definition fake_proof :: zk_proof where
  "fake_proof = Proof (replicate 32 0xAB)"

definition encodings_differ :: "'e pp_encoding_api \<Rightarrow> pp_message \<Rightarrow> pp_message \<Rightarrow> bool" where
  "encodings_differ K msg msg_b = (case (pp_message_to_vec K msg, pp_message_to_vec K msg_b) of
       (Inr a, Inr b) \<Rightarrow> a \<noteq> b
     | _ \<Rightarrow> False)"

definition isolated_signer_check ::
  "'e pp_encoding_api \<Rightarrow> ('st, 'data) privacy_api \<Rightarrow> private_key \<Rightarrow> account_id \<Rightarrow> unit outcome" where
  "isolated_signer_check K V key1 addr1 =
     (let b1 = AccountId (replicate 32 0xB1); b2 = AccountId (replicate 32 0xB2);
          isolated_msg = plain_message V [b1, b2] [0, 1]
      in if addr1 \<noteq> b1 \<and> addr1 \<noteq> b2
         then ensure (addr1 \<in> set (pp_affected_public_account_ids K \<lparr>ppt_message = isolated_msg,
                ppt_witness_set = pp_witness_for_message V isolated_msg fake_proof [key1]\<rparr>))
                (Violation ''SignerOnlyAccountInAffected'')
         else Inr ())"

definition fixed_witness_checks ::
  "'e pp_encoding_api \<Rightarrow> crypto \<Rightarrow> ('st, 'data) privacy_api \<Rightarrow> unit outcome" where
  "fixed_witness_checks K C V =
     obind (fixed_key C 1) (\<lambda>key1. obind (fixed_key C 2) (\<lambda>key2.
     let addr1 = account_id_for_key C key1; addr2 = account_id_for_key C key2;
         msg = plain_message V [addr1, addr2] [0, 1];
         ws = pp_witness_for_message V msg fake_proof [key1, key2];
         signers_from_ws = map (\<lambda>(_, pk). account_id_from C pk) (ppw_signatures_and_public_keys ws);
         msg_b = plain_message V [addr1, addr2] [999, 1000];
         ws_single = pp_witness_for_message V msg fake_proof [key1];
         tx_single = \<lparr>ppt_message = msg, ppt_witness_set = ws_single\<rparr> in
     obind (ensure (length (ppw_signatures_and_public_keys ws) = 2)
              (Violation ''SignaturesAndPublicKeysNonEmpty'')) (\<lambda>_.
     obind (ensure (signatures_are_valid_for K ws msg) (Violation ''CorrectVerification'')) (\<lambda>_.
     obind (ensure (length signers_from_ws = 2) (Violation ''SignerIdsMatchWitnessKeys'')) (\<lambda>_.
     obind (ensure (addr1 \<in> set signers_from_ws) (Violation ''SignerIdsMatchWitnessKeys'')) (\<lambda>_.
     obind (ensure (addr2 \<in> set signers_from_ws) (Violation ''SignerIdsMatchWitnessKeys'')) (\<lambda>_.
     obind (isolated_signer_check K V key1 addr1) (\<lambda>_.
     obind (if encodings_differ K msg msg_b
            then ensure (\<not> signatures_are_valid_for K ws msg_b) (Violation ''MessageIsolation'')
            else Inr ()) (\<lambda>_.
     obind (ensure (length (ppw_signatures_and_public_keys ws_single) = 1)
              (Violation ''SignaturesAndPublicKeysNonEmpty'')) (\<lambda>_.
       ensure (addr1 \<in> set (pp_affected_public_account_ids K tx_single))
         (Violation ''SignerIdsMatchWitnessKeys'')))))))))))"

definition fuzzed_witness_checks ::
  "'e pp_encoding_api \<Rightarrow> crypto \<Rightarrow> ('st, 'data) privacy_api \<Rightarrow> private_key list \<Rightarrow> unit outcome" where
  "fuzzed_witness_checks K C V keys =
     (if keys = [] then Inr ()
      else
        let addrs = map (account_id_for_key C) keys;
            msg = plain_message V addrs (map of_nat [0..<length keys]);
            ws = pp_witness_for_message V msg fake_proof keys;
            tx = \<lparr>ppt_message = msg, ppt_witness_set = ws\<rparr>;
            signer_ids_from_ws = map (\<lambda>(_, pk). account_id_from C pk) (ppw_signatures_and_public_keys ws) in
        obind (ensure (length (ppw_signatures_and_public_keys ws) = length keys)
                 (Violation ''SignaturesAndPublicKeysNonEmpty'')) (\<lambda>_.
        obind (ensure (signatures_are_valid_for K ws msg) (Violation ''CorrectVerification'')) (\<lambda>_.
        obind (ensure (length signer_ids_from_ws = length addrs) (Violation ''SignerIdsMatchWitnessKeys'')) (\<lambda>_.
          for_each (\<lambda>addr. ensure (addr \<in> set (pp_affected_public_account_ids K tx))
            (Violation ''SignerIdsMatchWitnessKeys'')) addrs))))"

definition fuzz_privacy_preserving_witness ::
  "'e pp_encoding_api \<Rightarrow> crypto \<Rightarrow> ('st, 'data) privacy_api \<Rightarrow> 'u arbitrary_api \<Rightarrow> ('u, unit) gen" where
  "fuzz_privacy_preserving_witness K C V A =
     gbind (glift (fixed_witness_checks K C V)) (\<lambda>_.
     gbind (gunwrap_or 0 (prim (draw_u8 A))) (\<lambda>b.
     gbind (take_until_error (unat b mod 4) (arb_private_key A C)) (\<lambda>keys.
       glift (fuzzed_witness_checks K C V keys))))"

subsection \<open>Sound implementations raise no alarm\<close>

definition sound_pp_encoding :: "'e pp_encoding_api \<Rightarrow> bool" where
  "sound_pp_encoding K \<longleftrightarrow>
     (\<forall>m. ppe_message_to_bytes K m \<noteq> [] \<and> ppe_message_from_bytes K (ppe_message_to_bytes K m) = Inr m) \<and>
     (\<forall>bs m. ppe_message_from_bytes K bs = Inr m \<longrightarrow> ppe_message_to_bytes K m = bs) \<and>
     (\<forall>t. ppe_tx_to_bytes K t \<noteq> [] \<and> ppe_tx_from_bytes K (ppe_tx_to_bytes K t) = Inr t) \<and>
     (\<forall>m. ppe_public_account_ids K m = map pai_account_id (ppm_public_actions m)) \<and>
     (\<forall>ns out. from_circuit_output K ns out = \<lparr>
        ppm_public_actions = map (\<lambda>a. \<lparr>pai_account_id = pa_account_id a, pai_effects = pa_effects a\<rparr>)
          (pco_public_actions out),
        ppm_nonces = ns, ppm_private_actions = pco_private_actions out,
        ppm_block_validity_window = pco_block_validity_window out,
        ppm_timestamp_validity_window = pco_timestamp_validity_window out,
        ppm_program_image_claims = pco_program_image_claims out\<rparr>)"

definition sound_pp_witnesses :: "'e pp_encoding_api \<Rightarrow> crypto \<Rightarrow> ('st, 'data) privacy_api \<Rightarrow> bool" where
  "sound_pp_witnesses K C V \<longleftrightarrow>
     (\<forall>m pf keys. map snd (ppw_signatures_and_public_keys (pp_witness_for_message V m pf keys)) =
        map (public_key_new_from_private_key C) keys) \<and>
     (\<forall>m1 m2 pf keys. (\<forall>k\<in>set keys. valid_private_key C k) \<longrightarrow> keys \<noteq> [] \<longrightarrow>
        (signatures_are_valid_for K (pp_witness_for_message V m1 pf keys) m2 \<longleftrightarrow>
         pp_message_to_vec K m1 = pp_message_to_vec K m2)) \<and>
     (\<forall>t. set (signer_account_ids C (PrivacyPreserving t)) \<subseteq> set (pp_affected_public_account_ids K t))"

lemma message_roundtrip_iff:
  "message_roundtrip K p msg = Inr () \<longleftrightarrow> ppe_message_to_bytes K msg \<noteq> [] \<and>
     (\<exists>m2. ppe_message_from_bytes K (ppe_message_to_bytes K msg) = Inr m2 \<and>
        ppe_message_to_bytes K m2 = ppe_message_to_bytes K msg)"
  by (auto simp: message_roundtrip_def Let_def outcome_simps)

lemma known_good_panic:
  "known_good C = Inl p \<Longrightarrow> p = Expect_Failed ''known-good'' \<and> private_key_try_new C (replicate 32 1) = None"
  by (simp add: known_good_def expect_Inl_iff)

lemma encoding_target_ok:
  assumes K: "sound_pp_encoding K" and run: "fuzz_encoding_privacy_preserving K C V data = Inl p"
  shows "p = Expect_Failed ''known-good'' \<and> private_key_try_new C (replicate 32 1) = None"
proof -
  have msgs: "message_roundtrip K q m = Inr ()" for q m
    using K by (simp add: message_roundtrip_iff sound_pp_encoding_def)
  have canon: "canonical_check (ppe_message_to_bytes K) (ppe_message_from_bytes K) data = Inr ()"
    using K unfolding canonical_iff sound_pp_encoding_def by blast
  have txs: "tx_encoding_checks K C V = Inl q \<Longrightarrow> known_good C = Inl q" for q
    using K
    by (auto simp: tx_encoding_checks_def minimal_message_def Let_def obind_Inl_iff ensure_Inl_iff result_expect_def
        sound_pp_encoding_def)
  have mapping: "circuit_output_mapping K C V = Inl q \<Longrightarrow> known_good C = Inl q" for q
    using K
    by (auto simp: circuit_output_mapping_def Let_def obind_Inl_iff ensure_Inl_iff sound_pp_encoding_def)
  have "known_good C = Inl p"
    using run
    by (auto simp: fuzz_encoding_privacy_preserving_def obind_Inl_iff msgs canon minimal_message_def
        dest: txs mapping)
  then show ?thesis by (rule known_good_panic)
qed

lemma pp_signers:
  assumes "sound_pp_witnesses K C V"
  shows "map (\<lambda>(_, pk). account_id_from C pk)
      (ppw_signatures_and_public_keys (pp_witness_for_message V m pf keys)) = map (account_id_for_key C) keys"
    and "length (ppw_signatures_and_public_keys (pp_witness_for_message V m pf keys)) = length keys"
    and "set (map (account_id_for_key C) keys) \<subseteq> set (pp_affected_public_account_ids K
      \<lparr>ppt_message = m', ppt_witness_set = pp_witness_for_message V m pf keys\<rparr>)"
proof -
  let ?ws = "ppw_signatures_and_public_keys (pp_witness_for_message V m pf keys)"
  have pairs: "map snd ?ws = map (public_key_new_from_private_key C) keys"
    using assms unfolding sound_pp_witnesses_def by blast
  then show len: "length ?ws = length keys" by (metis length_map)
  have "map (\<lambda>(_, pk). account_id_from C pk) ?ws = map (account_id_from C) (map snd ?ws)"
    by (simp add: case_prod_unfold comp_def)
  also have "\<dots> = map (account_id_for_key C) keys"
    unfolding pairs by (simp add: account_id_for_key_def comp_def)
  finally show ids: "map (\<lambda>(_, pk). account_id_from C pk) ?ws = map (account_id_for_key C) keys" .
  have "set (signer_account_ids C (PrivacyPreserving \<lparr>ppt_message = m',
      ppt_witness_set = pp_witness_for_message V m pf keys\<rparr>)) \<subseteq>
    set (pp_affected_public_account_ids K \<lparr>ppt_message = m', ppt_witness_set = pp_witness_for_message V m pf keys\<rparr>)"
    using assms unfolding sound_pp_witnesses_def by blast
  then show "set (map (account_id_for_key C) keys) \<subseteq> set (pp_affected_public_account_ids K
      \<lparr>ppt_message = m', ppt_witness_set = pp_witness_for_message V m pf keys\<rparr>)"
    unfolding signer_account_ids.simps pp_transaction.select_convs ids .
qed

lemma pp_signer_set:
  assumes "sound_pp_witnesses K C V"
  shows "(\<lambda>(_, pk). account_id_from C pk) `
      set (ppw_signatures_and_public_keys (pp_witness_for_message V m pf keys)) = account_id_for_key C ` set keys"
  using arg_cong [OF pp_signers(1) [OF assms, of m pf keys], of set] by simp

lemma fixed_witness_ok:
  assumes K: "sound_pp_witnesses K C V" and run: "fixed_witness_checks K C V = Inl p"
  shows "bad_fixed_key C p"
proof -
  note signers = pp_signers [OF K]
  have valid: "signatures_are_valid_for K (pp_witness_for_message V m1 pf keys) m2 \<longleftrightarrow>
      pp_message_to_vec K m1 = pp_message_to_vec K m2"
    if "\<forall>k\<in>set keys. valid_private_key C k" "keys \<noteq> []" for m1 m2 pf keys
    using K that unfolding sound_pp_witnesses_def by blast
  have key: "fixed_key C b = Inr k \<Longrightarrow> valid_private_key C k" for b k
    by (auto simp: fixed_key_def expect_Inr_iff valid_private_key_def)
  have isolated: "isolated_signer_check K V k (account_id_for_key C k) = Inr ()" for k
    using signers(3) [of "[k]"] by (auto simp: isolated_signer_check_def Let_def ensure_def)
  have differ: "encodings_differ K m1 m2 \<Longrightarrow> pp_message_to_vec K m1 \<noteq> pp_message_to_vec K m2" for m1 m2
    by (auto simp: encodings_differ_def split: sum.splits)
  show ?thesis
    using run fixed_key_cases [of 1 C p] fixed_key_cases [of 2 C p] signers(3) [of "[_]"]
    by (auto simp: fixed_witness_checks_def Let_def obind_Inl_iff ensure_Inl_iff signers(1,2) pp_signer_set [OF K] isolated
        valid key dest!: differ split: if_splits)
qed

lemma fuzzed_witness_ok:
  assumes K: "sound_pp_witnesses K C V" and keys: "\<forall>k\<in>set keys. valid_private_key C k"
  shows "fuzzed_witness_checks K C V keys = Inr ()"
proof -
  have valid: "keys \<noteq> [] \<Longrightarrow> signatures_are_valid_for K (pp_witness_for_message V m pf keys) m" for m pf
    using K keys unfolding sound_pp_witnesses_def by blast
  have affected: "k \<in> set keys \<Longrightarrow> account_id_for_key C k \<in> set (pp_affected_public_account_ids K
      \<lparr>ppt_message = m', ppt_witness_set = pp_witness_for_message V m pf keys\<rparr>)" for k m m' pf
    using pp_signers(3) [OF K, of keys m' m pf] by auto
  show ?thesis
    by (auto simp: fuzzed_witness_checks_def Let_def obind_Inr_iff ensure_Inr_iff for_each_Inr_iff
        pp_signers(1,2) [OF K] valid affected)
qed

lemma contract_pp_witness_target:
  assumes K: "sound_pp_witnesses K C V"
  shows "contract_gen (fuzz_privacy_preserving_witness K C V A) (\<lambda>_. True)
    (\<lambda>p. bad_fixed_key C p \<or> bad_seed C p)"
proof -
  let ?Q = "\<lambda>p. bad_fixed_key C p \<or> bad_seed C p"
  have keys: "contract_gen (take_until_error n (arb_private_key A C)) (\<lambda>xs. \<forall>k\<in>set xs. valid_private_key C k) ?Q" for n
    by (rule contract_weaken [OF contract_take_until_error [OF contract_private_key]]) auto
  show ?thesis
    unfolding fuzz_privacy_preserving_witness_def
    apply (rule contract_gbind_any [OF contract_glift])
      apply (rule TrueI, use fixed_witness_ok [OF K] in blast)
    apply (rule contract_gbind_any [OF contract_gunwrap_or [OF contract_prim TrueI]])
    apply (rule contract_gbind [OF keys])
    apply (rule glift_ok, erule fuzzed_witness_ok [OF K])
    done
qed

end
