(* ===== verification/Chain_Structure.thy ===== *)
theory Chain_Structure
  imports State_Transition
begin

unbundle bit_operations_syntax

text \<open>
  The targets on commitments and blocks: \<open>fuzz_merkle_tree.rs\<close>, which inserts fuzzed commitments
  and checks every membership proof, and \<open>fuzz_block_verification.rs\<close>, which checks what the block
  hash commits to.
\<close>

subsection \<open>The Merkle target\<close>

record ('st, 'data, 'path) merkle_api =
  mk_commitment_new :: "account_id \<Rightarrow> 'data account \<Rightarrow> commitment"
  mk_nullifier_from_byte_array :: "bytes \<Rightarrow> nullifier"
  mk_commitment_set_digest :: "'st \<Rightarrow> commitment_set_digest"
  get_proof_for_commitment :: "'st \<Rightarrow> commitment \<Rightarrow> (nat \<times> 'path) option"
  compute_digest_for_path :: "commitment \<Rightarrow> nat \<times> 'path \<Rightarrow> commitment_set_digest"

text \<open>\<open>data.chunks_exact(32)\<close>: a shorter rest is dropped.\<close>

function chunks_exact :: "nat \<Rightarrow> 'a list \<Rightarrow> 'a list list" where
  "chunks_exact n xs = (if n = 0 \<or> length xs < n then [] else take n xs # chunks_exact n (drop n xs))"
  by pat_completeness auto

termination by (relation "measure (length \<circ> snd)") auto

declare chunks_exact.simps [simp del]

fun insert_chunks ::
  "('st, 'data, 'path) merkle_api \<Rightarrow> ('st, 'data) genesis_api \<Rightarrow> bytes list \<Rightarrow> bytes list \<Rightarrow>
   (commitment \<times> nullifier) list \<Rightarrow> bytes list \<times> (commitment \<times> nullifier) list" where
  "insert_chunks M G [] seen pairs = (seen, pairs)"
| "insert_chunks M G (chunk # chunks) seen pairs = (case hs_insert chunk seen of
       (False, seen') \<Rightarrow> insert_chunks M G chunks seen' pairs
     | (True, seen') \<Rightarrow> insert_chunks M G chunks seen'
         (pairs @ [(mk_commitment_new M (AccountId chunk) (account_default G),
                    mk_nullifier_from_byte_array M chunk)]))"

definition proof_index ::
  "('st, 'data, 'path) merkle_api \<Rightarrow> 'st \<Rightarrow> commitment_set_digest \<Rightarrow> commitment \<Rightarrow> nat outcome" where
  "proof_index M st digest c =
     obind (expect (Violation ''ProofSome'') (get_proof_for_commitment M st c)) (\<lambda>pf.
     obind (ensure (compute_digest_for_path M c pf = digest) (Violation ''ProofValid'')) (\<lambda>_.
       Inr (fst pf)))"

definition indices_sequential :: "nat list \<Rightarrow> unit outcome" where
  "indices_sequential indices = for_each (\<lambda>(k, idx). ensure (idx = k + 1) (Violation ''IndicesSequential''))
     (enumerate 0 (sort indices))"

definition sentinel_bytes :: bytes where
  "sentinel_bytes = replicate 32 0xFF"

definition fuzz_merkle_tree ::
  "('st, 'data, 'path) merkle_api \<Rightarrow> ('st, 'data) genesis_api \<Rightarrow> bytes \<Rightarrow> unit outcome" where
  "fuzz_merkle_tree M G data =
     (case insert_chunks M G (chunks_exact 32 data) [] [] of (seen, pairs) \<Rightarrow>
        if pairs = [] then Inr ()
        else let commitments = map fst pairs;
                 st = genesis_state G [] pairs;
                 digest = mk_commitment_set_digest M st in
          obind (map_outcome (proof_index M st digest) commitments) (\<lambda>indices.
          obind (indices_sequential indices) (\<lambda>_.
            if sentinel_bytes \<notin> set seen
            then ensure (get_proof_for_commitment M st
                     (mk_commitment_new M (AccountId sentinel_bytes) (account_default G)) = None)
                   (Violation ''NonMembershipNone'')
            else Inr ())))"

subsection \<open>What the Merkle target checks\<close>

lemma chunks_exact_concat: "0 < n \<Longrightarrow> concat (chunks_exact n xs) = take (n * (length xs div n)) xs"
proof (induction n xs rule: chunks_exact.induct)
  case (1 n xs)
  show ?case
  proof (cases "length xs < n")
    case True
    then show ?thesis by (simp add: chunks_exact.simps)
  next
    case False
    then have "length xs div n = Suc ((length xs - n) div n)"
      using 1(2) by (simp add: le_div_geq)
    with 1 False show ?thesis
      by (subst chunks_exact.simps) (simp add: take_add)
  qed
qed

lemma chunks_exact_slices:
  "0 < n \<Longrightarrow> chunks_exact n xs = map (\<lambda>i. take n (drop (n * i) xs)) [0..<length xs div n]"
proof (induction n xs rule: chunks_exact.induct)
  case (1 n xs)
  show ?case
  proof (cases "length xs < n")
    case True
    then show ?thesis by (simp add: chunks_exact.simps)
  next
    case False
    then have "length xs div n = Suc ((length xs - n) div n)"
      using 1(2) by (simp add: le_div_geq)
    then have "[0..<length xs div n] = 0 # map Suc [0..<(length xs - n) div n]"
      by (simp add: upt_conv_Cons map_Suc_upt del: upt_Suc)
    with 1 False show ?thesis
      by (subst chunks_exact.simps) (simp add: add.commute)
  qed
qed

lemma chunks_exact_lengths: "0 < n \<Longrightarrow> map length (chunks_exact n xs) = replicate (length xs div n) n"
proof -
  assume "0 < n"
  have "length (take n (drop (n * i) xs)) = n" if "i < length xs div n" for i
  proof -
    have "n * (length xs div n) \<le> length xs" by simp
    moreover have "n * Suc i \<le> n * (length xs div n)" using that by (intro mult_le_mono2) simp
    ultimately have "n * Suc i \<le> length xs" by (rule order_trans [rotated])
    then show ?thesis by simp
  qed
  with \<open>0 < n\<close> show ?thesis
    by (simp add: chunks_exact_slices list_eq_iff_nth_eq del: length_take length_drop)
qed

text \<open>The elements at the positions where they have not occurred before, in the order of these positions.\<close>

definition first_occurrences :: "'a list \<Rightarrow> 'a list" where
  "first_occurrences xs = map (nth xs) (filter (\<lambda>i. xs ! i \<notin> set (take i xs)) [0..<length xs])"

lemma first_occurrences_Nil [simp]: "first_occurrences [] = []"
  by (simp add: first_occurrences_def)

lemma first_occurrences_snoc:
  "first_occurrences (xs @ [x]) = first_occurrences xs @ (if x \<in> set xs then [] else [x])"
proof -
  have "map (nth (xs @ [x])) (filter (\<lambda>i. (xs @ [x]) ! i \<notin> set (take i (xs @ [x]))) [0..<length xs]) =
      first_occurrences xs"
    unfolding first_occurrences_def by (intro map_cong filter_cong) (auto simp: nth_append)
  then show ?thesis by (simp add: first_occurrences_def)
qed

lemma first_occurrences_distinct: "distinct (first_occurrences xs) \<and> set (first_occurrences xs) = set xs"
  by (induction xs rule: rev_induct) (auto simp: first_occurrences_snoc)

text \<open>The loop keeps the first occurrences, each with its commitment and its nullifier.\<close>

definition chunk_pair ::
  "('st, 'data, 'path) merkle_api \<Rightarrow> ('st, 'data) genesis_api \<Rightarrow> bytes \<Rightarrow> commitment \<times> nullifier" where
  "chunk_pair M G chunk = (mk_commitment_new M (AccountId chunk) (account_default G),
     mk_nullifier_from_byte_array M chunk)"

lemma insert_chunks_append:
  "insert_chunks M G (xs @ ys) seen pairs =
     (case insert_chunks M G xs seen pairs of (seen', pairs') \<Rightarrow> insert_chunks M G ys seen' pairs')"
  by (induction xs arbitrary: seen pairs) (simp_all add: hs_insert_def)

lemma insert_chunks_first:
  "insert_chunks M G chunks [] [] =
     (first_occurrences chunks, map (chunk_pair M G) (first_occurrences chunks))"
proof (induction chunks rule: rev_induct)
  case (snoc c chunks)
  with first_occurrences_distinct [of chunks] show ?case
    by (simp add: insert_chunks_append first_occurrences_snoc hs_insert_def chunk_pair_def)
qed simp

lemma all_sequential: "for_each (\<lambda>(k, idx). ensure (idx = k + 1) e) (enumerate 0 ys) = Inr () \<longleftrightarrow>
  (\<forall>k<length ys. ys ! k = k + 1)"
proof -
  have s: "set (enumerate 0 ys) = (\<lambda>k. (k, ys ! k)) ` {..<length ys}"
    by (auto simp: in_set_enumerate_eq image_iff)
  show ?thesis unfolding for_each_Inr_iff s image_iff ball_simps by (auto simp: ensure_Inr_iff)
qed

lemma sequential_iff: "(\<forall>k<length ys. ys ! k = k + 1) \<longleftrightarrow> ys = [1..<Suc (length ys)]"
  by (simp only: list_eq_iff_nth_eq length_upt diff_Suc_1 Suc_eq_plus1 [symmetric]) (simp add: nth_upt del: upt_Suc)

lemma sort_sequential_iff: "sort xs = [1..<Suc (length xs)] \<longleftrightarrow> mset xs = mset [1..<Suc (length xs)]"
proof
    assume "mset xs = mset [1..<Suc (length xs)]"
    then show "sort xs = [1..<Suc (length xs)]"
      using properties_for_sort [of "[1..<Suc (length xs)]" xs] by (simp del: upt_Suc)
next
  assume "sort xs = [1..<Suc (length xs)]"
  then have "mset (sort xs) = mset [1..<Suc (length xs)]" by (rule arg_cong)
  then show "mset xs = mset [1..<Suc (length xs)]" unfolding mset_sort .
qed

lemma indices_sequential_iff:
  "indices_sequential xs = Inr () \<longleftrightarrow> mset xs = mset [1..<Suc (length xs)]"
  unfolding indices_sequential_def all_sequential unfolding sequential_iff
  unfolding length_sort sort_sequential_iff ..

text \<open>
  Every inserted commitment has a proof that recomputes to the digest, the indices of the proofs
  are \<open>1\<close> to \<open>N\<close> without repetition, and a commitment that was not inserted has no proof.
\<close>

definition valid_proof ::
  "('st, 'data, 'path) merkle_api \<Rightarrow> 'st \<Rightarrow> commitment \<Rightarrow> nat \<Rightarrow> bool" where
  "valid_proof M st c i \<longleftrightarrow> (\<exists>path. get_proof_for_commitment M st c = Some (i, path) \<and>
     compute_digest_for_path M c (i, path) = mk_commitment_set_digest M st)"

definition merkle_ok ::
  "('st, 'data, 'path) merkle_api \<Rightarrow> ('st, 'data) genesis_api \<Rightarrow> bytes list \<Rightarrow> 'st \<Rightarrow> bool" where
  "merkle_ok M G ids st \<longleftrightarrow>
     (\<exists>indices. list_all2 (\<lambda>aid. valid_proof M st (mk_commitment_new M (AccountId aid) (account_default G)))
          ids indices \<and> mset indices = mset [1..<Suc (length ids)]) \<and>
     (sentinel_bytes \<notin> set ids \<longrightarrow> get_proof_for_commitment M st
        (mk_commitment_new M (AccountId sentinel_bytes) (account_default G)) = None)"

lemma proof_index_Inr_iff:
  "proof_index M st (mk_commitment_set_digest M st) c = Inr i \<longleftrightarrow> valid_proof M st c i"
  by (auto simp: proof_index_def outcome_simps valid_proof_def)

lemma merkle_verdict:
  fixes M :: "('st, 'data, 'path) merkle_api"
  assumes "insert_chunks M G (chunks_exact 32 data) [] [] = (seen, pairs)" and "seen \<noteq> []"
  shows "fuzz_merkle_tree M G data = Inr () \<longleftrightarrow> merkle_ok M G seen (genesis_state G [] pairs)"
proof -
  let ?c = "\<lambda>aid. mk_commitment_new M (AccountId aid) (account_default G)"
  let ?st = "genesis_state G [] pairs"
  have "pairs = map (chunk_pair M G) seen"
    using assms(1) by (auto simp: insert_chunks_first)
  then have ne: "pairs \<noteq> []" and comms: "map fst pairs = map ?c seen"
    using assms(2) by (simp_all add: comp_def chunk_pair_def)
  let ?P = "\<lambda>aid. valid_proof M ?st (?c aid)"
  have "fuzz_merkle_tree M G data = Inr () \<longleftrightarrow>
      (\<exists>is. list_all2 ?P seen is \<and> mset is = mset [1..<Suc (length is)]) \<and>
      (sentinel_bytes \<notin> set seen \<longrightarrow> get_proof_for_commitment M ?st (?c sentinel_bytes) = None)"
    using ne unfolding fuzz_merkle_tree_def assms(1) prod.case Let_def comms
    by (simp add: obind_Inr_iff map_outcome_Inr_iff indices_sequential_iff ensure_Inr_iff list_all2_map1
        proof_index_Inr_iff del: upt_Suc) blast
  moreover have "list_all2 ?P seen is \<Longrightarrow> length is = length seen" for "is"
    by (simp add: list_all2_lengthD)
  ultimately show ?thesis
    unfolding merkle_ok_def by metis
qed

subsection \<open>The block target\<close>

record 'block block_api =
  into_pending_block :: "hashable_block_data \<Rightarrow> 'block"
  block_hash :: "'block \<Rightarrow> bytes"
  hashable_from_block :: "'block \<Rightarrow> hashable_block_data"
  lee_transaction_to_vec :: "lee_transaction \<Rightarrow> bytes option"

definition pending_hash :: "'block block_api \<Rightarrow> hashable_block_data \<Rightarrow> bytes" where
  "pending_hash B b = block_hash B (into_pending_block B b)"

text \<open>\<open>m.prev_block_hash.0[0] ^= 0xFF\<close>\<close>

fun flip_first_byte :: "bytes \<Rightarrow> bytes outcome" where
  "flip_first_byte [] = Inl Index_Out_Of_Bounds"
| "flip_first_byte (b # bs) = Inr ((b XOR 0xFF) # bs)"

definition reorder_check :: "'block block_api \<Rightarrow> hashable_block_data \<Rightarrow> unit outcome" where
  "reorder_check B base =
     (let txs = hbd_transactions base;
          serialise = (\<lambda>tx. expect (Expect_Failed ''serialising a fuzz-generated transaction must succeed'')
            (lee_transaction_to_vec B tx))
      in if 2 \<le> length txs then
           obind (serialise (txs ! 0)) (\<lambda>first.
           obind (serialise (txs ! (length txs - 1))) (\<lambda>last.
             if first \<noteq> last
             then ensure (pending_hash B base \<noteq> pending_hash B (base\<lparr>hbd_transactions := rev txs\<rparr>))
                    (Violation ''TxOrderCommitment'')
             else Inr ()))
         else Inr ())"

definition block_checks :: "'block block_api \<Rightarrow> hashable_block_data \<Rightarrow> unit outcome" where
  "block_checks B base =
     (let block = into_pending_block B base;
          hash_base = block_hash B block in
      obind (ensure (hash_base = pending_hash B (hashable_from_block B block)) (Violation ''HashRoundTrip'')) (\<lambda>_.
      obind (ensure (hash_base \<noteq> pending_hash B (base\<lparr>hbd_block_id := hbd_block_id base + 1\<rparr>))
               (Violation ''HashPreimage/block_id'')) (\<lambda>_.
      obind (flip_first_byte (hbd_prev_block_hash base)) (\<lambda>flipped.
      obind (ensure (hash_base \<noteq> pending_hash B (base\<lparr>hbd_prev_block_hash := flipped\<rparr>))
               (Violation ''HashPreimage/prev_block_hash'')) (\<lambda>_.
      obind (ensure (hash_base \<noteq> pending_hash B (base\<lparr>hbd_timestamp := hbd_timestamp base + 1\<rparr>))
               (Violation ''HashPreimage/timestamp'')) (\<lambda>_.
        reorder_check B base))))))"

definition fuzz_block_verification ::
  "'block block_api \<Rightarrow> 'u arbitrary_api \<Rightarrow> crypto \<Rightarrow> ('u, unit) gen" where
  "fuzz_block_verification B A C = gbind (gcatch (arb_hashable_block_data A C)) (\<lambda>r.
     case r of
       Inl _ \<Rightarrow> gret ()
     | Inr base \<Rightarrow> glift (block_checks B base))"

subsection \<open>What the block target checks\<close>

text \<open>A hash that commits to the whole block, on blocks whose conversion is lossless.\<close>

definition committing_hash :: "'block block_api \<Rightarrow> bool" where
  "committing_hash B \<longleftrightarrow> (\<forall>b1 b2. pending_hash B b1 = pending_hash B b2 \<longrightarrow> b1 = b2) \<and>
     (\<forall>b. hashable_from_block B (into_pending_block B b) = b) \<and>
     (\<forall>tx. lee_transaction_to_vec B tx \<noteq> None)"

lemma flip_changes: "flip_first_byte xs = Inr ys \<Longrightarrow> ys \<noteq> xs"
proof (cases xs)
  case (Cons b bs)
  have "b XOR 0xFF \<noteq> b"
  proof
    assume "b XOR 0xFF = b"
    then have "b XOR (b XOR 0xFF) = b XOR b" by simp
    then show False by (simp add: xor.assoc [symmetric])
  qed
  with Cons show "flip_first_byte xs = Inr ys \<Longrightarrow> ys \<noteq> xs" by auto
qed simp

lemma block_checks_iff:
  assumes "hbd_prev_block_hash base = b # bs"
  shows "block_checks B base = Inr () \<longleftrightarrow>
     pending_hash B (hashable_from_block B (into_pending_block B base)) = pending_hash B base \<and>
     pending_hash B (base\<lparr>hbd_block_id := hbd_block_id base + 1\<rparr>) \<noteq> pending_hash B base \<and>
     pending_hash B (base\<lparr>hbd_prev_block_hash := (b XOR 0xFF) # bs\<rparr>) \<noteq> pending_hash B base \<and>
     pending_hash B (base\<lparr>hbd_timestamp := hbd_timestamp base + 1\<rparr>) \<noteq> pending_hash B base \<and>
     reorder_check B base = Inr ()"
  using assms by (auto simp: block_checks_def Let_def obind_Inr_iff ensure_Inr_iff pending_hash_def)

lemma reorder_check_iff:
  "reorder_check B base = Inr () \<longleftrightarrow>
     (2 \<le> length (hbd_transactions base) \<longrightarrow>
       (\<exists>x y. lee_transaction_to_vec B (hd (hbd_transactions base)) = Some x \<and>
          lee_transaction_to_vec B (last (hbd_transactions base)) = Some y \<and>
          (x \<noteq> y \<longrightarrow> pending_hash B (base\<lparr>hbd_transactions := rev (hbd_transactions base)\<rparr>) \<noteq> pending_hash B base)))"
proof -
  have "2 \<le> length txs \<Longrightarrow> txs ! 0 = hd txs \<and> txs ! (length txs - 1) = last txs" for txs :: "lee_transaction list"
    by (cases txs) (auto simp: hd_conv_nth last_conv_nth)
  then show ?thesis
    by (auto simp: reorder_check_def Let_def obind_Inr_iff expect_Inr_iff ensure_Inr_iff)
qed

lemma reversed_differs:
  assumes "2 \<le> length xs" and "hd xs \<noteq> last xs"
  shows "rev xs \<noteq> xs"
proof
  assume "rev xs = xs"
  then have "hd (rev xs) = hd xs" by simp
  with assms show False by (cases xs rule: rev_cases) auto
qed

lemma hash_update_neq:
  assumes "committing_hash B" and "b' \<noteq> b"
  shows "pending_hash B b' \<noteq> pending_hash B b"
  using assms unfolding committing_hash_def by blast

lemma block_checks_ok:
  assumes B: "committing_hash B" and ne: "hbd_prev_block_hash base \<noteq> []"
  shows "block_checks B base = Inr ()"
proof -
  obtain b bs where prev: "hbd_prev_block_hash base = b # bs" using ne by (cases "hbd_prev_block_hash base") auto
  have upd1: "base\<lparr>hbd_block_id := hbd_block_id base + 1\<rparr> \<noteq> base"
  proof
    assume "base\<lparr>hbd_block_id := hbd_block_id base + 1\<rparr> = base"
    from arg_cong [OF this, of hbd_block_id] show False by simp
  qed
  have upd2: "base\<lparr>hbd_timestamp := hbd_timestamp base + 1\<rparr> \<noteq> base"
  proof
    assume "base\<lparr>hbd_timestamp := hbd_timestamp base + 1\<rparr> = base"
    from arg_cong [OF this, of hbd_timestamp] show False by simp
  qed
  have flip: "base\<lparr>hbd_prev_block_hash := (b XOR 0xFF) # bs\<rparr> \<noteq> base"
    using flip_changes [of "b # bs"] prev by (auto dest!: arg_cong [of _ _ hbd_prev_block_hash])
  have "reorder_check B base = Inr ()"
    unfolding reorder_check_iff
  proof
    let ?txs = "hbd_transactions base"
    assume len: "2 \<le> length ?txs"
    obtain x y where xy: "lee_transaction_to_vec B (hd ?txs) = Some x" "lee_transaction_to_vec B (last ?txs) = Some y"
      using B unfolding committing_hash_def by (meson not_None_eq)
    have "pending_hash B (base\<lparr>hbd_transactions := rev ?txs\<rparr>) \<noteq> pending_hash B base" if "x \<noteq> y"
    proof (rule hash_update_neq [OF B])
      from that xy have "hd ?txs \<noteq> last ?txs" by auto
      from reversed_differs [OF len this] show "base\<lparr>hbd_transactions := rev ?txs\<rparr> \<noteq> base"
        by (auto dest!: arg_cong [of _ _ hbd_transactions])
    qed
    with xy show "\<exists>x y. lee_transaction_to_vec B (hd ?txs) = Some x \<and> lee_transaction_to_vec B (last ?txs) = Some y \<and>
        (x \<noteq> y \<longrightarrow> pending_hash B (base\<lparr>hbd_transactions := rev ?txs\<rparr>) \<noteq> pending_hash B base)" by blast
  qed
  then show ?thesis
    unfolding block_checks_iff [OF prev]
    using B hash_update_neq [OF B upd1] hash_update_neq [OF B upd2] hash_update_neq [OF B flip]
    by (simp add: committing_hash_def)
qed

end
