(* ===== verification/Target_Returns.thy ===== *)
theory Target_Returns
  imports Privacy_Targets Privacy_Encoding Chain_Structure
begin

text \<open>
  Every fuzz target that reads from \<open>Unstructured\<close> ends with a value or a panic: its loops are
  bounded by the drawn counts and every draw error is handled.
\<close>

lemma unfailing_lockstep_loop: "unfailing (lockstep_loop L C d accs n s)"
  by (induction n arbitrary: s) (auto intro!: unfailing_intros)

lemma unfailing_lockstep: "unfailing (fuzz_stateful_model_lockstep L C G A d)"
  unfolding fuzz_stateful_model_lockstep_def by (intro unfailing_intros unfailing_lockstep_loop)

lemma unfailing_transition_loop: "unfailing (transition_loop L C A accs time i n st)"
  by (induction n arbitrary: i st) (auto intro!: unfailing_intros simp: Let_def)

lemma unfailing_multi_block: "unfailing (fuzz_multi_block_state_sequence L C G A)"
  unfolding fuzz_multi_block_state_sequence_def multi_block_sequence_def
  by (intro unfailing_intros unfailing_transition_loop)

lemma unfailing_state_transition: "unfailing (fuzz_state_transition L C G A)"
  unfolding fuzz_state_transition_def by (intro unfailing_intros unfailing_transition_loop)

lemma unfailing_replay_prevention: "unfailing (fuzz_replay_prevention L C G A)"
  unfolding fuzz_replay_prevention_def Let_def by (intro unfailing_intros)

lemma unfailing_sequencer_loop: "unfailing (sequencer_loop L C A accs b t n s)"
  by (induction n arbitrary: s) (auto intro!: unfailing_intros)

lemma unfailing_sequencer: "unfailing (fuzz_sequencer_vs_replayer L P C G A)"
  unfolding fuzz_sequencer_vs_replayer_def Let_def by (intro unfailing_intros unfailing_sequencer_loop)

lemma unfailing_seed_loop: "unfailing (seed_loop L C G V A accs i n base)"
  by (induction n arbitrary: i base) (auto intro!: unfailing_intros)

lemma unfailing_ordering: "unfailing (fuzz_transaction_ordering_independence L C G V A)"
  unfolding fuzz_transaction_ordering_independence_def by (intro unfailing_intros unfailing_seed_loop)

lemma unfailing_privacy_loop: "unfailing (privacy_loop L C G V E A accs i n st)"
  by (induction n arbitrary: i st) (auto intro!: unfailing_intros)

lemma unfailing_privacy: "unfailing (fuzz_privacy_preserving_state_transition L C G V E A)"
  unfolding fuzz_privacy_preserving_state_transition_def by (intro unfailing_intros unfailing_privacy_loop)

lemma unfailing_block: "unfailing (fuzz_block_verification B A C)"
  unfolding fuzz_block_verification_def by (intro unfailing_intros)

lemma unfailing_gboth: "unfailing (gboth g h)"
  unfolding gboth_def by (intro unfailing_intros)

lemma unfailing_take_until_error: "unfailing (take_until_error n g)"
  by (induction n) (auto intro!: unfailing_intros)

lemma unfailing_draw_msg: "unfailing (draw_msg A)"
  unfolding draw_msg_def by (intro unfailing_intros)

lemma unfailing_signature: "unfailing (fuzz_signature_verification S A C)"
  unfolding fuzz_signature_verification_def Let_def
  by (intro unfailing_intros unfailing_gboth unfailing_draw_msg)

lemma unfailing_witness: "unfailing (fuzz_witness_set_verification W A C)"
  unfolding fuzz_witness_set_verification_def Let_def
  by (intro unfailing_intros unfailing_gboth unfailing_take_until_error)

lemma unfailing_lee: "unfailing f \<Longrightarrow> unfailing g \<Longrightarrow>
    unfailing (case tx of Public _ \<Rightarrow> f | PrivacyPreserving _ \<Rightarrow> g)"
  by (cases tx) simp_all

lemma unfailing_properties: "unfailing (fuzz_transaction_properties L T P W C G A)"
  unfolding fuzz_transaction_properties_def Let_def
  by (intro unfailing_intros) (auto intro!: unfailing_intros split: lee_transaction.split)

lemma unfailing_pp_witness: "unfailing (fuzz_privacy_preserving_witness K C V A)"
  unfolding fuzz_privacy_preserving_witness_def by (intro unfailing_intros unfailing_take_until_error)

lemma unfailing_checked_arbitrary_tx: "unfailing (checked_arbitrary_tx L C G A check)"
  unfolding checked_arbitrary_tx_def by (intro unfailing_intros)

lemma unfailing_state_diff: "unfailing (fuzz_state_diff_computation L P C G A)"
  unfolding fuzz_state_diff_computation_def by (intro unfailing_intros)

lemma unfailing_encoding_roundtrip: "unfailing (fuzz_encoding_roundtrip A C to_bytes from_bytes data)"
  unfolding fuzz_encoding_roundtrip_def by (intro unfailing_intros)

lemma unfailing_stateless: "unfailing (fuzz_stateless_verification L K A C data)"
  unfolding fuzz_stateless_verification_def Let_def by (intro unfailing_intros)

end
