(* ===== verification/Coverage.thy ===== *)
theory Coverage
  imports Generators
begin

text \<open>
  What the generators can produce. A contract bounds the values of a generator from above; here the
  bound is shown to be reached, so the values are known exactly. The primitive draws of the crate
  \<open>arbitrary\<close> are the locale \<open>replayable\<close>: each value of a drawn type has an input that yields it
  and leaves any given rest. A generator is \<open>exact\<close> when the same holds for every value of its
  contract. Completeness of a target rests on this: a configuration that the exact generators
  cover is met by some input.
\<close>

subsection \<open>Reaching a value\<close>

definition reaches :: "('u, 'a) gen \<Rightarrow> 'a \<Rightarrow> bool" where
  "reaches g x \<longleftrightarrow> (\<forall>u. \<exists>u0. g u0 = (Drawn x, u))"

text \<open>Some input ends in the panic \<open>p\<close>.\<close>

definition can_panic :: "('u, 'a) gen \<Rightarrow> panic \<Rightarrow> bool" where
  "can_panic g p \<longleftrightarrow> (\<exists>u. fst (g u) = Panicked p)"

named_theorems reach_intros "values reached by composed generators"

lemma reaches_gret [reach_intros]: "reaches (gret x) x"
  by (simp add: reaches_def gret_def)

lemma reaches_gbind: "reaches g x \<Longrightarrow> reaches (f x) y \<Longrightarrow> reaches (gbind g f) y"
  unfolding reaches_def gbind_Drawn_iff by meson

lemma reaches_gcatch [reach_intros]: "reaches g x \<Longrightarrow> reaches (gcatch g) (Inr x)"
proof -
  have "g u0 = (Drawn x, u) \<Longrightarrow> gcatch g u0 = (Drawn (Inr x), u)" for u0 u
    by (simp add: gcatch_def)
  then show "reaches g x \<Longrightarrow> reaches (gcatch g) (Inr x)" unfolding reaches_def by meson
qed

lemma reaches_gunwrap_or [reach_intros]: "reaches g x \<Longrightarrow> reaches (gunwrap_or d g) x"
  unfolding gunwrap_or_def by (erule reaches_gbind [OF reaches_gcatch]) (simp add: reaches_gret)

lemma reaches_glift [reach_intros]: "r = Inr x \<Longrightarrow> reaches (glift r) x"
  by (simp add: glift_def reaches_gret)

lemma reaches_grepeat [reach_intros]:
  "(\<And>x. x \<in> set xs \<Longrightarrow> reaches g x) \<Longrightarrow> n = length xs \<Longrightarrow> reaches (grepeat n g) xs"
proof (induction xs arbitrary: n)
  case (Cons x xs)
  then show ?case
    by (auto intro!: reaches_gbind [of g x] reaches_gbind [of _ xs] reaches_gret)
qed (simp add: reaches_gret)

lemma can_panic_gbind: "reaches g x \<Longrightarrow> can_panic (f x) p \<Longrightarrow> can_panic (gbind g f) p"
proof -
  assume r: "reaches g x" and "can_panic (f x) p"
  then obtain u where p: "fst (f x u) = Panicked p" by (auto simp: can_panic_def)
  from r obtain u0 where "g u0 = (Drawn x, u)" by (auto simp: reaches_def)
  with p have "fst (gbind g f u0) = Panicked p" by (simp add: gbind_def)
  then show ?thesis by (auto simp: can_panic_def)
qed

lemma can_panic_glift: "r = Inl p \<Longrightarrow> can_panic (glift r) p"
  by (simp add: can_panic_def glift_def gpanic_def)

lemma can_panic_first: "can_panic g p \<Longrightarrow> can_panic (gbind g f) p"
proof -
  have "fst (g u) = Panicked p \<Longrightarrow> fst (gbind g f u) = Panicked p" for u
    by (cases "g u") (simp add: gbind_def)
  then show "can_panic g p \<Longrightarrow> can_panic (gbind g f) p" unfolding can_panic_def by meson
qed

locale exact_gen = contract_gen g P Q
  for g :: "('u, 'a) gen" and P :: "'a \<Rightarrow> bool" and Q :: "panic \<Rightarrow> bool" +
  assumes reached: "P a \<Longrightarrow> reaches g a"
begin

lemma drawn_iff: "(\<exists>u u'. g u = (Drawn a, u')) \<longleftrightarrow> P a"
  using value_ok reached unfolding reaches_def by blast

lemma drawn_values: "{a. \<exists>u u'. g u = (Drawn a, u')} = Collect P"
  by (simp add: drawn_iff)

lemma repeat_reached: "reaches (grepeat n g) xs \<longleftrightarrow> length xs = n \<and> (\<forall>x\<in>set xs. P x)"
  using grepeat_value reached unfolding reaches_def [of "grepeat n g"]
  by (metis reaches_def reaches_grepeat)

end

subsection \<open>The primitive draws\<close>

text \<open>A draw yields values of \<open>X\<close> only, and each of them before any rest of the input.\<close>

definition draws :: "('u \<Rightarrow> (arb_error + 'a) \<times> 'u) \<Rightarrow> 'a set \<Rightarrow> bool" where
  "draws d X \<longleftrightarrow> (\<forall>u x u'. d u = (Inr x, u') \<longrightarrow> x \<in> X) \<and> (\<forall>x\<in>X. \<forall>u. \<exists>u0. d u0 = (Inr x, u))"

lemma draws_exact: "draws d X \<Longrightarrow> exact_gen (prim d) (\<lambda>x. x \<in> X) (\<lambda>_. False)"
proof
  assume d: "draws d X"
  show "x \<in> X" if "prim d u = (Drawn x, u')" for u x u'
    using d that by (auto simp: draws_def prim_def split: prod.splits sum.splits)
  show False if "prim d u = (Panicked p, u')" for u p u'
    using that by (auto simp: prim_def split: prod.splits sum.splits)
  show "reaches (prim d) x" if "x \<in> X" for x
    unfolding reaches_def
  proof
    fix u
    from d that have "\<exists>u0. d u0 = (Inr x, u)" by (simp add: draws_def)
    then obtain u0 where "d u0 = (Inr x, u)" by blast
    then have "prim d u0 = (Drawn x, u)" by (simp add: prim_def)
    then show "\<exists>u0. prim d u0 = (Drawn x, u)" by blast
  qed
qed

lemma reaches_prim: "draws d X \<Longrightarrow> x \<in> X \<Longrightarrow> reaches (prim d) x"
  by (rule exact_gen.reached [OF draws_exact])

locale replayable =
  fixes A :: "'u arbitrary_api"
  assumes any_u8: "draws (draw_u8 A) UNIV"
    and any_u64: "draws (draw_u64 A) UNIV"
    and any_u128: "draws (draw_u128 A) UNIV"
    and any_bool: "draws (draw_bool A) UNIV"
    and any_bytes32: "draws (draw_bytes32 A) {b. length b = 32}"
    and any_bytes64: "draws (draw_bytes64 A) {b. length b = 64}"
    and any_vec_u8: "draws (draw_vec_u8 A) UNIV"

subsection \<open>The values of the wrapper types\<close>

text \<open>
  Ids are 32 bytes, signatures 64, keys are what the constructors make of 32 bytes; lists are as
  long as their generator draws them. Everything else is arbitrary.
\<close>

fun account_id_ok :: "account_id \<Rightarrow> bool" where
  "account_id_ok (AccountId b) \<longleftrightarrow> length b = 32"

definition drawable_private_key :: "crypto \<Rightarrow> private_key \<Rightarrow> bool" where
  "drawable_private_key C k \<longleftrightarrow> (\<exists>b. length b = 32 \<and> private_key_try_new C b = Some k)"

definition drawable_public_key :: "crypto \<Rightarrow> public_key \<Rightarrow> bool" where
  "drawable_public_key C pk \<longleftrightarrow> (\<exists>b. length b = 32 \<and> public_key_try_new C b = Some pk) \<or>
     (\<exists>k. drawable_private_key C k \<and> pk = public_key_new_from_private_key C k)"

fun drawable_selector :: "program_shard_selector \<Rightarrow> bool" where
  "drawable_selector (ProgramShardSelector a p) \<longleftrightarrow> account_id_ok a \<and> account_id_ok p"

fun drawable_fee :: "fee_declaration option \<Rightarrow> bool" where
  "drawable_fee None \<longleftrightarrow> True"
| "drawable_fee (Some (FeeDeclaration payer x y z)) \<longleftrightarrow> account_id_ok payer"

definition drawable_message :: "pub_message \<Rightarrow> bool" where
  "drawable_message m \<longleftrightarrow> message_shape m \<and> account_id_ok (msg_program_account_id m) \<and>
     list_all drawable_selector (msg_shard_selectors m) \<and> drawable_fee (msg_fee m)"

definition drawable_witness_set :: "crypto \<Rightarrow> witness_set \<Rightarrow> bool" where
  "drawable_witness_set C w \<longleftrightarrow> length (ws_signatures_and_public_keys w) \<le> 3 \<and>
     list_all (\<lambda>(s, pk). length (sig_value s) = 64 \<and> drawable_public_key C pk) (ws_signatures_and_public_keys w)"

definition drawable_public_tx :: "crypto \<Rightarrow> public_transaction \<Rightarrow> bool" where
  "drawable_public_tx C t \<longleftrightarrow> drawable_message (pt_message t) \<and> drawable_witness_set C (pt_witness_set t)"

definition drawable_lee_tx :: "crypto \<Rightarrow> lee_transaction \<Rightarrow> bool" where
  "drawable_lee_tx C t \<longleftrightarrow> (\<exists>p. t = Public p \<and> drawable_public_tx C p)"

definition drawable_block :: "crypto \<Rightarrow> hashable_block_data \<Rightarrow> bool" where
  "drawable_block C b \<longleftrightarrow> length (hbd_transactions b) \<le> 7 \<and> length (hbd_prev_block_hash b) = 32 \<and>
     list_all (drawable_lee_tx C) (hbd_transactions b)"

lemma exact_genI: "contract_gen g P Q \<Longrightarrow> (\<And>a. P a \<Longrightarrow> reaches g a) \<Longrightarrow> exact_gen g P Q"
  by (simp add: exact_gen_def exact_gen_axioms_def)

lemma exact_weaken: "exact_gen g P Q \<Longrightarrow> (\<And>p. Q p \<Longrightarrow> Q' p) \<Longrightarrow> exact_gen g P Q'"
  unfolding exact_gen_def using contract_weaken by blast

lemma exact_grepeat: "exact_gen g P Q \<Longrightarrow> exact_gen (grepeat n g) (\<lambda>xs. length xs = n \<and> (\<forall>x\<in>set xs. P x)) Q"
  by (rule exact_genI) (simp_all add: exact_gen_def contract_grepeat exact_gen.repeat_reached exact_gen_axioms_def)

text \<open>The values of a sequence are those some value of its first part leads to.\<close>

lemma exact_gret: "exact_gen (gret x) (\<lambda>b. b = x) Q"
  by (rule exact_genI) (auto intro: contract_gret reaches_gret)

lemma exact_gbind:
  assumes "exact_gen g R Q" and "\<And>a. R a \<Longrightarrow> exact_gen (f a) (S a) Q"
  shows "exact_gen (gbind g f) (\<lambda>b. \<exists>a. R a \<and> S a b) Q"
proof (rule exact_genI)
  show "contract_gen (gbind g f) (\<lambda>b. \<exists>a. R a \<and> S a b) Q"
  proof (rule contract_gbind)
    show "contract_gen g R Q" using assms(1) by (simp add: exact_gen_def)
    show "contract_gen (f a) (\<lambda>b. \<exists>a. R a \<and> S a b) Q" if "R a" for a
      using that by (blast intro: contract_weaken [OF exact_gen.axioms(1) [OF assms(2) [OF that]]])
  qed
  show "reaches (gbind g f) b" if "\<exists>a. R a \<and> S a b" for b
  proof -
    from that obtain a where "R a" and "S a b" by blast
    then show ?thesis
      by (intro reaches_gbind [OF exact_gen.reached [OF assms(1)]] exact_gen.reached [OF assms(2)])
  qed
qed

lemma exact_cong: "exact_gen g P Q \<Longrightarrow> (\<And>b. P b \<longleftrightarrow> P' b) \<Longrightarrow> exact_gen g P' Q"
proof -
  assume g: "exact_gen g P Q" and "\<And>b. P b \<longleftrightarrow> P' b"
  then have "P = P'" by (intro ext) simp
  with g show ?thesis by simp
qed

lemma exact_if: "(c \<Longrightarrow> exact_gen g P Q) \<Longrightarrow> (\<not> c \<Longrightarrow> exact_gen h P' Q) \<Longrightarrow>
    exact_gen (if c then g else h) (\<lambda>b. if c then P b else P' b) Q"
  by simp

lemma exact_draw: "draws d X \<Longrightarrow> exact_gen (prim d) (\<lambda>x. x \<in> X) Q"
  by (rule exact_weaken [OF draws_exact]) auto

lemma exact_draw_below:
  assumes "0 < n" and "n \<le> 256" and "draws (draw_u8 A) UNIV"
  shows "exact_gen (draw_below A n) (\<lambda>i. i < n) Q"
  unfolding draw_below_def
proof (rule exact_cong, rule exact_gbind [OF exact_draw [OF assms(3)]], rule exact_gret)
  fix i :: nat
  show "(\<exists>a. a \<in> UNIV \<and> i = unat (a :: u8) mod n) \<longleftrightarrow> i < n"
  proof
    assume "i < n"
    with assms(2) have "i = unat (of_nat i :: u8) mod n" by (simp add: unat_of_nat)
    then show "\<exists>a. a \<in> UNIV \<and> i = unat (a :: u8) mod n" by blast
  qed (use assms(1) in auto)
qed

context replayable
begin

lemma exact_account_id: "exact_gen (arb_account_id A) account_id_ok Q"
  unfolding arb_account_id_def
proof (rule exact_cong, rule exact_gbind [OF exact_draw [OF any_bytes32]], rule exact_gret)
  fix a
  show "(\<exists>b. b \<in> {b. length b = 32} \<and> a = AccountId b) \<longleftrightarrow> account_id_ok a"
    by (cases a) auto
qed

lemma exact_nonce: "exact_gen (arb_nonce A) (\<lambda>_. True) Q"
  unfolding arb_nonce_def by (rule exact_cong [OF exact_draw [OF any_u128]]) simp

lemma exact_signature: "exact_gen (arb_signature A) (\<lambda>s. length (sig_value s) = 64) Q"
  unfolding arb_signature_def
proof (rule exact_cong, rule exact_gbind [OF exact_draw [OF any_bytes64]], rule exact_gret)
  fix s :: signature_t
  show "(\<exists>b. b \<in> {b. length b = 64} \<and> s = \<lparr>sig_value = b\<rparr>) \<longleftrightarrow> length (sig_value s) = 64"
    by (cases s) auto
qed

lemma exact_private_key: "exact_gen (arb_private_key A C) (drawable_private_key C) (bad_seed C)"
proof (rule exact_genI)
  have good: "contract_gen (glift (known_good_key C)) (drawable_private_key C) (bad_seed C)"
    by (rule contract_glift)
      (auto simp: known_good_key_def outcome_simps bad_seed_def drawable_private_key_def seed_bytes_def intro: exI [of _ seed_bytes])
  show "contract_gen (arb_private_key A C) (drawable_private_key C) (bad_seed C)"
    unfolding arb_private_key_def
    by (rule contract_gbind [OF exact_gen.axioms(1) [OF exact_draw [OF any_bytes32]]])
      (auto intro!: contract_gret good simp: drawable_private_key_def split: option.splits)
  show "reaches (arb_private_key A C) k" if "drawable_private_key C k" for k
    using that unfolding arb_private_key_def drawable_private_key_def
    by (auto intro!: reaches_gbind [OF reaches_prim [OF any_bytes32]] reaches_gret)
qed

lemma exact_public_key: "exact_gen (arb_public_key A C) (drawable_public_key C) (bad_seed C)"
proof (rule exact_genI)
  have derived: "contract_gen (gbind g (\<lambda>k. gret (public_key_new_from_private_key C k))) (drawable_public_key C) (bad_seed C)"
    if "contract_gen g (drawable_private_key C) (bad_seed C)" for g :: "('a, private_key) gen"
    by (rule contract_gbind [OF that]) (auto intro!: contract_gret simp: drawable_public_key_def)
  have good: "contract_gen (glift (known_good_key C)) (drawable_private_key C) (bad_seed C)"
    by (rule contract_glift)
      (auto simp: known_good_key_def outcome_simps bad_seed_def drawable_private_key_def seed_bytes_def intro: exI [of _ seed_bytes])
  note key = exact_gen.axioms(1) [OF exact_private_key]
  show "contract_gen (arb_public_key A C) (drawable_public_key C) (bad_seed C)"
    unfolding arb_public_key_def
    apply (rule contract_gbind_any [OF contract_prim], rule contract_if, rule derived [OF key])
    apply (rule contract_gbind [OF exact_gen.axioms(1) [OF exact_draw [OF any_bytes32]]])
    apply (auto intro!: contract_gret contract_gbind [OF contract_gcatch [OF key]] derived good
        split: option.splits sum.splits)
     apply (auto simp: drawable_public_key_def)
    done
  show "reaches (arb_public_key A C) pk" if "drawable_public_key C pk" for pk
  proof (cases "\<exists>b. length b = 32 \<and> public_key_try_new C b = Some pk")
    case True
    then obtain b where "length b = 32" "public_key_try_new C b = Some pk" by blast
    then show ?thesis
      unfolding arb_public_key_def
      by (intro reaches_gbind [OF reaches_prim [OF any_bool, of False]])
        (auto intro!: reaches_gbind [OF reaches_prim [OF any_bytes32, of b]] reaches_gret)
  next
    case False
    with that obtain k where "drawable_private_key C k" "pk = public_key_new_from_private_key C k"
      by (auto simp: drawable_public_key_def)
    then show ?thesis
      unfolding arb_public_key_def
      by (intro reaches_gbind [OF reaches_prim [OF any_bool, of True]])
        (auto intro!: reaches_gbind [OF exact_gen.reached [OF exact_private_key]] reaches_gret)
  qed
qed

lemma exact_shard_selector: "exact_gen (arb_shard_selector A) drawable_selector Q"
  unfolding arb_shard_selector_def
proof (rule exact_cong, rule exact_gbind [OF exact_account_id], rule exact_gbind [OF exact_account_id], rule exact_gret)
  fix s
  show "(\<exists>a. account_id_ok a \<and> (\<exists>p. account_id_ok p \<and> s = ProgramShardSelector a p)) \<longleftrightarrow> drawable_selector s"
    by (cases s) auto
qed

lemma exact_fee: "exact_gen (arb_fee A) drawable_fee Q"
  unfolding arb_fee_def
proof (rule exact_cong, rule exact_gbind [OF exact_draw [OF any_bool]], rule exact_if,
    rule exact_gbind [OF exact_account_id], rule exact_gbind [OF exact_draw [OF any_u64]],
    rule exact_gbind [OF exact_draw [OF any_u64]], rule exact_gbind [OF exact_draw [OF any_u128]],
    rule exact_gret, rule exact_gret)
  fix f :: "fee_declaration option"
  show "(\<exists>b. b \<in> UNIV \<and> (if b then \<exists>p. account_id_ok p \<and> (\<exists>x. x \<in> UNIV \<and> (\<exists>y. y \<in> UNIV \<and>
      (\<exists>z. z \<in> UNIV \<and> f = Some (FeeDeclaration p x y z)))) else f = None)) \<longleftrightarrow> drawable_fee f"
    by (cases f rule: drawable_fee.cases) (auto simp: ex_bool_eq)
qed

lemma exact_pub_tx_message: "exact_gen (arb_pub_tx_message A) drawable_message Q"
  unfolding arb_pub_tx_message_def
proof (rule exact_cong, rule exact_gbind [OF exact_account_id], rule exact_gbind [OF exact_draw_below [OF _ _ any_u8]],
    simp, simp, rule exact_gbind [OF exact_grepeat [OF exact_shard_selector]],
    rule exact_gbind [OF exact_grepeat [OF exact_nonce]], rule exact_gbind [OF exact_draw [OF any_vec_u8]],
    rule exact_gbind [OF exact_fee], rule exact_gret)
  fix m :: pub_message
  show "(\<exists>p. account_id_ok p \<and> (\<exists>len. len < 8 \<and> (\<exists>ss. (length ss = len \<and> (\<forall>s\<in>set ss. drawable_selector s)) \<and>
      (\<exists>ns. (length ns = len \<and> (\<forall>n\<in>set ns. True)) \<and> (\<exists>d. d \<in> UNIV \<and> (\<exists>f. drawable_fee f \<and>
        m = \<lparr>msg_program_account_id = p, msg_shard_selectors = ss, msg_nonces = ns,
          msg_instruction_data = d, msg_fee = f\<rparr>)))))) \<longleftrightarrow> drawable_message m"
    by (cases m) (auto simp: drawable_message_def message_shape_def list_all_iff)
qed

lemma exact_witness_pair:
  "exact_gen (arb_witness_pair A C) (\<lambda>(s, pk). length (sig_value s) = 64 \<and> drawable_public_key C pk) (bad_seed C)"
  unfolding arb_witness_pair_def
  by (rule exact_cong, rule exact_gbind [OF exact_signature], rule exact_gbind [OF exact_public_key], rule exact_gret)
    auto

lemma exact_witness_set: "exact_gen (arb_witness_set A C) (drawable_witness_set C) (bad_seed C)"
  unfolding arb_witness_set_def
proof (rule exact_cong, rule exact_gbind [OF exact_draw_below [OF _ _ any_u8]], simp, simp,
    rule exact_gbind [OF exact_grepeat [OF exact_witness_pair]], rule exact_gret)
  fix w :: witness_set
  show "(\<exists>n. n < 4 \<and> (\<exists>ps. (length ps = n \<and>
      (\<forall>p\<in>set ps. case p of (s, pk) \<Rightarrow> length (sig_value s) = 64 \<and> drawable_public_key C pk)) \<and>
      w = \<lparr>ws_signatures_and_public_keys = ps\<rparr>)) \<longleftrightarrow> drawable_witness_set C w"
    by (cases w) (auto simp: drawable_witness_set_def list_all_iff)
qed

lemma exact_public_transaction: "exact_gen (arb_public_transaction A C) (drawable_public_tx C) (bad_seed C)"
  unfolding arb_public_transaction_def
proof (rule exact_cong, rule exact_gbind [OF exact_pub_tx_message], rule exact_gbind [OF exact_witness_set], rule exact_gret)
  fix t :: public_transaction
  show "(\<exists>m. drawable_message m \<and> (\<exists>w. drawable_witness_set C w \<and> t = \<lparr>pt_message = m, pt_witness_set = w\<rparr>)) \<longleftrightarrow>
      drawable_public_tx C t"
    by (cases t) (auto simp: drawable_public_tx_def)
qed

lemma exact_lee_transaction: "exact_gen (arb_lee_transaction A C) (drawable_lee_tx C) (bad_seed C)"
  unfolding arb_lee_transaction_def
  by (rule exact_cong, rule exact_gbind [OF exact_public_transaction], rule exact_gret)
    (auto simp: drawable_lee_tx_def)

lemma exact_hashable_block_data: "exact_gen (arb_hashable_block_data A C) (drawable_block C) (bad_seed C)"
  unfolding arb_hashable_block_data_def
proof (rule exact_cong, rule exact_gbind [OF exact_draw_below [OF _ _ any_u8]], simp, simp,
    rule exact_gbind [OF exact_grepeat [OF exact_lee_transaction]], rule exact_gbind [OF exact_draw [OF any_u64]],
    rule exact_gbind [OF exact_draw [OF any_bytes32]], rule exact_gbind [OF exact_draw [OF any_u64]], rule exact_gret)
  fix b :: hashable_block_data
  show "(\<exists>n. n < 8 \<and> (\<exists>txs. (length txs = n \<and> (\<forall>t\<in>set txs. drawable_lee_tx C t)) \<and> (\<exists>i. i \<in> UNIV \<and>
      (\<exists>prev. prev \<in> {b. length b = 32} \<and> (\<exists>ts. ts \<in> UNIV \<and>
        b = \<lparr>hbd_block_id = i, hbd_prev_block_hash = prev, hbd_timestamp = ts, hbd_transactions = txs\<rparr>))))) \<longleftrightarrow>
      drawable_block C b"
    by (cases b) (auto simp: drawable_block_def list_all_iff)
qed

end

subsection \<open>Chain states and transfers\<close>

definition drawable_fuzz_state :: "crypto \<Rightarrow> account_id list \<Rightarrow> fuzz_account list \<Rightarrow> bool" where
  "drawable_fuzz_state C reserved accs \<longleftrightarrow> fuzz_state_ok C reserved accs \<and> length accs \<le> 8 \<and>
     (\<forall>a\<in>set accs. drawable_private_key C (fa_private_key a))"

definition drawable_state :: "crypto \<Rightarrow> account_id list \<Rightarrow> fuzz_account list \<Rightarrow> bool" where
  "drawable_state C reserved accs \<longleftrightarrow> drawable_fuzz_state C reserved accs \<and>
     (accs = [] \<longrightarrow> (\<exists>k. drawable_private_key C k \<and> account_id_for_key C k \<in> set reserved))"

lemma contract_conj: "contract_gen g P Q \<Longrightarrow> contract_gen g P' Q' \<Longrightarrow> contract_gen g (\<lambda>a. P a \<and> P' a) Q"
  by (simp add: contract_gen_def)

text \<open>Every capped balance is an eighth of some drawn number.\<close>

lemma capped_balance_drawn:
  assumes "unat (b :: u128) \<le> (2 ^ 128 - 1) div 8"
  shows "(8 * b) div 8 = b"
proof -
  have "8 * unat b < 2 ^ 128" using assms by simp
  then have "unat (8 * b) = 8 * unat b" by (simp add: unat_word_ariths)
  then show ?thesis by (simp add: word_unat_eq_iff unat_div)
qed

context replayable
begin

lemma fuzz_state_loop_keys:
  assumes "\<forall>a\<in>set accs. drawable_private_key C (fa_private_key a)"
  shows "contract_gen (fuzz_state_loop A C reserved n seen accs)
    (\<lambda>r. \<forall>a\<in>set r. drawable_private_key C (fa_private_key a)) (bad_seed C)"
  using assms
proof (induction n arbitrary: seen accs)
  case (Suc n)
  then show ?case
    unfolding fuzz_state_loop.simps Let_def
    by (intro contract_gbind [OF exact_gen.axioms(1) [OF exact_private_key]] contract_gbind_any contract_prim contract_if)
      (auto simp: hs_insert_def intro!: Suc.IH)
qed (auto intro: contract_gret)

lemma fuzz_state_loop_reaches:
  assumes "fuzz_state_ok C reserved (accs @ new)" and "set seen = fa_account_id ` set accs"
    and "\<forall>a\<in>set new. drawable_private_key C (fa_private_key a)"
  shows "reaches (fuzz_state_loop A C reserved (length new) seen accs) (accs @ new)"
  using assms
proof (induction new arbitrary: seen accs)
  case (Cons a new)
  let ?id = "fa_account_id a"
  have a: "?id = account_id_for_key C (fa_private_key a)" "?id \<notin> set reserved" "?id \<notin> set seen"
    "(8 * fa_balance a) div 8 = fa_balance a"
    using Cons.prems(1,2) capped_balance_drawn [of "fa_balance a"] by (auto simp: fuzz_state_ok_def)
  have "reaches (fuzz_state_loop A C reserved (length new) (seen @ [?id]) (accs @ [a])) ((accs @ [a]) @ new)"
    using Cons.prems by (intro Cons.IH) auto
  moreover have eq: "\<lparr>fa_account_id = account_id_for_key C (fa_private_key a), fa_balance = fa_balance a,
      fa_private_key = fa_private_key a\<rparr> = a"
    using a(1) by (cases a) simp
  ultimately have rest: "reaches (fuzz_state_loop A C reserved (length new) (seen @ [account_id_for_key C (fa_private_key a)])
      (accs @ [\<lparr>fa_account_id = account_id_for_key C (fa_private_key a), fa_balance = fa_balance a,
        fa_private_key = fa_private_key a\<rparr>])) (accs @ a # new)"
    unfolding eq using a(1) by simp
  show ?case
    using a Cons.prems(3) rest
    by (simp, intro reaches_gbind [OF exact_gen.reached [OF exact_private_key], of C "fa_private_key a"]
        reaches_gbind [OF reaches_prim [OF any_u128], of "8 * fa_balance a"])
      (simp_all add: hs_insert_def Let_def)
qed (simp add: reaches_gret)

lemma fuzz_state_reached:
  assumes "drawable_fuzz_state C (reserved_account_ids G) accs" and "accs \<noteq> []"
  shows "reaches (arbitrary_fuzz_state A C G) accs"
proof -
  have len: "length accs - 1 < 8" "length accs - 1 + 1 = length accs"
    using assms by (auto simp: drawable_fuzz_state_def Suc_le_eq)
  have "reaches (fuzz_state_loop A C (reserved_account_ids G) (length accs) [] []) ([] @ accs)"
    using assms(1) by (intro fuzz_state_loop_reaches) (auto simp: drawable_fuzz_state_def)
  then show ?thesis
    unfolding arbitrary_fuzz_state_def
    by (intro reaches_gbind [OF exact_gen.reached [OF exact_draw_below [OF _ _ any_u8] len(1)]])
      (simp_all only: len(2) append_Nil)
qed

lemma fuzz_state_drawn_iff:
  assumes "accs \<noteq> []"
  shows "(\<exists>u u'. arbitrary_fuzz_state A C G u = (Drawn accs, u')) \<longleftrightarrow>
    drawable_fuzz_state C (reserved_account_ids G) accs"
proof
  have keys: "contract_gen (arbitrary_fuzz_state A C G) (\<lambda>r. \<forall>a\<in>set r. drawable_private_key C (fa_private_key a)) (bad_seed C)"
    unfolding arbitrary_fuzz_state_def
    by (rule contract_gbind [OF contract_draw_below]) (auto intro!: fuzz_state_loop_keys simp del: fuzz_state_loop.simps)
  assume "\<exists>u u'. arbitrary_fuzz_state A C G u = (Drawn accs, u')"
  then obtain u u' where "arbitrary_fuzz_state A C G u = (Drawn accs, u')" by blast
  then show "drawable_fuzz_state C (reserved_account_ids G) accs"
    using contract_gen.value_ok [OF contract_conj [OF contract_fuzz_state keys]] by (simp add: drawable_fuzz_state_def)
next
  assume "drawable_fuzz_state C (reserved_account_ids G) accs"
  then show "\<exists>u u'. arbitrary_fuzz_state A C G u = (Drawn accs, u')"
    using fuzz_state_reached [OF _ assms] unfolding reaches_def by blast
qed

text \<open>The empty list is drawn when the only account picked has a reserved id.\<close>

lemma fuzz_state_loop_grows: "contract_gen (fuzz_state_loop A C reserved n seen (a # accs)) (\<lambda>r. r \<noteq> []) (bad_seed C)"
proof (induction n arbitrary: seen accs)
  case (Suc n)
  then show ?case
    unfolding fuzz_state_loop.simps Let_def
    by (intro contract_gbind [OF contract_private_key] contract_gbind_any contract_prim contract_if)
      (auto simp: hs_insert_def)
qed (auto intro: contract_gret)

lemma fuzz_state_loop_empty:
  "contract_gen (fuzz_state_loop A C reserved (Suc n) [] [])
    (\<lambda>r. r = [] \<longrightarrow> (\<exists>k. drawable_private_key C k \<and> account_id_for_key C k \<in> set reserved)) (bad_seed C)"
  unfolding fuzz_state_loop.simps Let_def
proof (rule contract_gbind [OF exact_gen.axioms(1) [OF exact_private_key]], rule contract_gbind_any [OF contract_prim],
    rule contract_if)
  fix k :: private_key and raw :: u128
  assume "drawable_private_key C k" "account_id_for_key C k \<in> set reserved"
  then show "contract_gen (fuzz_state_loop A C reserved n [] [])
      (\<lambda>r. r = [] \<longrightarrow> (\<exists>k. drawable_private_key C k \<and> account_id_for_key C k \<in> set reserved)) (bad_seed C)"
    by (intro contract_weaken [OF fuzz_state_loop_keys]) auto
next
  fix k :: private_key and raw :: u128
  assume "account_id_for_key C k \<notin> set reserved"
  show "contract_gen (case hs_insert (account_id_for_key C k) [] of
        (True, seen') \<Rightarrow> fuzz_state_loop A C reserved n seen' ([] @
            [\<lparr>fa_account_id = account_id_for_key C k, fa_balance = raw div 8, fa_private_key = k\<rparr>])
      | (False, seen') \<Rightarrow> fuzz_state_loop A C reserved n seen' [])
      (\<lambda>r. r = [] \<longrightarrow> (\<exists>k. drawable_private_key C k \<and> account_id_for_key C k \<in> set reserved)) (bad_seed C)"
    by (simp add: hs_insert_def) (rule contract_weaken [OF fuzz_state_loop_grows], auto)
qed

lemma empty_state_reached:
  assumes "drawable_private_key C k" and "account_id_for_key C k \<in> set (reserved_account_ids G)"
  shows "reaches (arbitrary_fuzz_state A C G) []"
proof -
  have "reaches (fuzz_state_loop A C (reserved_account_ids G) (0 + 1) [] []) []"
    using assms by (simp, intro reaches_gbind [OF exact_gen.reached [OF exact_private_key assms(1)]]
        reaches_gbind [OF reaches_prim [OF any_u128], of 0]) (simp_all add: reaches_gret)
  then show ?thesis
    unfolding arbitrary_fuzz_state_def
    by (intro reaches_gbind [OF exact_gen.reached [OF exact_draw_below [OF _ _ any_u8], of 8 0]]) simp_all
qed

lemma exact_fuzz_state:
  "exact_gen (arbitrary_fuzz_state A C G) (drawable_state C (reserved_account_ids G)) (bad_seed C)"
proof (rule exact_genI)
  have keys: "contract_gen (arbitrary_fuzz_state A C G) (\<lambda>r. \<forall>a\<in>set r. drawable_private_key C (fa_private_key a)) (bad_seed C)"
    unfolding arbitrary_fuzz_state_def
    by (rule contract_gbind [OF contract_draw_below]) (auto intro!: fuzz_state_loop_keys simp del: fuzz_state_loop.simps)
  have empty: "contract_gen (arbitrary_fuzz_state A C G)
      (\<lambda>r. r = [] \<longrightarrow> (\<exists>k. drawable_private_key C k \<and> account_id_for_key C k \<in> set (reserved_account_ids G))) (bad_seed C)"
    unfolding arbitrary_fuzz_state_def
    by (rule contract_gbind [OF contract_draw_below]) (auto intro!: fuzz_state_loop_empty simp del: fuzz_state_loop.simps)
  show "contract_gen (arbitrary_fuzz_state A C G) (drawable_state C (reserved_account_ids G)) (bad_seed C)"
    by (rule contract_weaken [OF contract_conj [OF contract_fuzz_state contract_conj [OF keys empty]]])
      (auto simp: drawable_state_def drawable_fuzz_state_def)
  show "reaches (arbitrary_fuzz_state A C G) accs" if "drawable_state C (reserved_account_ids G) accs" for accs
    using that empty_state_reached fuzz_state_reached by (cases "accs = []") (auto simp: drawable_state_def)
qed

lemma exact_draw_index: "0 < n \<Longrightarrow> n \<le> 256 \<Longrightarrow> exact_gen (draw_index A n) (\<lambda>i. i < n) Q"
  using exact_draw_below [OF _ _ any_u8, of n] by (simp add: draw_index_def draw_below_def checked_rem_def glift_def)

lemma exact_fuzz_native_transfer:
  assumes "length accs \<le> 256"
  shows "exact_gen (arb_fuzz_native_transfer A C accs) (correlated_transfer C accs) (\<lambda>_. False)"
proof (rule exact_genI [OF contract_fuzz_native_transfer])
  fix tx assume "correlated_transfer C accs tx"
  then obtain x y n a where x: "x \<in> set accs" and y: "y \<in> set accs"
    and tx: "tx = create_transfer C (fa_account_id x) n (fa_account_id y) a (fa_private_key x)"
    by (auto simp: correlated_transfer_def)
  from x y obtain i j where i: "i < length accs" "accs ! i = x" and j: "j < length accs" "accs ! j = y"
    by (auto simp: in_set_conv_nth)
  have pos: "0 < length accs" using x by auto
  note idx = exact_gen.reached [OF exact_draw_index [OF pos assms]]
  have ne: "accs \<noteq> []" using x by auto
  show "reaches (arb_fuzz_native_transfer A C accs) tx"
    unfolding arb_fuzz_native_transfer_def if_not_P [OF ne]
    by (intro reaches_gbind [OF idx [OF i(1)]] reaches_gbind [OF idx [OF j(1)]]
        reaches_gbind [OF reaches_glift [of _ x]] reaches_gbind [OF reaches_glift [of _ y]]
        reaches_gbind [OF reaches_prim [OF any_bool], of False] reaches_gbind [of _ "(n, a)"])
      (auto simp: index_def i j tx intro!: reaches_gret reaches_gbind [OF reaches_prim [OF any_u128]])
qed

end

end
