(* ===== verification/Target_Coverage.thy ===== *)
theory Target_Coverage
  imports Target_Returns Coverage
begin

text \<open>
  Completeness of whole targets: on replayable input a target that reads its subject through exact
  generators returns on every input exactly when its checks hold for every drawable subject. The
  lemmas turn the verdicts of single checks into statements about the fuzz targets themselves.
\<close>

definition always_returns :: "('u, 'a) gen \<Rightarrow> bool" where
  "always_returns g \<longleftrightarrow> (\<forall>u. \<exists>a. fst (g u) = Drawn a)"

lemma always_returnsI: "contract_gen g P (\<lambda>_. False) \<Longrightarrow> unfailing g \<Longrightarrow> always_returns g"
proof -
  assume "contract_gen g P (\<lambda>_. False)" "unfailing g"
  from verdict_returns [OF this] have "\<exists>a. fst (g u) = Drawn a \<and> P a" for u by simp
  then show "always_returns g" unfolding always_returns_def by blast
qed

lemma can_panic_not_returns: "can_panic g p \<Longrightarrow> \<not> always_returns g"
  unfolding always_returns_def can_panic_def by (metis draw.distinct(3))

lemma outcome_unit_cases: "r \<noteq> Inr () \<Longrightarrow> \<exists>p. r = Inl p" for r :: "unit outcome"
  by (cases r) auto

subsection \<open>Programs judged by a condition\<close>

text \<open>\<open>judged g safe\<close>: \<open>g\<close> never panics if \<open>safe\<close> holds, and panics on some input if it does not.\<close>

definition judged :: "('u, 'a) gen \<Rightarrow> bool \<Rightarrow> bool" where
  "judged g safe \<longleftrightarrow> (safe \<longrightarrow> contract_gen g (\<lambda>_. True) (\<lambda>_. False)) \<and> (\<not> safe \<longrightarrow> (\<exists>p. can_panic g p))"

lemma judgedI:
  "(safe \<Longrightarrow> contract_gen g (\<lambda>_. True) (\<lambda>_. False)) \<Longrightarrow> (\<not> safe \<Longrightarrow> \<exists>p. can_panic g p) \<Longrightarrow> judged g safe"
  by (simp add: judged_def)

lemma judged_returns: "judged g safe \<Longrightarrow> unfailing g \<Longrightarrow> always_returns g \<longleftrightarrow> safe"
  unfolding judged_def using always_returnsI can_panic_not_returns by blast

lemma judged_gret: "judged (gret x) True"
  by (rule judgedI) (auto intro: contract_gret)

lemma judged_check: "judged (glift r) (r = Inr ())" for r :: "unit outcome"
proof (rule judgedI)
  show "r \<noteq> Inr () \<Longrightarrow> \<exists>p. can_panic (glift r) p" using outcome_unit_cases [of r] by (blast intro: can_panic_glift)
qed (rule glift_ok)

lemma judged_then:
  fixes r :: "unit outcome"
  assumes "r = Inr () \<Longrightarrow> judged h safe"
  shows "judged (gbind (glift r) (\<lambda>_. h)) (r = Inr () \<and> safe)"
proof (cases "r = Inr ()")
  case True
  with assms show ?thesis by (simp add: glift_def)
next
  case False
  with judged_check [of r] show ?thesis by (auto simp: judged_def intro: can_panic_first)
qed

lemma judged_glift:
  assumes "\<And>x. r = Inr x \<Longrightarrow> judged (h x) (safe x)"
  shows "judged (gbind (glift r) h) (\<exists>x. r = Inr x \<and> safe x)"
proof (cases r)
  case (Inl p)
  then show ?thesis by (auto intro!: judgedI can_panic_first can_panic_glift)
next
  case (Inr x)
  with assms show ?thesis by (simp add: glift_def)
qed

lemma judged_cong: "judged g safe \<Longrightarrow> safe \<longleftrightarrow> safe' \<Longrightarrow> judged g safe'"
  by simp

lemma judged_if: "(c \<Longrightarrow> judged g safe) \<Longrightarrow> (\<not> c \<Longrightarrow> judged h safe') \<Longrightarrow>
    judged (if c then g else h) ((c \<longrightarrow> safe) \<and> (\<not> c \<longrightarrow> safe'))"
  by simp

text \<open>Drawing a value: the rest must be safe for each one that can be drawn.\<close>

lemma judged_gbind:
  assumes g: "exact_gen g P (\<lambda>_. False)" and body: "\<And>x. P x \<Longrightarrow> judged (body x) (safe x)"
  shows "judged (gbind g body) (\<forall>x. P x \<longrightarrow> safe x)"
proof (rule judgedI)
  assume "\<forall>x. P x \<longrightarrow> safe x"
  with body show "contract_gen (gbind g body) (\<lambda>_. True) (\<lambda>_. False)"
    unfolding judged_def by (intro contract_gbind [OF exact_gen.axioms(1) [OF g]]) simp
next
  assume "\<not> (\<forall>x. P x \<longrightarrow> safe x)"
  then obtain x where x: "P x" "\<not> safe x" by blast
  with body obtain p where "can_panic (body x) p" unfolding judged_def by blast
  then show "\<exists>p. can_panic (gbind g body) p" using can_panic_gbind [OF exact_gen.reached [OF g x(1)]] by blast
qed

lemma judged_draw:
  assumes g: "exact_gen g P (\<lambda>_. False)" and body: "\<And>x. P x \<Longrightarrow> judged (body x) (safe x)"
  shows "judged (gbind (gcatch g) (\<lambda>r. case r of Inl _ \<Rightarrow> gret () | Inr x \<Rightarrow> body x)) (\<forall>x. P x \<longrightarrow> safe x)"
proof (rule judgedI)
  assume "\<forall>x. P x \<longrightarrow> safe x"
  with body show "contract_gen (gbind (gcatch g) (\<lambda>r. case r of Inl _ \<Rightarrow> gret () | Inr x \<Rightarrow> body x)) (\<lambda>_. True) (\<lambda>_. False)"
    unfolding judged_def
    by (intro contract_gbind [OF contract_gcatch [OF exact_gen.axioms(1) [OF g]]] contract_sum_case contract_gret) auto
next
  assume "\<not> (\<forall>x. P x \<longrightarrow> safe x)"
  then obtain x where x: "P x" "\<not> safe x" by blast
  with body obtain p where "can_panic (body x) p" unfolding judged_def by blast
  then have "can_panic (gbind (gcatch g) (\<lambda>r. case r of Inl _ \<Rightarrow> gret () | Inr x \<Rightarrow> body x)) p"
    by (intro can_panic_gbind [OF reaches_gcatch [OF exact_gen.reached [OF g x(1)]]]) simp
  then show "\<exists>p. can_panic (gbind (gcatch g) (\<lambda>r. case r of Inl _ \<Rightarrow> gret () | Inr x \<Rightarrow> body x)) p" ..
qed

text \<open>Drawing two values at once.\<close>

lemma contract_option_case:
  "(r = None \<Longrightarrow> contract_gen g P Q) \<Longrightarrow> (\<And>a b. r = Some (a, b) \<Longrightarrow> contract_gen (h a b) P Q) \<Longrightarrow>
   contract_gen (case r of None \<Rightarrow> g | Some (a, b) \<Rightarrow> h a b) P Q"
  by (cases r) auto

lemma reaches_gboth: "reaches g a \<Longrightarrow> reaches h b \<Longrightarrow> reaches (gboth g h) (Some (a, b))"
  unfolding gboth_def
  by (rule reaches_gbind [OF reaches_gcatch], assumption, rule reaches_gbind [OF reaches_gcatch], assumption)
    (simp add: reaches_gret)

lemma judged_both:
  assumes g: "exact_gen g P (\<lambda>_. False)" and h: "exact_gen h P' (\<lambda>_. False)"
    and body: "\<And>a b. P a \<Longrightarrow> P' b \<Longrightarrow> judged (body a b) (safe a b)"
  shows "judged (gbind (gboth g h) (\<lambda>r. case r of None \<Rightarrow> gret () | Some (a, b) \<Rightarrow> body a b))
    (\<forall>a b. P a \<longrightarrow> P' b \<longrightarrow> safe a b)"
proof (rule judgedI)
  assume "\<forall>a b. P a \<longrightarrow> P' b \<longrightarrow> safe a b"
  with body show "contract_gen (gbind (gboth g h) (\<lambda>r. case r of None \<Rightarrow> gret () | Some (a, b) \<Rightarrow> body a b)) (\<lambda>_. True) (\<lambda>_. False)"
    unfolding judged_def
    by (intro contract_gbind [OF contract_gboth [OF exact_gen.axioms(1) [OF g] exact_gen.axioms(1) [OF h]]]
        contract_option_case contract_gret) auto
next
  assume "\<not> (\<forall>a b. P a \<longrightarrow> P' b \<longrightarrow> safe a b)"
  then obtain a b where ab: "P a" "P' b" "\<not> safe a b" by blast
  with body obtain p where "can_panic (body a b) p" unfolding judged_def by blast
  then have "can_panic (gbind (gboth g h) (\<lambda>r. case r of None \<Rightarrow> gret () | Some (a, b) \<Rightarrow> body a b)) p"
    by (intro can_panic_gbind [OF reaches_gboth [OF exact_gen.reached [OF g ab(1)] exact_gen.reached [OF h ab(2)]]]) simp
  then show "\<exists>p. can_panic (gbind (gboth g h) (\<lambda>r. case r of None \<Rightarrow> gret () | Some (a, b) \<Rightarrow> body a b)) p" ..
qed

text \<open>One part after the other, when some input takes the first part through.\<close>

lemma judged_seq:
  assumes "judged g safe" and "safe \<Longrightarrow> reaches g x" and "judged h safe'"
  shows "judged (gbind g (\<lambda>_. h)) (safe \<and> safe')"
proof (rule judgedI)
  assume "safe \<and> safe'"
  with assms(1,3) show "contract_gen (gbind g (\<lambda>_. h)) (\<lambda>_. True) (\<lambda>_. False)"
    unfolding judged_def by (intro contract_gbind_any) simp_all
next
  assume unsafe: "\<not> (safe \<and> safe')"
  show "\<exists>p. can_panic (gbind g (\<lambda>_. h)) p"
  proof (cases safe)
    case True
    with unsafe assms(3) obtain p where "can_panic h p" unfolding judged_def by blast
    with can_panic_gbind [OF assms(2) [OF True], of "\<lambda>_. h"] show ?thesis by blast
  next
    case False
    with assms(1) show ?thesis unfolding judged_def by (blast intro: can_panic_first)
  qed
qed

text \<open>A target that draws one subject and checks it.\<close>

lemma checked_target_iff:
  assumes "exact_gen g P (\<lambda>_. False)"
  shows "always_returns (gbind (gcatch g) (\<lambda>r. case r of Inl _ \<Rightarrow> gret () | Inr x \<Rightarrow> glift (check x))) \<longleftrightarrow>
    (\<forall>x. P x \<longrightarrow> check x = Inr ())"
  by (rule judged_returns [OF judged_draw [OF assms judged_check]]) (intro unfailing_intros)

lemma exact_no_bad_seed:
  assumes "exact_gen g P (bad_seed C)" and "private_key_try_new C seed_bytes \<noteq> None"
  shows "exact_gen g P (\<lambda>_. False)"
  using assms(2) by (intro exact_weaken [OF assms(1)]) (simp add: bad_seed_def)

subsection \<open>Signatures\<close>

text \<open>A signature under one drawable key verifies exactly under the public keys equal to its own.\<close>

definition signatures_exact :: "signature_api \<Rightarrow> crypto \<Rightarrow> bool" where
  "signatures_exact S C \<longleftrightarrow> (\<forall>k1 k2 msg. drawable_private_key C k1 \<longrightarrow> drawable_private_key C k2 \<longrightarrow> length msg = 32 \<longrightarrow>
     (signature_is_valid_for S (signature_new S k1 msg) msg (public_key_new_from_private_key C k2) \<longleftrightarrow>
      public_key_new_from_private_key C k1 = public_key_new_from_private_key C k2))"

lemma signature_checks_exact_iff:
  "signatures_exact S C \<longleftrightarrow>
    (\<forall>k msg. drawable_private_key C k \<longrightarrow> length msg = 32 \<longrightarrow> sign_verify_check S C k msg = Inr ()) \<and>
    (\<forall>k1 k2 msg. drawable_private_key C k1 \<longrightarrow> drawable_private_key C k2 \<longrightarrow> length msg = 32 \<longrightarrow>
       cross_key_check S C k1 k2 msg = Inr ())"
  unfolding signatures_exact_def sign_verify_check_def cross_key_check_def Let_def
  by (auto simp: ensure_Inr_iff split: if_splits) metis+

lemma sound_signatures_exact: "sound_signatures S C \<Longrightarrow> signatures_exact S C"
proof -
  assume sound: "sound_signatures S C"
  have "drawable_private_key C k \<Longrightarrow> valid_private_key C k" for k
    by (auto simp: drawable_private_key_def valid_private_key_def)
  moreover from this have "drawable_private_key C k \<Longrightarrow> valid_public_key C (public_key_new_from_private_key C k)" for k
    by (auto simp: valid_public_key_def)
  ultimately show ?thesis using sound unfolding sound_signatures_def signatures_exact_def by metis
qed

context replayable
begin

lemma contract_msg: "contract_gen (draw_msg A) (\<lambda>m. length m = 32) Q"
  unfolding draw_msg_def
  by (rule contract_gunwrap_or [OF contract_weaken [OF exact_gen.axioms(1) [OF exact_draw [OF any_bytes32]]]]) auto

lemma reaches_msg: "length m = 32 \<Longrightarrow> reaches (draw_msg A) m"
  unfolding draw_msg_def by (rule reaches_gunwrap_or [OF reaches_prim [OF any_bytes32]]) simp

lemma exact_msg: "exact_gen (draw_msg A) (\<lambda>m. length m = 32) Q"
  by (rule exact_genI [OF contract_msg reaches_msg])

lemma signature_target_iff:
  assumes seed: "private_key_try_new C seed_bytes \<noteq> None"
  shows "always_returns (fuzz_signature_verification S A C) \<longleftrightarrow> signatures_exact S C"
proof -
  note key = exact_no_bad_seed [OF exact_private_key seed] and pk = exact_no_bad_seed [OF exact_public_key seed]
  let ?sign = "\<forall>k. drawable_private_key C k \<longrightarrow> (\<forall>msg. length msg = 32 \<longrightarrow> sign_verify_check S C k msg = Inr ())"
  let ?first = "gbind (gcatch (arb_private_key A C)) (\<lambda>r. case r of Inl _ \<Rightarrow> gret ()
      | Inr k \<Rightarrow> gbind (draw_msg A) (\<lambda>msg. glift (sign_verify_check S C k msg)))"
  let ?second = "gbind (gboth (arb_signature A) (arb_public_key A C)) (\<lambda>r. case r of None \<Rightarrow> gret ()
      | Some (sig, pk) \<Rightarrow> gbind (draw_msg A) (\<lambda>msg. let _ = signature_is_valid_for S sig msg pk in gret ()))"
  let ?third = "gbind (gboth (arb_private_key A C) (arb_private_key A C)) (\<lambda>r. case r of None \<Rightarrow> gret ()
      | Some (k1, k2) \<Rightarrow> gbind (draw_msg A) (\<lambda>msg. glift (cross_key_check S C k1 k2 msg)))"
  have target: "fuzz_signature_verification S A C = gbind ?first (\<lambda>_. gbind ?second (\<lambda>_. ?third))"
    unfolding fuzz_signature_verification_def gbind_assoc ..
  have "length seed_bytes = 32" by (simp add: seed_bytes_def)
  with seed obtain k where k: "drawable_private_key C k" unfolding drawable_private_key_def by blast
  have m: "length (replicate 32 0 :: bytes) = 32" by simp
  have first: "reaches ?first ()" if ?sign
    by (rule reaches_gbind [OF reaches_gcatch [OF exact_gen.reached [OF key k]]], simp,
        rule reaches_gbind [OF reaches_msg [OF m]], rule reaches_glift) (use that k m in blast)
  have sig: "length (sig_value \<lparr>sig_value = replicate 64 0\<rparr>) = 64" by simp
  have "drawable_public_key C (public_key_new_from_private_key C k)" using k by (auto simp: drawable_public_key_def)
  from reaches_gboth [OF exact_gen.reached [OF exact_signature sig] exact_gen.reached [OF exact_public_key this]]
  have second: "reaches ?second ()"
    by (rule reaches_gbind) (simp add: reaches_gbind [OF reaches_msg [OF m]] reaches_gret)
  have second_ok: "judged ?second True"
    by (rule judged_cong [OF judged_both [OF exact_signature pk judged_gbind [OF exact_msg]]], unfold Let_def, rule judged_gret) simp
  have "judged (fuzz_signature_verification S A C) (?sign \<and> True \<and>
      (\<forall>k1 k2. drawable_private_key C k1 \<longrightarrow> drawable_private_key C k2 \<longrightarrow>
        (\<forall>msg. length msg = 32 \<longrightarrow> cross_key_check S C k1 k2 msg = Inr ())))"
    unfolding target
    by (intro judged_seq [OF _ first] judged_seq [OF second_ok second] judged_draw [OF key]
        judged_both [OF key key] judged_gbind [OF exact_msg] judged_check)
  from judged_returns [OF this unfailing_signature] show ?thesis unfolding signature_checks_exact_iff by simp
qed

end

subsection \<open>Witness sets\<close>

text \<open>
  A witness set is valid for the message it was built for, whatever up to three keys sign it, and a
  set signed by one key is valid for no message with another encoding.
\<close>

definition witnesses_exact :: "witness_api \<Rightarrow> crypto \<Rightarrow> bool" where
  "witnesses_exact W C \<longleftrightarrow>
     (\<forall>m keys. drawable_message m \<longrightarrow> length keys \<le> 3 \<longrightarrow> (\<forall>k\<in>set keys. drawable_private_key C k) \<longrightarrow>
        witness_is_valid_for W (witness_for_message W m keys) m) \<and>
     (\<forall>m1 m2 k b1 b2. drawable_message m1 \<longrightarrow> drawable_message m2 \<longrightarrow> drawable_private_key C k \<longrightarrow>
        pub_message_to_vec W m1 = Some b1 \<longrightarrow> pub_message_to_vec W m2 = Some b2 \<longrightarrow> b1 \<noteq> b2 \<longrightarrow>
        \<not> witness_is_valid_for W (witness_for_message W m1 [k]) m2)"

lemma witness_checks_exact_iff:
  "witnesses_exact W C \<longleftrightarrow>
     (\<forall>m keys. drawable_message m \<longrightarrow> length keys \<le> 3 \<longrightarrow> (\<forall>k\<in>set keys. drawable_private_key C k) \<longrightarrow>
        correct_verification W m keys = Inr ()) \<and>
     (\<forall>m1 m2 k. drawable_message m1 \<longrightarrow> drawable_message m2 \<longrightarrow> drawable_private_key C k \<longrightarrow>
        messages_are_distinct W m1 m2 \<longrightarrow> message_isolation W m1 m2 k = Inr ())"
  unfolding witnesses_exact_def correct_verification_def message_isolation_def messages_are_distinct_def
  by (auto simp: ensure_Inr_iff split: option.splits)

lemma sound_witnesses_exact: "sound_witnesses W C \<Longrightarrow> witnesses_exact W C"
proof -
  assume sound: "sound_witnesses W C"
  have valid: "drawable_private_key C k \<Longrightarrow> valid_private_key C k" for k
    by (auto simp: drawable_private_key_def valid_private_key_def)
  show ?thesis
    unfolding witnesses_exact_def
  proof (intro conjI allI impI)
    fix m keys assume "\<forall>k\<in>set keys. drawable_private_key C k"
    with sound valid show "witness_is_valid_for W (witness_for_message W m keys) m"
      by (cases "keys = []") (simp_all add: sound_witnesses_def)
  next
    fix m1 m2 k b1 b2
    assume "drawable_private_key C k" and "pub_message_to_vec W m1 = Some b1" "pub_message_to_vec W m2 = Some b2" "b1 \<noteq> b2"
    with sound valid show "\<not> witness_is_valid_for W (witness_for_message W m1 [k]) m2"
      by (simp add: sound_witnesses_def)
  qed
qed

lemma drawable_message_exists: "\<exists>m. drawable_message m"
  by (rule exI [of _ "\<lparr>msg_program_account_id = AccountId (replicate 32 0), msg_shard_selectors = [], msg_nonces = [],
        msg_instruction_data = [], msg_fee = None\<rparr>"]) (simp add: drawable_message_def message_shape_def)

lemma reaches_take_until_error:
  "(\<And>x. x \<in> set xs \<Longrightarrow> reaches g x) \<Longrightarrow> reaches (take_until_error (length xs) g) xs"
proof (induction xs)
  case (Cons x xs)
  then show ?case
    by (auto intro!: reaches_gbind [OF reaches_gcatch [of g x]] reaches_gbind [of _ xs] reaches_gret)
qed (simp add: reaches_gret)

context replayable
begin

lemma exact_key_list:
  assumes "exact_gen g P (\<lambda>_. False)"
  shows "exact_gen (gbind (gunwrap_or 0 (prim (draw_u8 A))) (\<lambda>b. take_until_error (unat b mod 4) g))
    (\<lambda>xs. length xs \<le> 3 \<and> (\<forall>x\<in>set xs. P x)) (\<lambda>_. False)"
proof (rule exact_genI)
  have short: "k \<le> 3" if "k \<le> unat b mod 4" for k and b :: u8
  proof -
    have "unat b mod 4 < 4" by simp
    with that show ?thesis by linarith
  qed
  show "contract_gen (gbind (gunwrap_or 0 (prim (draw_u8 A))) (\<lambda>b. take_until_error (unat b mod 4) g))
      (\<lambda>xs. length xs \<le> 3 \<and> (\<forall>x\<in>set xs. P x)) (\<lambda>_. False)"
    by (rule contract_gbind_any [OF contract_gunwrap_or [OF contract_prim TrueI]],
        rule contract_weaken [OF contract_take_until_error [OF exact_gen.axioms(1) [OF assms]]])
      (auto dest: short)
  fix xs assume xs: "length xs \<le> 3 \<and> (\<forall>x\<in>set xs. P x)"
  then have "unat (of_nat (length xs) :: u8) mod 4 = length xs" by (simp add: unat_of_nat)
  moreover have "reaches (take_until_error (length xs) g) xs"
    using xs by (intro reaches_take_until_error exact_gen.reached [OF assms]) blast
  ultimately show "reaches (gbind (gunwrap_or 0 (prim (draw_u8 A))) (\<lambda>b. take_until_error (unat b mod 4) g)) xs"
    by (intro reaches_gbind [OF reaches_gunwrap_or [OF reaches_prim [OF any_u8 UNIV_I [of "of_nat (length xs)"]]]]) simp
qed

lemma witness_target_iff:
  assumes seed: "private_key_try_new C seed_bytes \<noteq> None"
  shows "always_returns (fuzz_witness_set_verification W A C) \<longleftrightarrow> witnesses_exact W C"
proof -
  note key = exact_no_bad_seed [OF exact_private_key seed] and msg = exact_pub_tx_message
    and ws = exact_no_bad_seed [OF exact_witness_set seed]
  let ?keys = "gbind (gunwrap_or 0 (prim (draw_u8 A))) (\<lambda>b. take_until_error (unat b mod 4) (arb_private_key A C))"
  let ?correct = "\<forall>m. drawable_message m \<longrightarrow> (\<forall>keys. length keys \<le> 3 \<and> (\<forall>k\<in>set keys. drawable_private_key C k) \<longrightarrow>
      correct_verification W m keys = Inr ())"
  let ?first = "gbind (gboth (arb_witness_set A C) (arb_pub_tx_message A)) (\<lambda>r. case r of None \<Rightarrow> gret () | Some (ws, m) \<Rightarrow> gret ())"
  let ?second = "gbind (gcatch (arb_pub_tx_message A)) (\<lambda>r. case r of Inl _ \<Rightarrow> gret ()
      | Inr m \<Rightarrow> gbind ?keys (\<lambda>keys. glift (correct_verification W m keys)))"
  let ?third = "gbind (gboth (arb_pub_tx_message A) (arb_pub_tx_message A)) (\<lambda>r. case r of None \<Rightarrow> gret ()
      | Some (m1, m2) \<Rightarrow> if messages_are_distinct W m1 m2
          then gbind (gcatch (arb_private_key A C)) (\<lambda>r. case r of Inl _ \<Rightarrow> gret () | Inr k \<Rightarrow> glift (message_isolation W m1 m2 k))
          else gret ())"
  have unit: "(case r of None \<Rightarrow> gret () | Some (ws, m) \<Rightarrow> gret ()) = gret ()" for r :: "(witness_set \<times> pub_message) option"
    by (simp split: option.split)
  have target: "fuzz_witness_set_verification W A C = gbind ?first (\<lambda>_. gbind ?second (\<lambda>_. ?third))"
    unfolding fuzz_witness_set_verification_def Let_def gbind_assoc unit gbind_gret ..
  obtain m where m: "drawable_message m" using drawable_message_exists by blast
  have "drawable_witness_set C \<lparr>ws_signatures_and_public_keys = []\<rparr>" by (simp add: drawable_witness_set_def)
  from reaches_gboth [OF exact_gen.reached [OF ws this] exact_gen.reached [OF msg m]]
  have first: "reaches ?first ()" by (rule reaches_gbind) (simp add: reaches_gret)
  have second: "reaches ?second ()" if ?correct
    by (rule reaches_gbind [OF reaches_gcatch [OF exact_gen.reached [OF msg m]]], simp,
        rule reaches_gbind [OF exact_gen.reached [OF exact_key_list [OF key], of "[]"]], simp, rule reaches_glift)
      (use that m in simp)
  have "judged (fuzz_witness_set_verification W A C)
      ((\<forall>ws m. drawable_witness_set C ws \<longrightarrow> drawable_message m \<longrightarrow> True) \<and> ?correct \<and>
       (\<forall>m1 m2. drawable_message m1 \<longrightarrow> drawable_message m2 \<longrightarrow>
          (messages_are_distinct W m1 m2 \<longrightarrow> (\<forall>k. drawable_private_key C k \<longrightarrow> message_isolation W m1 m2 k = Inr ())) \<and>
          (\<not> messages_are_distinct W m1 m2 \<longrightarrow> True)))"
    unfolding target
    by (intro judged_seq [OF _ first] judged_seq [OF _ second] judged_draw [OF msg] judged_both [OF ws msg] judged_both [OF msg msg]
        judged_draw [OF key] judged_gbind [OF exact_key_list [OF key]] judged_check judged_if judged_gret) simp_all
  from judged_returns [OF this unfailing_witness] show ?thesis unfolding witness_checks_exact_iff by simp blast
qed

end

subsection \<open>Blocks, stateless checks and encodings\<close>

text \<open>
  What the block target asserts of one block: the conversion keeps the hash, and each change of a
  header field and the reversal of the transactions changes it.
\<close>

definition hash_binds :: "'block block_api \<Rightarrow> hashable_block_data \<Rightarrow> bool" where
  "hash_binds B b \<longleftrightarrow>
     pending_hash B (hashable_from_block B (into_pending_block B b)) = pending_hash B b \<and>
     pending_hash B (b\<lparr>hbd_block_id := hbd_block_id b + 1\<rparr>) \<noteq> pending_hash B b \<and>
     pending_hash B (b\<lparr>hbd_prev_block_hash := (hd (hbd_prev_block_hash b) XOR 0xFF) # tl (hbd_prev_block_hash b)\<rparr>)
       \<noteq> pending_hash B b \<and>
     pending_hash B (b\<lparr>hbd_timestamp := hbd_timestamp b + 1\<rparr>) \<noteq> pending_hash B b \<and>
     (2 \<le> length (hbd_transactions b) \<longrightarrow>
       (\<exists>x y. lee_transaction_to_vec B (hd (hbd_transactions b)) = Some x \<and>
          lee_transaction_to_vec B (last (hbd_transactions b)) = Some y \<and>
          (x \<noteq> y \<longrightarrow> pending_hash B (b\<lparr>hbd_transactions := rev (hbd_transactions b)\<rparr>) \<noteq> pending_hash B b)))"

lemma block_checks_binds: "hbd_prev_block_hash b \<noteq> [] \<Longrightarrow> block_checks B b = Inr () \<longleftrightarrow> hash_binds B b"
  by (cases "hbd_prev_block_hash b") (simp_all add: block_checks_iff reorder_check_iff hash_binds_def)

lemma drawable_block_prev: "drawable_block C b \<Longrightarrow> hbd_prev_block_hash b \<noteq> []"
  by (auto simp: drawable_block_def)

lemma committing_hash_binds: "committing_hash B \<Longrightarrow> hbd_prev_block_hash b \<noteq> [] \<Longrightarrow> hash_binds B b"
  using block_checks_ok block_checks_binds by blast

text \<open>A hash that does not see the order of the transactions misses every block of two different ones.\<close>

definition order_blind :: "'block block_api \<Rightarrow> bool" where
  "order_blind B \<longleftrightarrow> (\<forall>b1 b2. b1\<lparr>hbd_transactions := []\<rparr> = b2\<lparr>hbd_transactions := []\<rparr> \<longrightarrow>
     mset (hbd_transactions b1) = mset (hbd_transactions b2) \<longrightarrow> pending_hash B b1 = pending_hash B b2)"

lemma order_blind_unbound:
  assumes "order_blind B" and "2 \<le> length (hbd_transactions b)"
    and "lee_transaction_to_vec B (hd (hbd_transactions b)) \<noteq> lee_transaction_to_vec B (last (hbd_transactions b))"
  shows "\<not> hash_binds B b"
proof -
  have "pending_hash B (b\<lparr>hbd_transactions := rev (hbd_transactions b)\<rparr>) = pending_hash B b"
    by (rule assms(1) [unfolded order_blind_def, rule_format]) simp_all
  with assms(2,3) show ?thesis by (auto simp: hash_binds_def)
qed

context replayable
begin

lemma block_target_iff:
  assumes "private_key_try_new C seed_bytes \<noteq> None"
  shows "always_returns (fuzz_block_verification B A C) \<longleftrightarrow> (\<forall>b. drawable_block C b \<longrightarrow> hash_binds B b)"
proof -
  have "always_returns (fuzz_block_verification B A C) \<longleftrightarrow> (\<forall>b. drawable_block C b \<longrightarrow> block_checks B b = Inr ())"
    unfolding fuzz_block_verification_def
    by (rule checked_target_iff [OF exact_no_bad_seed [OF exact_hashable_block_data assms]])
  then show ?thesis by (simp add: block_checks_binds drawable_block_prev)
qed

lemma order_blind_caught:
  assumes "private_key_try_new C seed_bytes \<noteq> None" and "order_blind B"
    and "drawable_lee_tx C x" and "drawable_lee_tx C y" and "lee_transaction_to_vec B x \<noteq> lee_transaction_to_vec B y"
  shows "\<not> always_returns (fuzz_block_verification B A C)"
proof -
  let ?b = "\<lparr>hbd_block_id = 0, hbd_prev_block_hash = replicate 32 0, hbd_timestamp = 0, hbd_transactions = [x, y]\<rparr>"
  have "drawable_block C ?b" using assms(3,4) by (simp add: drawable_block_def)
  moreover have "\<not> hash_binds B ?b" using assms(5) by (intro order_blind_unbound [OF assms(2)]) simp_all
  ultimately show ?thesis using block_target_iff [OF assms(1)] by blast
qed

lemma encoding_target_iff:
  assumes seed: "private_key_try_new C seed_bytes \<noteq> None" and new: "surj new"
  shows "(\<forall>data. \<exists>a. fst (fuzz_encoding_roundtrip A C to_bytes from_bytes data (new data)) = Drawn a) \<longleftrightarrow>
    (\<forall>tx. drawable_public_tx C tx \<longrightarrow> is_ok (from_bytes (to_bytes tx))) \<and>
    (\<forall>data tx. from_bytes data = Inr tx \<longrightarrow> to_bytes tx = data)"
proof (intro iffI conjI allI impI)
  note tx = exact_no_bad_seed [OF exact_public_transaction seed]
  fix data
  assume ok: "(\<forall>tx. drawable_public_tx C tx \<longrightarrow> is_ok (from_bytes (to_bytes tx))) \<and>
    (\<forall>data tx. from_bytes data = Inr tx \<longrightarrow> to_bytes tx = data)"
  have trip: "public_roundtrip to_bytes from_bytes tx = Inr ()" if "drawable_public_tx C tx" for tx
    using ok that unfolding public_roundtrip_iff by (metis is_ok_iff)
  have canon: "canonical_check to_bytes from_bytes data = Inr ()"
    using ok unfolding canonical_iff by blast
  have "contract_gen (fuzz_encoding_roundtrip A C to_bytes from_bytes data) (\<lambda>_. True) (\<lambda>_. False)"
    unfolding fuzz_encoding_roundtrip_def
    by (rule contract_gbind [OF contract_gcatch [OF exact_gen.axioms(1) [OF tx]]])
      (auto intro!: contract_gbind_any glift_ok trip canon split: sum.splits)
  from verdict_returns [OF this unfailing_encoding_roundtrip]
  show "\<exists>a. fst (fuzz_encoding_roundtrip A C to_bytes from_bytes data (new data)) = Drawn a" by blast
next
  assume returns: "\<forall>data. \<exists>a. fst (fuzz_encoding_roundtrip A C to_bytes from_bytes data (new data)) = Drawn a"
  fix tx assume "drawable_public_tx C tx"
  then have "reaches (gcatch (arb_public_transaction A C)) (Inr tx)"
    by (rule reaches_gcatch [OF exact_gen.reached [OF exact_public_transaction]])
  then obtain u0 where "gcatch (arb_public_transaction A C) u0 = (Drawn (Inr tx), new [])" by (auto simp: reaches_def)
  moreover obtain data where "u0 = new data" using new by (meson surjD)
  ultimately have "public_roundtrip to_bytes from_bytes tx = Inr ()"
    using returns [rule_format, of data]
    by (cases "public_roundtrip to_bytes from_bytes tx")
      (auto simp: fuzz_encoding_roundtrip_def gbind_def glift_def gpanic_def)
  then show "is_ok (from_bytes (to_bytes tx))" by (auto simp: public_roundtrip_iff)
next
  assume returns: "\<forall>data. \<exists>a. fst (fuzz_encoding_roundtrip A C to_bytes from_bytes data (new data)) = Drawn a"
  fix data tx assume dec: "from_bytes data = Inr tx"
  show "to_bytes tx = data"
  proof (rule ccontr)
    assume "to_bytes tx \<noteq> data"
    with dec have "canonical_check to_bytes from_bytes data = Inl (Violation ''NonCanonical'')"
      by (auto simp: canonical_check_def ensure_def)
    then have "\<nexists>a. fst (fuzz_encoding_roundtrip A C to_bytes from_bytes data u) = Drawn a" for u
      by (auto simp: fuzz_encoding_roundtrip_def gbind_def glift_def gpanic_def split: prod.splits draw.splits)
    with returns show False by blast
  qed
qed

text \<open>The stateless check of the target is judged on every drawable transaction; the raw bytes change nothing.\<close>

lemma stateless_target_iff:
  assumes "private_key_try_new C seed_bytes \<noteq> None"
  shows "always_returns (fuzz_stateless_verification L K A C data) \<longleftrightarrow>
    (\<forall>raw tx. drawable_lee_tx C raw \<longrightarrow> stateless_check L raw = Inr tx \<longrightarrow> is_ok (stateless_check L tx))"
proof -
  have tail: "(case from_slice K data of Inl _ \<Rightarrow> gret () | Inr tx \<Rightarrow> (let _ = stateless_check L tx in gret ())) = gret ()"
    by (cases "from_slice K data") simp_all
  have unit: "gbind (glift r) (\<lambda>_. gret ()) = glift r" for r :: "unit outcome"
    by (cases r) (auto simp: glift_def gbind_def gpanic_def gret_def)
  have "fuzz_stateless_verification L K A C data =
      gbind (gcatch (arb_lee_transaction A C)) (\<lambda>r. case r of Inl _ \<Rightarrow> gret () | Inr tx \<Rightarrow> glift (idempotency_check L tx))"
    unfolding fuzz_stateless_verification_def arbitrary_transaction_def tail unit
    by (rule arg_cong [where f = "gbind (gcatch (arb_lee_transaction A C))"]) (auto simp: glift_def split: sum.split)
  then show ?thesis
    using checked_target_iff [OF exact_no_bad_seed [OF exact_lee_transaction assms], of "idempotency_check L"]
    by (simp add: idempotency_iff)
qed

end

end
