(* ===== verification/Lockstep_Coverage.thy ===== *)
theory Lockstep_Coverage
  imports Target_Coverage
begin

text \<open>
  Completeness of the lockstep target. A target run is a schedule of commands, every short schedule
  can be drawn (\<open>lockstep_target_iff\<close>), and all schedules pass exactly when the chain simulates the
  reference ledger step by step (\<open>simulates\<close>, \<open>simulates_iff\<close>): a statement that mentions neither
  commands nor drawing.
\<close>

subsection \<open>Schedules\<close>

text \<open>A schedule run without the fuzzer: the commands in order, up to the first panic.\<close>

fun lockstep_schedule ::
  "('st, 'data, 'err, 'diff) lez \<Rightarrow> crypto \<Rightarrow> fuzz_account list \<Rightarrow> command list \<Rightarrow> 'st lockstep \<Rightarrow>
   'st lockstep outcome" where
  "lockstep_schedule L C accs [] s = Inr s"
| "lockstep_schedule L C accs (cmd # cmds) s =
     obind (lockstep_command L C accs cmd s) (lockstep_schedule L C accs cmds)"

lemma lockstep_schedule_append:
  "lockstep_schedule L C accs (xs @ ys) s = obind (lockstep_schedule L C accs xs s) (lockstep_schedule L C accs ys)"
proof (induction xs arbitrary: s)
  case (Cons x xs)
  have "lockstep_schedule L C accs (xs @ ys) =
      (\<lambda>s. obind (lockstep_schedule L C accs xs s) (lockstep_schedule L C accs ys))"
    by (intro ext) (rule Cons.IH)
  then show ?case by (simp add: obind_assoc)
qed simp

lemma lockstep_command_wf:
  assumes "lockstep_command L C accs cmd s = Inr s'" and "hm_wf (ls_model s)"
  shows "hm_wf (ls_model s')"
  using assms by (cases cmd)
    (auto simp: obind_Inr_iff dest: advance_detects lockstep_transfer_detects split: option.splits prod.splits)

lemma lockstep_schedule_wf:
  "lockstep_schedule L C accs cmds s = Inr s' \<Longrightarrow> hm_wf (ls_model s) \<Longrightarrow> hm_wf (ls_model s')"
  by (induction cmds arbitrary: s) (auto simp: obind_Inr_iff dest: lockstep_command_wf)

text \<open>The driver covers the commands: it never panics and each command can be next.\<close>

definition covers_commands :: "('u, command) gen \<Rightarrow> bool" where
  "covers_commands d \<longleftrightarrow> exact_gen d (\<lambda>_. True) (\<lambda>_. False)"

lemma lockstep_loop_returns:
  assumes d: "covers_commands d" and "\<And>cmds. length cmds \<le> n \<Longrightarrow> is_ok (lockstep_schedule L C accs cmds s)"
  shows "contract_gen (lockstep_loop L C d accs n s) (\<lambda>_. True) (\<lambda>_. False)"
  using assms(2)
proof (induction n arbitrary: s)
  case (Suc n)
  have step: "contract_gen (gbind (glift (lockstep_command L C accs cmd s)) (lockstep_loop L C d accs n)) (\<lambda>_. True) (\<lambda>_. False)"
    for cmd
  proof -
    obtain s1 where s1: "lockstep_command L C accs cmd s = Inr s1"
      using Suc.prems [of "[cmd]"] by (auto simp: is_ok_iff obind_Inr_iff)
    have "is_ok (lockstep_schedule L C accs cmds s1)" if "length cmds \<le> n" for cmds
      using Suc.prems [of "cmd # cmds"] that s1 by simp
    from Suc.IH [OF this] s1 show ?thesis by (simp add: glift_def)
  qed
  show ?case
    unfolding lockstep_loop.simps
    by (rule contract_gbind [OF contract_gcatch [OF exact_gen.axioms(1) [OF d [unfolded covers_commands_def]]]],
        rule contract_sum_case, rule contract_gret, simp, rule step)
qed (auto intro: contract_gret)

lemma lockstep_loop_panics:
  assumes d: "covers_commands d" and "lockstep_schedule L C accs cmds s = Inl p"
  shows "can_panic (lockstep_loop L C d accs (length cmds) s) p"
  using assms(2)
proof (induction cmds arbitrary: s)
  case (Cons cmd cmds)
  have cmd: "reaches (gcatch d) (Inr cmd)"
    by (rule reaches_gcatch [OF exact_gen.reached [OF d [unfolded covers_commands_def] TrueI]])
  show ?case
  proof (cases "lockstep_command L C accs cmd s")
    case (Inl q)
    with Cons.prems have "q = p" by simp
    with Inl show ?thesis
      by (simp, intro can_panic_gbind [OF cmd]) (auto intro!: can_panic_first can_panic_glift)
  next
    case (Inr s1)
    with Cons.prems have "can_panic (lockstep_loop L C d accs (length cmds) s1) p" by (intro Cons.IH) simp
    with Inr show ?thesis
      by (simp, intro can_panic_gbind [OF cmd]) (simp add: glift_def)
  qed
qed simp

text \<open>The schedules the target runs from a generated state.\<close>

definition schedules_agree ::
  "('st, 'data, 'err, 'diff) lez \<Rightarrow> crypto \<Rightarrow> ('st, 'data) genesis_api \<Rightarrow> bool" where
  "schedules_agree L C G \<longleftrightarrow> (\<forall>accs cmds. drawable_fuzz_state C (reserved_account_ids G) accs \<longrightarrow>
     2 \<le> length accs \<longrightarrow> length cmds \<le> 31 \<longrightarrow> is_ok (lockstep_schedule L C accs cmds (lockstep_init G accs)))"

context replayable
begin

lemma lockstep_target_panics:
  assumes d: "covers_commands d" and accs: "drawable_fuzz_state C (reserved_account_ids G) accs" "2 \<le> length accs"
    and cmds: "length cmds \<le> 31" "lockstep_schedule L C accs cmds (lockstep_init G accs) = Inl p"
  shows "can_panic (fuzz_stateful_model_lockstep L C G A d) p"
proof -
  have ne: "accs \<noteq> []" using accs(2) by auto
  have count: "unat (of_nat (length cmds) :: u8) mod 32 = length cmds" using cmds(1) by (simp add: unat_of_nat)
  note loop = lockstep_loop_panics [OF d cmds(2)]
  have run: "can_panic (gbind (gunwrap_or 0 (prim (draw_u8 A))) (\<lambda>b.
      gbind (lockstep_loop L C d accs (unat b mod 32) (lockstep_init G accs)) (\<lambda>_. gret ()))) p"
    by (rule can_panic_gbind [OF reaches_gunwrap_or [OF reaches_prim [OF any_u8 UNIV_I]]],
        rule can_panic_first, subst count) (rule loop)
  show ?thesis
    unfolding fuzz_stateful_model_lockstep_def
    by (rule can_panic_gbind [OF reaches_gcatch [OF fuzz_state_reached [OF accs(1) ne]]]) (use accs(2) run in simp)
qed

lemma lockstep_target_iff:
  assumes seed: "private_key_try_new C seed_bytes \<noteq> None" and d: "covers_commands d"
  shows "always_returns (fuzz_stateful_model_lockstep L C G A d) \<longleftrightarrow> schedules_agree L C G"
proof
  assume agree: "schedules_agree L C G"
  have accs: "contract_gen (arbitrary_fuzz_state A C G)
      (\<lambda>accs. accs \<noteq> [] \<longrightarrow> drawable_fuzz_state C (reserved_account_ids G) accs) (\<lambda>_. False)"
  proof
    show "accs \<noteq> [] \<longrightarrow> drawable_fuzz_state C (reserved_account_ids G) accs"
      if "arbitrary_fuzz_state A C G u = (Drawn accs, u')" for u accs u'
      using that fuzz_state_drawn_iff by blast
    show False if "arbitrary_fuzz_state A C G u = (Panicked p, u')" for u p u'
      using contract_gen.panic_ok [OF contract_fuzz_state that] seed by (simp add: bad_seed_def)
  qed
  have "contract_gen (fuzz_stateful_model_lockstep L C G A d) (\<lambda>_. True) (\<lambda>_. False)"
    unfolding fuzz_stateful_model_lockstep_def
  proof (rule contract_gbind [OF contract_gcatch [OF accs]], rule contract_sum_case, rule contract_gret, simp)
    fix r accs assume r: "r = Inr accs"
      and ok: "case r of Inl _ \<Rightarrow> True | Inr accs \<Rightarrow> accs \<noteq> [] \<longrightarrow> drawable_fuzz_state C (reserved_account_ids G) accs"
    show "contract_gen (if length accs < 2 then gret ()
        else gbind (gunwrap_or 0 (prim (draw_u8 A))) (\<lambda>b.
          gbind (lockstep_loop L C d accs (unat b mod 32) (lockstep_init G accs)) (\<lambda>_. gret ())))
        (\<lambda>_. True) (\<lambda>_. False)"
    proof (rule contract_if, rule contract_gret, simp,
        rule contract_gbind_any [OF contract_gunwrap_or [OF contract_prim TrueI]],
        rule contract_gbind_any [OF lockstep_loop_returns [OF d]])
      fix b :: u8 and cmds :: "command list" assume len: "\<not> length accs < 2" and "length cmds \<le> unat b mod 32"
      moreover have "unat b mod 32 < 32" by simp
      moreover have "accs \<noteq> []" using len by auto
      ultimately show "is_ok (lockstep_schedule L C accs cmds (lockstep_init G accs))"
        using agree ok r by (auto simp: schedules_agree_def)
    qed (simp add: contract_gret)
  qed
  then show "always_returns (fuzz_stateful_model_lockstep L C G A d)"
    by (rule always_returnsI [OF _ unfailing_lockstep])
next
  assume returns: "always_returns (fuzz_stateful_model_lockstep L C G A d)"
  show "schedules_agree L C G"
    unfolding schedules_agree_def
  proof (intro allI impI, rule ccontr)
    fix accs and cmds :: "command list"
    assume "drawable_fuzz_state C (reserved_account_ids G) accs" "2 \<le> length accs" "length cmds \<le> 31"
      and "\<not> is_ok (lockstep_schedule L C accs cmds (lockstep_init G accs))"
    moreover from this(4) obtain p where "lockstep_schedule L C accs cmds (lockstep_init G accs) = Inl p"
      by (auto simp: not_is_ok_iff)
    ultimately show False using lockstep_target_panics [OF d] returns can_panic_not_returns by blast
  qed
qed

text \<open>
  A chain that, after some schedule of at most thirty commands, reacts to a transfer between two
  accounts otherwise than the model panics the target on some input.
\<close>

lemma deviation_panics:
  assumes d: "covers_commands d" and accs: "drawable_fuzz_state C (reserved_account_ids G) accs"
    and ij: "i < length accs" "j < length accs" "i \<noteq> j"
    and cmds: "length cmds \<le> 30" "lockstep_schedule L C accs cmds (lockstep_init G accs) = Inr s"
    and bad: "\<not> transfer_faithful L C s (accs ! i) (fa_account_id (accs ! j)) n a"
  shows "\<exists>p. can_panic (fuzz_stateful_model_lockstep L C G A d) p"
proof -
  have len: "length accs \<le> 256" "2 \<le> length accs" using accs ij by (auto simp: drawable_fuzz_state_def)
  obtain from_raw to_raw where cmd: "lockstep_command L C accs (Transfer from_raw to_raw (Nonce_Raw n) (Amount_Raw a)) s =
      lockstep_transfer L C (accs ! i) (fa_account_id (accs ! j)) (Nonce_Raw n) (Amount_Raw a) s"
    using transfer_command [OF ij len(1)] by blast
  have "hm_wf (ls_model (lockstep_init G accs))" by (simp add: lockstep_init_def Let_def model_new_def)
  with lockstep_schedule_wf [OF cmds(2)] have wf: "hm_wf (ls_model s)" .
  obtain p where "lockstep_transfer L C (accs ! i) (fa_account_id (accs ! j)) (Nonce_Raw n) (Amount_Raw a) s = Inl p"
    using raw_transfer_faithful [OF _ wf] bad by (metis sum.exhaust)
  with cmd cmds(2) have "lockstep_schedule L C accs (cmds @ [Transfer from_raw to_raw (Nonce_Raw n) (Amount_Raw a)])
      (lockstep_init G accs) = Inl p"
    by (simp add: lockstep_schedule_append)
  from lockstep_target_panics [OF d accs len(2) _ this] cmds(1) show ?thesis by auto
qed

end

subsection \<open>Simulation of the reference ledger\<close>

text \<open>
  One command costs a block of the clock, up to 256 for an idle period. A chain simulates the ledger
  for \<open>n\<close> steps if, whatever payment between two accounts is submitted, it answers as
  the model predicts and ends in a state with the ledger's balances and nonces, it refuses the last
  applied transaction, and it still simulates the ledger for \<open>n - 1\<close> steps.
\<close>

definition after_blocks :: "u64 \<Rightarrow> 'st lockstep \<Rightarrow> 'st lockstep" where
  "after_blocks blocks s = s\<lparr>ls_block_id := ls_block_id s + blocks, ls_timestamp := ls_timestamp s + 1000 * blocks\<rparr>"

primrec simulates ::
  "('st, 'data, 'err, 'diff) lez \<Rightarrow> crypto \<Rightarrow> fuzz_account list \<Rightarrow> nat \<Rightarrow> 'st lockstep \<Rightarrow> bool" where
  "simulates L C accs 0 s \<longleftrightarrow> True"
| "simulates L C accs (Suc n) s \<longleftrightarrow>
     (\<forall>x\<in>set accs. \<forall>y\<in>set accs. fa_account_id x \<noteq> fa_account_id y \<longrightarrow> (\<forall>nonce amount.
        case (model_predict (ls_model s) (fa_account_id x) (fa_account_id y) nonce amount,
              execute_check_on_state L (create_transfer C (fa_account_id x) nonce (fa_account_id y) amount (fa_private_key x))
                (ls_state s) (ls_block_id s) (ls_timestamp s)) of
          (Accept a, (Inr applied, st')) \<Rightarrow>
            (case model_apply_transfer (ls_model s) (fa_account_id x) (fa_account_id y) a of
               Inl _ \<Rightarrow> False
             | Inr m' \<Rightarrow> agrees L st' m' \<and>
                 simulates L C accs n (after_blocks 1 (s\<lparr>ls_state := st', ls_model := m', ls_last_applied := Some applied\<rparr>)))
        | (Reject, (Inl _, st')) \<Rightarrow> agrees L st' (ls_model s) \<and>
            simulates L C accs n (after_blocks 1 (s\<lparr>ls_state := st'\<rparr>))
        | _ \<Rightarrow> False)) \<and>
     (case ls_last_applied s of
        None \<Rightarrow> simulates L C accs n s
      | Some tx \<Rightarrow>
          (case execute_check_on_state L tx (ls_state s) (ls_block_id s) (ls_timestamp s) of
             (Inl _, st') \<Rightarrow> agrees L st' (ls_model s) \<and> simulates L C accs n (after_blocks 1 (s\<lparr>ls_state := st'\<rparr>))
           | _ \<Rightarrow> False)) \<and>
     (\<forall>jump::u8. agrees L (ls_state s) (ls_model s) \<and> simulates L C accs n (after_blocks (1 + ucast jump) s))"

text \<open>Room for \<open>n\<close> more steps: neither the clock nor a nonce can overflow.\<close>

definition has_room :: "fuzz_account list \<Rightarrow> nat \<Rightarrow> 'st lockstep \<Rightarrow> bool" where
  "has_room accs n s \<longleftrightarrow> hm_wf (ls_model s) \<and> fa_account_id ` set accs \<subseteq> fst ` set (ls_model s) \<and>
     (\<forall>aid. unat (model_nonce (ls_model s) aid) + n < 2 ^ 128) \<and>
     unat (ls_block_id s) + 256 * n < 2 ^ 64 \<and> unat (ls_timestamp s) + 256000 * n < 2 ^ 64"

lemma clock_add:
  fixes b :: u64
  assumes "unat b + unat k < 2 ^ 64"
  shows "checked_add b k = Some (b + k)" and "unat (b + k) = unat b + unat k"
  using assms by (simp_all add: checked_add_def unat_word_ariths)

lemma advance_simulates:
  assumes "unat (ls_block_id s) + unat k < 2 ^ 64" and "unat (ls_timestamp s) + unat (1000 * k) < 2 ^ 64"
    and "hm_wf (ls_model s)"
  shows "lockstep_advance L k (1000 * k) s = Inr s' \<longleftrightarrow> agrees L (ls_state s) (ls_model s) \<and> s' = after_blocks k s"
  using assms by (auto simp: advance_Inr_iff clock_add state_agreement_iff after_blocks_def)

text \<open>Every step keeps room for the ones that follow.\<close>

lemma after_room:
  assumes "has_room accs (Suc n) s" and "unat k \<le> 256"
    and "hm_wf m" and "map fst m = map fst (ls_model s)"
    and "\<And>aid. unat (model_nonce m aid) \<le> Suc (unat (model_nonce (ls_model s) aid))"
  shows "has_room accs n (after_blocks k (s\<lparr>ls_state := st, ls_model := m, ls_last_applied := la\<rparr>))"
proof -
  have thousand: "unat (1000 * k) = 1000 * unat k" using assms(2) by (simp add: unat_word_ariths)
  have "unat (ls_block_id s + k) = unat (ls_block_id s) + unat k"
    and "unat (ls_timestamp s + 1000 * k) = unat (ls_timestamp s) + 1000 * unat k"
    using assms(1,2) thousand by (subst clock_add; simp add: has_room_def)+
  moreover have "fst ` set m = fst ` set (ls_model s)" using assms(4) by (metis list.set_map)
  moreover have "unat (model_nonce m aid) + n < 2 ^ 128" for aid
  proof -
    have "unat (model_nonce (ls_model s) aid) + Suc n < 2 ^ 128" using assms(1) unfolding has_room_def by blast
    with assms(5) [of aid] show ?thesis by linarith
  qed
  moreover have "256 * unat k \<le> 256 * 256" "1000 * unat k \<le> 256000" using assms(2) by simp_all
  moreover have "fa_account_id ` set accs \<subseteq> fst ` set (ls_model s)"
    and "unat (ls_block_id s) + 256 * Suc n < 2 ^ 64" and "unat (ls_timestamp s) + 256000 * Suc n < 2 ^ 64"
    using assms(1) unfolding has_room_def by blast+
  ultimately show ?thesis using assms(2,3) unfolding has_room_def after_blocks_def by (simp del: power_numeral)
qed

lemma idle_room:
  assumes "has_room accs (Suc n) s" and "unat k \<le> 256"
  shows "has_room accs n (after_blocks k (s\<lparr>ls_state := st\<rparr>))"
proof -
  have same: "s\<lparr>ls_state := st\<rparr> = s\<lparr>ls_state := st, ls_model := ls_model s, ls_last_applied := ls_last_applied s\<rparr>"
    by (cases s) simp
  have "hm_wf (ls_model s)" using assms(1) by (simp add: has_room_def)
  then show ?thesis by (subst same, intro after_room [OF assms]) simp_all
qed

lemma room_Suc: "has_room accs (Suc n) s \<Longrightarrow> has_room accs n s"
proof -
  assume room: "has_room accs (Suc n) s"
  have "unat (model_nonce (ls_model s) aid) + n < 2 ^ 128" for aid
  proof -
    have "unat (model_nonce (ls_model s) aid) + Suc n < 2 ^ 128" using room unfolding has_room_def by blast
    then show ?thesis by linarith
  qed
  with room show ?thesis by (simp add: has_room_def)
qed

lemma pay_room:
  assumes "has_room accs (Suc n) s" and "src \<noteq> dst" and "model_apply_transfer (ls_model s) src dst a = Inr m'"
  shows "has_room accs n (after_blocks 1 (s\<lparr>ls_state := st, ls_model := m', ls_last_applied := la\<rparr>))"
proof -
  have wf: "hm_wf (ls_model s)" using assms(1) by (simp add: has_room_def)
  note props = model_apply_transfer_props [OF assms(3) wf assms(2)]
  have "unat (model_nonce m' aid) \<le> Suc (unat (model_nonce (ls_model s) aid))" for aid
    using props(6) props(7) [of aid] by (cases "aid = src") simp_all
  then show ?thesis by (intro after_room [OF assms(1)] props(1,2)) simp_all
qed

text \<open>With room and known accounts an accepted prediction can be applied.\<close>

lemma room_apply:
  assumes "has_room accs (Suc n) s" and "x \<in> set accs" and "y \<in> set accs"
    and "model_predict (ls_model s) (fa_account_id x) (fa_account_id y) nonce amount = Accept a"
  shows "\<exists>m'. model_apply_transfer (ls_model s) (fa_account_id x) (fa_account_id y) a = Inr m'"
proof (rule model_apply_transfer_enabled [OF assms(4)])
  have "fa_account_id ` set accs \<subseteq> fst ` set (ls_model s)" using assms(1) unfolding has_room_def by blast
  with assms(2,3) show "fa_account_id x \<in> fst ` set (ls_model s)" "fa_account_id y \<in> fst ` set (ls_model s)"
    by blast+
  have "unat (model_nonce (ls_model s) (fa_account_id x)) + Suc n < 2 ^ 128"
    using assms(1) unfolding has_room_def by blast
  then show "unat (model_nonce (ls_model s) (fa_account_id x)) + 1 < 2 ^ 128" by linarith
qed

text \<open>A resolved transfer passes exactly when the chain answers as the ledger does.\<close>

lemma transfer_simulates:
  assumes room: "has_room accs (Suc n) s" and x: "x \<in> set accs" and y: "y \<in> set accs"
    and neq: "fa_account_id x \<noteq> fa_account_id y"
  shows "lockstep_transfer L C x (fa_account_id y) (Nonce_Raw nonce) (Amount_Raw amount) s = Inr s' \<longleftrightarrow>
    (case (model_predict (ls_model s) (fa_account_id x) (fa_account_id y) nonce amount,
           execute_check_on_state L (create_transfer C (fa_account_id x) nonce (fa_account_id y) amount (fa_private_key x))
             (ls_state s) (ls_block_id s) (ls_timestamp s)) of
       (Accept a, (Inr applied, st')) \<Rightarrow>
         (case model_apply_transfer (ls_model s) (fa_account_id x) (fa_account_id y) a of
            Inl _ \<Rightarrow> False
          | Inr m' \<Rightarrow> agrees L st' m' \<and>
              s' = after_blocks 1 (s\<lparr>ls_state := st', ls_model := m', ls_last_applied := Some applied\<rparr>))
     | (Reject, (Inl _, st')) \<Rightarrow> agrees L st' (ls_model s) \<and> s' = after_blocks 1 (s\<lparr>ls_state := st'\<rparr>)
     | _ \<Rightarrow> False)"
proof -
  let ?src = "fa_account_id x" and ?dst = "fa_account_id y"
  obtain r st' where ex: "execute_check_on_state L (create_transfer C ?src nonce ?dst amount (fa_private_key x))
      (ls_state s) (ls_block_id s) (ls_timestamp s) = (r, st')" by (metis surj_pair)
  have clock: "unat (ls_block_id s) + unat (1::u64) < 2 ^ 64" "unat (ls_timestamp s) + unat (1000 * 1 :: u64) < 2 ^ 64"
    using room by (simp_all add: has_room_def)
  have wf: "hm_wf (ls_model s)" using room by (simp add: has_room_def)
  have step: "lockstep_advance L 1 1000 (s\<lparr>ls_state := st', ls_model := m', ls_last_applied := la\<rparr>) = Inr s' \<longleftrightarrow>
      agrees L st' m' \<and> s' = after_blocks 1 (s\<lparr>ls_state := st', ls_model := m', ls_last_applied := la\<rparr>)" if "hm_wf m'" for m' la
    using advance_simulates [where k = 1 and s = "s\<lparr>ls_state := st', ls_model := m', ls_last_applied := la\<rparr>"] clock that
    by simp
  have same: "s\<lparr>ls_state := st', ls_model := ls_model s, ls_last_applied := ls_last_applied s\<rparr> = s\<lparr>ls_state := st'\<rparr>"
    by (cases s) simp
  show ?thesis
  proof (cases "model_predict (ls_model s) ?src ?dst nonce amount")
    case Reject
    show ?thesis
      using step [OF wf, of "ls_last_applied s"] unfolding same
      by (cases r) (simp_all add: lockstep_transfer_def Let_def ex Reject outcome_simps)
  next
    case (Accept a)
    then obtain m' where moved: "model_apply_transfer (ls_model s) ?src ?dst a = Inr m'"
      using room_apply [OF room x y] by blast
    have "hm_wf m'" by (rule model_apply_transfer_props(1) [OF moved wf neq])
    from step [OF this] show ?thesis
      by (cases r) (simp_all add: lockstep_transfer_def Let_def ex Accept moved outcome_simps)
  qed
qed

lemma replay_simulates:
  assumes room: "has_room accs (Suc n) s" and last: "ls_last_applied s = Some tx"
  shows "lockstep_command L C accs ReplayLast s = Inr s' \<longleftrightarrow>
    (case execute_check_on_state L tx (ls_state s) (ls_block_id s) (ls_timestamp s) of
       (Inl _, st') \<Rightarrow> agrees L st' (ls_model s) \<and> s' = after_blocks 1 (s\<lparr>ls_state := st'\<rparr>)
     | _ \<Rightarrow> False)"
proof -
  obtain r st' where ex: "execute_check_on_state L tx (ls_state s) (ls_block_id s) (ls_timestamp s) = (r, st')"
    by (metis surj_pair)
  have "lockstep_advance L 1 1000 (s\<lparr>ls_state := st'\<rparr>) = Inr s' \<longleftrightarrow>
      agrees L st' (ls_model s) \<and> s' = after_blocks 1 (s\<lparr>ls_state := st'\<rparr>)"
    using advance_simulates [where k = 1 and s = "s\<lparr>ls_state := st'\<rparr>"] room by (simp add: has_room_def)
  then show ?thesis by (cases r) (simp_all add: ex last outcome_simps)
qed

lemma idle_simulates:
  assumes "has_room accs (Suc n) s"
  shows "lockstep_command L C accs (AdvanceBlock jump) s = Inr s' \<longleftrightarrow>
    agrees L (ls_state s) (ls_model s) \<and> s' = after_blocks (1 + ucast jump) s"
  using advance_simulates [where k = "1 + ucast jump" and s = s] assms jump_bounds [of jump] by (simp add: has_room_def)

text \<open>The commands are the idle periods, the replay and every payment between two accounts.\<close>

lemma every_command_iff:
  assumes "distinct (map fa_account_id accs)" and "2 \<le> length accs" and "length accs \<le> 256"
  shows "(\<forall>cmd. Q (lockstep_command L C accs cmd s)) \<longleftrightarrow>
    (\<forall>x\<in>set accs. \<forall>y\<in>set accs. fa_account_id x \<noteq> fa_account_id y \<longrightarrow> (\<forall>nonce amount.
       Q (lockstep_transfer L C x (fa_account_id y) (Nonce_Raw nonce) (Amount_Raw amount) s))) \<and>
    Q (lockstep_command L C accs ReplayLast s) \<and> (\<forall>jump. Q (lockstep_command L C accs (AdvanceBlock jump) s))"
proof (intro iffI conjI ballI allI impI)
  fix x y nonce amount
  assume all: "\<forall>cmd. Q (lockstep_command L C accs cmd s)" and "x \<in> set accs" "y \<in> set accs"
    and neq: "fa_account_id x \<noteq> fa_account_id y"
  then obtain i j where i: "i < length accs" "x = accs ! i" and j: "j < length accs" "y = accs ! j"
    by (auto simp: in_set_conv_nth)
  then have "i \<noteq> j" using neq by auto
  from transfer_command [OF i(1) j(1) this assms(3)] all
  show "Q (lockstep_transfer L C x (fa_account_id y) (Nonce_Raw nonce) (Amount_Raw amount) s)"
    unfolding i(2) j(2) by metis
next
  fix cmd
  assume parts: "(\<forall>x\<in>set accs. \<forall>y\<in>set accs. fa_account_id x \<noteq> fa_account_id y \<longrightarrow> (\<forall>nonce amount.
       Q (lockstep_transfer L C x (fa_account_id y) (Nonce_Raw nonce) (Amount_Raw amount) s))) \<and>
    Q (lockstep_command L C accs ReplayLast s) \<and> (\<forall>jump. Q (lockstep_command L C accs (AdvanceBlock jump) s))"
  show "Q (lockstep_command L C accs cmd s)"
  proof (cases cmd)
    case (Transfer from_raw to_raw nonce amount)
    let ?i = "unat from_raw mod length accs"
    have i: "?i < length accs" "checked_rem (unat from_raw) (length accs) = Inr ?i"
      using assms(2) by (auto simp: checked_rem_def intro!: mod_less_divisor)
    obtain j where j: "resolve_recipient to_raw ?i (length accs) = Inr j" "j < length accs" "j \<noteq> ?i"
      using resolve_recipient_spec [OF i(1) assms(2)] by blast
    have "lockstep_command L C accs cmd s = lockstep_transfer L C (accs ! ?i) (fa_account_id (accs ! j))
        (Nonce_Raw (resolve_nonce nonce (model_nonce (ls_model s) (fa_account_id (accs ! ?i)))))
        (Amount_Raw (resolve_amount amount (model_balance (ls_model s) (fa_account_id (accs ! ?i))))) s"
      using i j by (simp add: Transfer index_def lockstep_transfer_def)
    moreover have "fa_account_id (accs ! ?i) \<noteq> fa_account_id (accs ! j)"
      using assms(1) i(1) j(2,3) by (auto simp: distinct_conv_nth)
    ultimately show ?thesis using parts i(1) j(2) by simp
  qed (use parts in simp_all)
qed (erule spec)+

lemma schedules_Suc_iff:
  "(\<forall>cmds. length cmds \<le> Suc n \<longrightarrow> is_ok (lockstep_schedule L C accs cmds s)) \<longleftrightarrow>
   (\<forall>cmd. case lockstep_command L C accs cmd s of
      Inl _ \<Rightarrow> False
    | Inr s1 \<Rightarrow> \<forall>cmds. length cmds \<le> n \<longrightarrow> is_ok (lockstep_schedule L C accs cmds s1))"
proof (intro iffI allI impI)
  fix cmd
  assume ok: "\<forall>cmds. length cmds \<le> Suc n \<longrightarrow> is_ok (lockstep_schedule L C accs cmds s)"
  have "is_ok (lockstep_schedule L C accs (cmd # cmds) s)" if "length cmds \<le> n" for cmds
    using ok that by (metis Suc_le_mono length_Cons)
  from this this [of "[]"] show "case lockstep_command L C accs cmd s of
      Inl _ \<Rightarrow> False
    | Inr s1 \<Rightarrow> \<forall>cmds. length cmds \<le> n \<longrightarrow> is_ok (lockstep_schedule L C accs cmds s1)"
    by (cases "lockstep_command L C accs cmd s") auto
next
  fix cmds :: "command list"
  assume step: "\<forall>cmd. case lockstep_command L C accs cmd s of
      Inl _ \<Rightarrow> False
    | Inr s1 \<Rightarrow> \<forall>cmds. length cmds \<le> n \<longrightarrow> is_ok (lockstep_schedule L C accs cmds s1)" and len: "length cmds \<le> Suc n"
  show "is_ok (lockstep_schedule L C accs cmds s)"
  proof (cases cmds)
    case (Cons cmd rest)
    with step [rule_format, of cmd] len show ?thesis by (cases "lockstep_command L C accs cmd s") auto
  qed simp
qed

text \<open>All schedules of at most \<open>n\<close> commands pass iff the chain simulates the ledger for \<open>n\<close> steps.\<close>

lemma simulates_iff:
  assumes accs: "distinct (map fa_account_id accs)" "2 \<le> length accs" "length accs \<le> 256"
  shows "has_room accs n s \<Longrightarrow>
    simulates L C accs n s \<longleftrightarrow> (\<forall>cmds. length cmds \<le> n \<longrightarrow> is_ok (lockstep_schedule L C accs cmds s))"
proof (induction n arbitrary: s)
  case (Suc n)
  note room = Suc.prems
  let ?P = "\<lambda>s1. \<forall>cmds. length cmds \<le> n \<longrightarrow> is_ok (lockstep_schedule L C accs cmds s1)"
  let ?Q = "\<lambda>r. case r of Inl _ \<Rightarrow> False | Inr s1 \<Rightarrow> ?P s1"
  have Q: "?Q r \<longleftrightarrow> (\<exists>s1. r = Inr s1 \<and> ?P s1)" for r by (cases r) simp_all
  have pay: "(case (model_predict (ls_model s) (fa_account_id x) (fa_account_id y) nonce amount,
              execute_check_on_state L (create_transfer C (fa_account_id x) nonce (fa_account_id y) amount (fa_private_key x))
                (ls_state s) (ls_block_id s) (ls_timestamp s)) of
          (Accept a, (Inr applied, st')) \<Rightarrow>
            (case model_apply_transfer (ls_model s) (fa_account_id x) (fa_account_id y) a of
               Inl _ \<Rightarrow> False
             | Inr m' \<Rightarrow> agrees L st' m' \<and>
                 simulates L C accs n (after_blocks 1 (s\<lparr>ls_state := st', ls_model := m', ls_last_applied := Some applied\<rparr>)))
        | (Reject, (Inl _, st')) \<Rightarrow> agrees L st' (ls_model s) \<and>
            simulates L C accs n (after_blocks 1 (s\<lparr>ls_state := st'\<rparr>))
        | _ \<Rightarrow> False) \<longleftrightarrow> ?Q (lockstep_transfer L C x (fa_account_id y) (Nonce_Raw nonce) (Amount_Raw amount) s)"
    if "x \<in> set accs" "y \<in> set accs" "fa_account_id x \<noteq> fa_account_id y" for x y nonce amount
    unfolding Q transfer_simulates [OF room that]
    using Suc.IH [OF pay_room [OF room that(3)]] Suc.IH [OF idle_room [OF room, of 1]]
    by (cases "execute_check_on_state L (create_transfer C (fa_account_id x) nonce (fa_account_id y) amount (fa_private_key x))
          (ls_state s) (ls_block_id s) (ls_timestamp s)")
      (auto split: predict.splits sum.splits)
  have again: "(case ls_last_applied s of
        None \<Rightarrow> simulates L C accs n s
      | Some tx \<Rightarrow>
          (case execute_check_on_state L tx (ls_state s) (ls_block_id s) (ls_timestamp s) of
             (Inl _, st') \<Rightarrow> agrees L st' (ls_model s) \<and> simulates L C accs n (after_blocks 1 (s\<lparr>ls_state := st'\<rparr>))
           | _ \<Rightarrow> False)) \<longleftrightarrow> ?Q (lockstep_command L C accs ReplayLast s)"
  proof (cases "ls_last_applied s")
    case None
    then show ?thesis using Suc.IH [OF room_Suc [OF room]] by simp
  next
    case (Some tx)
    show ?thesis
      unfolding Q replay_simulates [OF room Some] using Suc.IH [OF idle_room [OF room, of 1]]
      by (cases "execute_check_on_state L tx (ls_state s) (ls_block_id s) (ls_timestamp s)";
          cases "fst (execute_check_on_state L tx (ls_state s) (ls_block_id s) (ls_timestamp s))") (auto simp: Some)
  qed
  have idle: "agrees L (ls_state s) (ls_model s) \<and> simulates L C accs n (after_blocks (1 + ucast jump) s) \<longleftrightarrow>
      ?Q (lockstep_command L C accs (AdvanceBlock jump) s)" for jump :: u8
    unfolding Q idle_simulates [OF room]
    using Suc.IH [OF idle_room [OF room jump_bounds(1) [of jump], of "ls_state s"]] by simp
  show ?case
    unfolding schedules_Suc_iff every_command_iff [OF accs, of ?Q] simulates.simps
    using pay again idle by (simp cong: ball_cong imp_cong)
qed simp

definition simulates_ledger ::
  "('st, 'data, 'err, 'diff) lez \<Rightarrow> crypto \<Rightarrow> ('st, 'data) genesis_api \<Rightarrow> bool" where
  "simulates_ledger L C G \<longleftrightarrow> (\<forall>accs. drawable_fuzz_state C (reserved_account_ids G) accs \<longrightarrow>
     2 \<le> length accs \<longrightarrow> simulates L C accs 31 (lockstep_init G accs))"

lemma init_has_room: "has_room accs 31 (lockstep_init G accs)"
proof -
  have zero: "model_nonce (model_new xs) aid = 0" for xs aid
    by (auto simp: model_nonce_def model_new_def hm_get_collect dest!: map_of_SomeD split: option.splits)
  have "hm_wf (ls_model (lockstep_init G accs))"
    and "fa_account_id ` set accs \<subseteq> fst ` set (ls_model (lockstep_init G accs))"
    by (auto simp: lockstep_init_def Let_def model_new_def image_image)
  then show ?thesis by (simp add: has_room_def) (simp add: lockstep_init_def Let_def zero)
qed

lemma simulates_ledger_iff: "simulates_ledger L C G \<longleftrightarrow> schedules_agree L C G"
proof -
  have "simulates L C accs 31 (lockstep_init G accs) \<longleftrightarrow>
      (\<forall>cmds. length cmds \<le> 31 \<longrightarrow> is_ok (lockstep_schedule L C accs cmds (lockstep_init G accs)))"
    if "drawable_fuzz_state C (reserved_account_ids G) accs" "2 \<le> length accs" for accs
    using that by (intro simulates_iff init_has_room) (simp_all add: drawable_fuzz_state_def fuzz_state_ok_def)
  then show ?thesis by (auto simp: simulates_ledger_def schedules_agree_def)
qed

end
