(* ===== verification/Diff_Coverage.thy ===== *)
theory Diff_Coverage
  imports Target_Coverage
begin

text \<open>
  Completeness of the targets of \<open>State_Diffs\<close> that judge one transaction on one genesis state: on
  replayable input they return on every input exactly when the judged rule holds for every drawable
  account list and transaction.
\<close>

text \<open>A target that draws two values and checks the pair.\<close>

definition checked_pair :: "('u, 'a) gen \<Rightarrow> ('u, 'b) gen \<Rightarrow> ('a \<Rightarrow> 'b \<Rightarrow> unit outcome) \<Rightarrow> ('u, unit) gen" where
  "checked_pair g h check = gbind (gcatch g) (\<lambda>r. case r of
     Inl _ \<Rightarrow> gret ()
   | Inr x \<Rightarrow> gbind (gcatch h) (\<lambda>r2. case r2 of Inl _ \<Rightarrow> gret () | Inr y \<Rightarrow> glift (check x y)))"

lemma checked_pair_iff:
  assumes g: "exact_gen g P (\<lambda>_. False)" and h: "exact_gen h P' (\<lambda>_. False)"
  shows "always_returns (checked_pair g h check) \<longleftrightarrow> (\<forall>x y. P x \<longrightarrow> P' y \<longrightarrow> check x y = Inr ())"
proof -
  have "judged (checked_pair g h check) (\<forall>x. P x \<longrightarrow> (\<forall>y. P' y \<longrightarrow> check x y = Inr ()))"
    unfolding checked_pair_def by (intro judged_draw [OF g] judged_draw [OF h] judged_check)
  moreover have "unfailing (checked_pair g h check)" unfolding checked_pair_def by (intro unfailing_intros)
  ultimately show ?thesis by (auto dest: judged_returns)
qed

lemma glift_gate: "(case r of Inl _ \<Rightarrow> gret () | Inr tx \<Rightarrow> glift (f tx)) = glift (case r of Inl _ \<Rightarrow> Inr () | Inr tx \<Rightarrow> f tx)"
  by (cases r) (simp_all add: glift_def)

lemma checked_arbitrary_pair:
  "checked_arbitrary_tx L C G A check = checked_pair (arbitrary_fuzz_state A C G) (arb_lee_transaction A C)
     (\<lambda>accs raw. case stateless_check L raw of Inl _ \<Rightarrow> Inr () | Inr tx \<Rightarrow> check accs tx)"
  unfolding checked_arbitrary_tx_def checked_pair_def glift_gate ..

lemma diff_computation_pair:
  "fuzz_state_diff_computation L P C G A = checked_pair (arbitrary_fuzz_state A C G) (arb_public_transaction A C)
     (\<lambda>accs pub_tx. diff_containment_check L P pub_tx (genesis_state G (init_accounts accs) []))"
  unfolding fuzz_state_diff_computation_def checked_pair_def ..

text \<open>The rules the three targets judge, for one transaction and one state.\<close>

definition validates_as_executed ::
  "('st, 'data, 'err, 'diff) lez \<Rightarrow> crypto \<Rightarrow> account_id set \<Rightarrow> lee_transaction \<Rightarrow> 'st \<Rightarrow> bool" where
  "validates_as_executed L C ids tx st \<longleftrightarrow>
     (case (validate_on_state L tx st 1 0, execute_check_on_state L tx st 1 0) of
        (Inr d, (Inr applied, st')) \<Rightarrow>
          (\<forall>(aid, a)\<in>set (public_diff L d). get_account_by_id L st' aid = a) \<and>
          same_accounts L (ids - fst ` set (public_diff L d)) st st' \<and>
          supply_kept L (ids \<union> fst ` set (public_diff L d)) st st' \<and>
          nonces_advance L (set (signer_account_ids C applied) \<inter> ids) st st'
      | (Inl _, (Inl _, _)) \<Rightarrow> True
      | _ \<Rightarrow> False)"

definition splits_as_executed ::
  "('st, 'data, 'err, 'diff) lez \<Rightarrow> crypto \<Rightarrow> account_id set \<Rightarrow> lee_transaction \<Rightarrow> 'st \<Rightarrow> bool" where
  "splits_as_executed L C ids tx st \<longleftrightarrow>
     (case validate_on_state L tx st 1 0 of
        Inl _ \<Rightarrow> True
      | Inr d \<Rightarrow> nonces_advance L (set (signer_account_ids C tx)) st (apply_state_diff L d st) \<and>
          (case execute_check_on_state L tx st 1 0 of
             (Inl _, _) \<Rightarrow> True
           | (Inr _, st') \<Rightarrow> same_accounts L (ids \<union> fst ` set (public_diff L d)) (apply_state_diff L d st) st'))"

definition diff_contained ::
  "('st, 'data, 'err, 'diff) lez \<Rightarrow> ('st, 'err, 'diff) public_api \<Rightarrow> public_transaction \<Rightarrow> 'st \<Rightarrow> bool" where
  "diff_contained L P tx st \<longleftrightarrow>
     (case from_public_transaction P tx st 1 0 of
        Inl _ \<Rightarrow> True
      | Inr d \<Rightarrow>
          fst ` set (public_diff L d) \<subseteq> set (affected_public_account_ids P tx) \<and>
          (case stateless_check L (Public tx) of
             Inl _ \<Rightarrow> True
           | Inr checked \<Rightarrow> (case execute_check_on_state L checked st 1 0 of
               (Inl _, _) \<Rightarrow> True
             | (Inr _, st') \<Rightarrow> same_accounts L
                 (set (affected_public_account_ids P tx) - fst ` set (public_diff L d)) st st')))"

lemma diff_exact_same:
  "diff_exact L ids diff st st' \<longleftrightarrow> (\<forall>(aid, a)\<in>set diff. get_account_by_id L st' aid = a) \<and>
     same_accounts L (set ids - fst ` set diff) st st'"
  unfolding diff_exact_def same_accounts_def by (metis DiffD1 DiffD2 DiffI)

lemma splits_as_executed_iff:
  "split_path_check L C init tx st = Inr () \<longleftrightarrow> splits_as_executed L C (fst ` set init) tx st"
  by (simp add: split_path_verdict splits_as_executed_def)

lemma validates_as_executed_iff:
  assumes "distinct (map fst init)"
  shows "consistency_check L C init tx st = Inr () \<longleftrightarrow> validates_as_executed L C (fst ` set init) tx st"
  unfolding consistency_iff [OF assms] validates_as_executed_def diff_exact_same nonces_advance_def conj_assoc set_map ..

text \<open>A rule holds on the target's inputs: all drawable states and all gated drawable transactions.\<close>

definition on_genesis ::
  "('st, 'data, 'err, 'diff) lez \<Rightarrow> crypto \<Rightarrow> ('st, 'data) genesis_api \<Rightarrow>
   (account_id set \<Rightarrow> lee_transaction \<Rightarrow> 'st \<Rightarrow> bool) \<Rightarrow> bool" where
  "on_genesis L C G rule \<longleftrightarrow> (\<forall>accs raw tx. drawable_state C (reserved_account_ids G) accs \<longrightarrow>
     drawable_lee_tx C raw \<longrightarrow> stateless_check L raw = Inr tx \<longrightarrow>
     rule (fa_account_id ` set accs) tx (genesis_state G (init_accounts accs) []))"

context replayable
begin

lemma checked_arbitrary_exact:
  assumes seed: "private_key_try_new C seed_bytes \<noteq> None"
    and check: "\<And>accs tx. drawable_state C (reserved_account_ids G) accs \<Longrightarrow>
      check accs tx = Inr () \<longleftrightarrow> rule (fa_account_id ` set accs) tx (genesis_state G (init_accounts accs) [])"
  shows "always_returns (checked_arbitrary_tx L C G A check) \<longleftrightarrow> on_genesis L C G rule"
  unfolding checked_arbitrary_pair
    checked_pair_iff [OF exact_no_bad_seed [OF exact_fuzz_state seed] exact_no_bad_seed [OF exact_lee_transaction seed]]
    on_genesis_def
  using check by (fastforce split: sum.splits)

lemma state_ids:
  assumes "drawable_state C reserved accs"
  shows "distinct (map fst (init_accounts accs))" and "fst ` set (init_accounts accs) = fa_account_id ` set accs"
  using assms by (simp_all add: drawable_state_def drawable_fuzz_state_def fuzz_state_ok_def init_accounts_def
      image_image comp_def)

lemma consistency_target_iff:
  assumes "private_key_try_new C seed_bytes \<noteq> None"
  shows "always_returns (fuzz_validate_execute_consistency L C G A) \<longleftrightarrow> on_genesis L C G (validates_as_executed L C)"
  unfolding fuzz_validate_execute_consistency_def
  by (rule checked_arbitrary_exact [OF assms]) (simp add: validates_as_executed_iff state_ids)

lemma split_path_target_iff:
  assumes "private_key_try_new C seed_bytes \<noteq> None"
  shows "always_returns (fuzz_apply_state_diff_split_path L C G A) \<longleftrightarrow> on_genesis L C G (splits_as_executed L C)"
  unfolding fuzz_apply_state_diff_split_path_def
  by (rule checked_arbitrary_exact [OF assms]) (simp add: splits_as_executed_iff state_ids)

lemma diff_containment_target_iff:
  assumes seed: "private_key_try_new C seed_bytes \<noteq> None"
  shows "always_returns (fuzz_state_diff_computation L P C G A) \<longleftrightarrow>
    (\<forall>accs tx. drawable_state C (reserved_account_ids G) accs \<longrightarrow> drawable_public_tx C tx \<longrightarrow>
       diff_contained L P tx (genesis_state G (init_accounts accs) []))"
  unfolding diff_computation_pair
    checked_pair_iff [OF exact_no_bad_seed [OF exact_fuzz_state seed] exact_no_bad_seed [OF exact_public_transaction seed]]
  by (simp add: diff_containment_verdict diff_contained_def)

end

end
