(* ===== verification/Stepped_Loops.thy ===== *)
theory Stepped_Loops
  imports Target_Coverage
begin

text \<open>
  The loop most targets share: draw something from the current state, stop if the input is
  exhausted, otherwise take a step that may panic. \<open>visits\<close> is its step relation without the input:
  which states a run can stand in before which step. A loop never panics exactly when every step
  offered in a visited state succeeds (\<open>stepped_loop_judged\<close>), so whole targets are judged by rule
  induction on \<open>visits\<close>.
\<close>

subsection \<open>The loop and its runs\<close>

fun stepped_loop ::
  "('s \<Rightarrow> ('u, 'x) gen) \<Rightarrow> (nat \<Rightarrow> 'x \<Rightarrow> 's \<Rightarrow> 's outcome) \<Rightarrow> nat \<Rightarrow> nat \<Rightarrow> 's \<Rightarrow> ('u, 's) gen" where
  "stepped_loop g step i 0 s = gret s"
| "stepped_loop g step i (Suc n) s = gbind (gcatch (g s)) (\<lambda>r. case r of
     Inl _ \<Rightarrow> gret s
   | Inr x \<Rightarrow> gbind (glift (step i x s)) (stepped_loop g step (Suc i) n))"

text \<open>\<open>visits offered step i s j t\<close>: from \<open>s\<close> before step \<open>i\<close> a run can get to \<open>t\<close> before step \<open>j\<close>.\<close>

inductive visits ::
  "('s \<Rightarrow> 'x \<Rightarrow> bool) \<Rightarrow> (nat \<Rightarrow> 'x \<Rightarrow> 's \<Rightarrow> 's outcome) \<Rightarrow> nat \<Rightarrow> 's \<Rightarrow> nat \<Rightarrow> 's \<Rightarrow> bool"
  for offered step where
  visits_start: "visits offered step i s i s"
| visits_step: "offered s x \<Longrightarrow> step i x s = Inr s' \<Longrightarrow> visits offered step (Suc i) s' j t \<Longrightarrow>
     visits offered step i s j t"

inductive_cases visitsE: "visits offered step i s j t"

lemma visits_le: "visits offered step i s j t \<Longrightarrow> i \<le> j"
  by (induction rule: visits.induct) auto

lemma visits_more:
  "visits offered step i s j t \<Longrightarrow> offered t x \<Longrightarrow> step j x t = Inr t' \<Longrightarrow> visits offered step i s (Suc j) t'"
  by (induction rule: visits.induct) (blast intro: visits.intros)+

text \<open>An invariant of the steps is an invariant of the visited states.\<close>

lemma visits_invariant:
  assumes "visits offered step i s j t" and "I i s"
    and "\<And>k s x s'. I k s \<Longrightarrow> offered s x \<Longrightarrow> step k x s = Inr s' \<Longrightarrow> I (Suc k) s'"
  shows "I j t"
  using assms by (induction rule: visits.induct) blast+

text \<open>Every offered step from every state visited before \<open>bound\<close> succeeds.\<close>

definition run_safe ::
  "('s \<Rightarrow> 'x \<Rightarrow> bool) \<Rightarrow> (nat \<Rightarrow> 'x \<Rightarrow> 's \<Rightarrow> 's outcome) \<Rightarrow> nat \<Rightarrow> nat \<Rightarrow> 's \<Rightarrow> bool" where
  "run_safe offered step i bound s \<longleftrightarrow>
     (\<forall>j t x. visits offered step i s j t \<longrightarrow> j < bound \<longrightarrow> offered t x \<longrightarrow> is_ok (step j x t))"

lemma run_safe_first: "run_safe offered step i bound s \<Longrightarrow> i < bound \<Longrightarrow> offered s x \<Longrightarrow> \<exists>s'. step i x s = Inr s'"
  unfolding run_safe_def is_ok_iff by (blast intro: visits_start)

lemma run_safe_next:
  "run_safe offered step i bound s \<Longrightarrow> offered s x \<Longrightarrow> step i x s = Inr s' \<Longrightarrow> run_safe offered step (Suc i) bound s'"
  unfolding run_safe_def by (blast intro: visits_step)

lemma run_safe_mono: "run_safe offered step i bound s \<Longrightarrow> b \<le> bound \<Longrightarrow> run_safe offered step i b s"
  unfolding run_safe_def by (meson order_less_le_trans)

text \<open>A run that keeps an invariant from which every step succeeds is safe.\<close>

lemma run_safeI:
  assumes "I i s"
    and "\<And>k s x. I k s \<Longrightarrow> k < bound \<Longrightarrow> offered s x \<Longrightarrow> \<exists>s'. step k x s = Inr s'"
    and "\<And>k s x s'. I k s \<Longrightarrow> offered s x \<Longrightarrow> step k x s = Inr s' \<Longrightarrow> I (Suc k) s'"
  shows "run_safe offered step i bound s"
  unfolding run_safe_def
proof (intro allI impI)
  fix j t x
  assume "visits offered step i s j t" "j < bound" "offered t x"
  from \<open>visits offered step i s j t\<close> have "I j t"
    by (rule visits_invariant [where I = I]) (rule assms(1), rule assms(3))
  then show "is_ok (step j x t)" unfolding is_ok_iff by (rule assms(2)) fact+
qed

subsection \<open>Completeness of the loop\<close>

lemma stepped_loop_contract:
  assumes g: "\<And>s. exact_gen (g s) (offered s) (\<lambda>_. False)" and "run_safe offered step i (i + n) s"
  shows "contract_gen (stepped_loop g step i n s) (\<lambda>t. \<exists>j\<le>i + n. visits offered step i s j t) (\<lambda>_. False)"
  using assms(2)
proof (induction n arbitrary: i s)
  case 0
  show ?case by (auto intro!: contract_gret visits_start)
next
  case (Suc n)
  let ?P = "\<lambda>t. \<exists>j\<le>i + Suc n. visits offered step i s j t"
  have next_ok: "contract_gen (gbind (glift (step i x s)) (stepped_loop g step (Suc i) n)) ?P (\<lambda>_. False)"
    if x: "offered s x" for x
  proof -
    obtain s' where s': "step i x s = Inr s'" using run_safe_first [OF Suc.prems _ x] by auto
    have "run_safe offered step (Suc i) (Suc i + n) s'" using run_safe_next [OF Suc.prems x s'] by simp
    from Suc.IH [OF this] have "contract_gen (stepped_loop g step (Suc i) n s') ?P (\<lambda>_. False)"
      by (rule contract_weaken) (auto intro: visits_step [where offered = offered and step = step, OF x s'])
    with s' show ?thesis by (simp add: glift_def)
  qed
  have stop: "contract_gen (gret s) ?P (\<lambda>_. False)" by (auto intro!: contract_gret visits_start exI [of _ i])
  show ?case
    unfolding stepped_loop.simps
    by (rule contract_gbind [OF contract_gcatch [OF exact_gen.axioms(1) [OF g]]], rule contract_sum_case,
        rule stop, rule next_ok, simp)
qed

lemma stepped_loop_panics:
  assumes g: "\<And>s. exact_gen (g s) (offered s) (\<lambda>_. False)"
  shows "visits offered step i s j t \<Longrightarrow> offered t x \<Longrightarrow> step j x t = Inl p \<Longrightarrow> j < i + n \<Longrightarrow>
    can_panic (stepped_loop g step i n s) p"
proof (induction arbitrary: n rule: visits.induct)
  case (visits_start i s)
  then obtain m where m: "n = Suc m" by (cases n) auto
  show ?case
    unfolding m stepped_loop.simps
    by (rule can_panic_gbind [OF reaches_gcatch [OF exact_gen.reached [OF g visits_start(1)]]], simp,
        rule can_panic_first, rule can_panic_glift, rule visits_start(2))
next
  case (visits_step s y i s' j t)
  from visits_le [OF visits_step.hyps(3)] visits_step.prems(3) obtain m where m: "n = Suc m" "j < Suc i + m"
    by (cases n) auto
  from visits_step.IH [OF visits_step.prems(1,2) m(2)] have "can_panic (stepped_loop g step (Suc i) m s') p" .
  then show ?case
    unfolding m(1) stepped_loop.simps
    by (intro can_panic_gbind [OF reaches_gcatch [OF exact_gen.reached [OF g visits_step.hyps(1)]]])
      (simp add: visits_step.hyps(2) glift_def)
qed

lemma stepped_loop_reaches:
  assumes g: "\<And>s. exact_gen (g s) (offered s) (\<lambda>_. False)"
  shows "visits offered step i s j t \<Longrightarrow> j = i + n \<Longrightarrow> reaches (stepped_loop g step i n s) t"
proof (induction arbitrary: n rule: visits.induct)
  case (visits_step s y i s' j t)
  from visits_le [OF visits_step.hyps(3)] visits_step.prems obtain m where m: "n = Suc m" "j = Suc i + m"
    by (cases n) auto
  show ?case
    unfolding m(1) stepped_loop.simps
    by (intro reaches_gbind [OF reaches_gcatch [OF exact_gen.reached [OF g visits_step.hyps(1)]]])
      (simp add: visits_step.hyps(2) glift_def visits_step.IH [OF m(2)])
qed (simp add: reaches_gret)

lemma stepped_loop_judged:
  assumes g: "\<And>s. exact_gen (g s) (offered s) (\<lambda>_. False)"
  shows "judged (gbind (stepped_loop g step i n s) (\<lambda>_. gret ())) (run_safe offered step i (i + n) s)"
proof (rule judgedI)
  assume "run_safe offered step i (i + n) s"
  from stepped_loop_contract [OF g this]
  show "contract_gen (gbind (stepped_loop g step i n s) (\<lambda>_. gret ())) (\<lambda>_. True) (\<lambda>_. False)"
    by (rule contract_gbind) (simp add: contract_gret)
next
  assume "\<not> run_safe offered step i (i + n) s"
  then obtain j t x where v: "visits offered step i s j t" "j < i + n" "offered t x" "\<not> is_ok (step j x t)"
    by (auto simp: run_safe_def)
  then obtain p where "step j x t = Inl p" by (auto simp: not_is_ok_iff)
  from stepped_loop_panics [OF g v(1,3) this v(2)]
  show "\<exists>p. can_panic (gbind (stepped_loop g step i n s) (\<lambda>_. gret ())) p" by (blast intro: can_panic_first)
qed

text \<open>The number of steps is a drawn byte, reduced: \<open>for i in 0..n\<close> with \<open>n = b % bound\<close>.\<close>

definition counted_loop ::
  "'u arbitrary_api \<Rightarrow> nat \<Rightarrow> ('s \<Rightarrow> ('u, 'x) gen) \<Rightarrow> (nat \<Rightarrow> 'x \<Rightarrow> 's \<Rightarrow> 's outcome) \<Rightarrow> 's \<Rightarrow> ('u, 's) gen" where
  "counted_loop A bound g step s = gbind (gunwrap_or 0 (prim (draw_u8 A))) (\<lambda>b.
     stepped_loop g step 0 (unat b mod bound) s)"

lemma unfailing_stepped_loop: "unfailing (stepped_loop g step i n s)"
  by (induction n arbitrary: i s) (auto intro!: unfailing_intros)

lemma contract_counted_loop:
  assumes "\<And>s. exact_gen (g s) (offered s) (\<lambda>_. False)" and "run_safe offered step 0 (bound - 1) s" and "0 < bound"
  shows "contract_gen (counted_loop A bound g step s) (\<lambda>t. \<exists>j<bound. visits offered step 0 s j t) (\<lambda>_. False)"
  unfolding counted_loop_def
proof (rule contract_gbind_any [OF contract_gunwrap_or [OF contract_prim TrueI]])
  fix b :: u8
  have b: "unat b mod bound < bound" using assms(3) by simp
  then have "run_safe offered step 0 (0 + unat b mod bound) s" by (intro run_safe_mono [OF assms(2)]) simp
  from stepped_loop_contract [OF assms(1) this]
  show "contract_gen (stepped_loop g step 0 (unat b mod bound) s) (\<lambda>t. \<exists>j<bound. visits offered step 0 s j t) (\<lambda>_. False)"
    by (rule contract_weaken) (use b in \<open>auto intro: le_less_trans\<close>)
qed

context replayable
begin

lemma reaches_count:
  assumes "n < bound" and "bound \<le> 256" and "reaches (stepped_loop g step 0 n s) t"
  shows "reaches (counted_loop A bound g step s) t"
proof -
  have "unat (of_nat n :: u8) mod bound = n" using assms(1,2) by (simp add: unat_of_nat)
  with assms(3) show ?thesis
    unfolding counted_loop_def
    by (intro reaches_gbind [OF reaches_gunwrap_or [OF reaches_prim [OF any_u8 UNIV_I [of "of_nat n"]]]]) simp
qed

lemma counted_loop_reaches:
  assumes "\<And>s. exact_gen (g s) (offered s) (\<lambda>_. False)" and "visits offered step 0 s j t" and "j < bound" and "bound \<le> 256"
  shows "reaches (counted_loop A bound g step s) t"
  by (rule reaches_count [OF assms(3,4)], rule stepped_loop_reaches [OF assms(1,2)]) simp

lemma counted_loop_panics:
  assumes g: "\<And>s. exact_gen (g s) (offered s) (\<lambda>_. False)" and bound: "0 < bound" "bound \<le> 256"
    and unsafe: "\<not> run_safe offered step 0 (bound - 1) s"
  shows "\<exists>p. can_panic (counted_loop A bound g step s) p"
proof -
  from unsafe obtain j t x where v: "visits offered step 0 s j t" "j < bound - 1" "offered t x" "\<not> is_ok (step j x t)"
    by (auto simp: run_safe_def)
  then obtain p where p: "step j x t = Inl p" by (auto simp: not_is_ok_iff)
  define last where "last = bound - 1"
  have "last < bound" "last < 256" using bound by (simp_all add: last_def)
  then have "unat (of_nat last :: u8) mod bound = last" by (simp add: unat_of_nat)
  moreover have "can_panic (stepped_loop g step 0 last s) p"
    by (rule stepped_loop_panics [OF g v(1,3) p]) (use v(2) in \<open>simp add: last_def\<close>)
  ultimately have "can_panic (counted_loop A bound g step s) p"
    unfolding counted_loop_def
    by (intro can_panic_gbind [OF reaches_gunwrap_or [OF reaches_prim [OF any_u8 UNIV_I [of "of_nat last"]]]]) simp
  then show ?thesis ..
qed

lemma exact_counted_loop:
  assumes g: "\<And>s. exact_gen (g s) (offered s) (\<lambda>_. False)" and "run_safe offered step 0 (bound - 1) s"
    and bound: "0 < bound" "bound \<le> 256"
  shows "exact_gen (counted_loop A bound g step s) (\<lambda>t. \<exists>j<bound. visits offered step 0 s j t) (\<lambda>_. False)"
  by (rule exact_genI [OF contract_counted_loop [OF g assms(2) bound(1)]])
    (auto intro: counted_loop_reaches [OF g _ _ bound(2)])

text \<open>A loop and what is done with its final state.\<close>

lemma counted_loop_then_judged:
  assumes g: "\<And>s. exact_gen (g s) (offered s) (\<lambda>_. False)" and bound: "0 < bound" "bound \<le> 256"
    and h: "\<And>t. judged (h t) (safe t)"
  shows "judged (gbind (counted_loop A bound g step s) h)
    (run_safe offered step 0 (bound - 1) s \<and> (\<forall>j<bound. \<forall>t. visits offered step 0 s j t \<longrightarrow> safe t))"
proof (cases "run_safe offered step 0 (bound - 1) s")
  case True
  show ?thesis
    by (rule judged_cong [OF judged_gbind [OF exact_counted_loop [OF g True bound] h]]) (use True in blast)
next
  case False
  from counted_loop_panics [OF g bound False] False show ?thesis by (auto intro!: judgedI intro: can_panic_first)
qed

lemma counted_loop_judged:
  assumes g: "\<And>s. exact_gen (g s) (offered s) (\<lambda>_. False)" and bound: "0 < bound" "bound \<le> 256"
  shows "judged (gbind (counted_loop A bound g step s) (\<lambda>_. gret ())) (run_safe offered step 0 (bound - 1) s)"
  by (rule judged_cong [OF counted_loop_then_judged [OF g bound judged_gret]]) simp

end

end
