(* ===== verification/Transition_Coverage.thy ===== *)
theory Transition_Coverage
  imports Stepped_Loops
begin

text \<open>
  Completeness of the targets of \<open>State_Transition\<close>. \<open>audit_run\<close> is the step relation of the chain
  under audit: transactions that fail the gate are skipped, the others must meet the five protocol
  rules. The targets return on every input exactly when the rules hold for every transaction offered
  in every state such a run reaches within the target's bound.
\<close>

subsection \<open>What the targets submit\<close>

lemma exact_gunwrap_or: "exact_gen g P Q \<Longrightarrow> P d \<Longrightarrow> exact_gen (gunwrap_or d g) P Q"
  by (rule exact_genI) (auto simp: exact_gen_def exact_gen_axioms_def intro: contract_gunwrap_or reaches_gunwrap_or)

definition submittable :: "crypto \<Rightarrow> fuzz_account list \<Rightarrow> lee_transaction \<Rightarrow> bool" where
  "submittable C accs raw \<longleftrightarrow> correlated_transfer C accs raw \<or> drawable_lee_tx C raw"

context replayable
begin

lemma exact_mixed_transaction:
  assumes "length accs \<le> 256"
  shows "exact_gen (mixed_transaction A C accs) (submittable C accs) (bad_seed C)"
  unfolding mixed_transaction_def arbitrary_transaction_def
proof (rule exact_cong)
  show "exact_gen (gbind (gunwrap_or False (prim (draw_bool A))) (\<lambda>correlated.
      if correlated then arb_fuzz_native_transfer A C accs else arb_lee_transaction A C))
    (\<lambda>tx. \<exists>correlated. correlated \<in> UNIV \<and>
       (if correlated then correlated_transfer C accs tx else drawable_lee_tx C tx)) (bad_seed C)"
    by (rule exact_gbind [OF exact_gunwrap_or [OF exact_draw [OF any_bool]]], simp,
        rule exact_if, rule exact_weaken [OF exact_fuzz_native_transfer [OF assms]], simp, rule exact_lee_transaction)
  show "(\<exists>correlated. correlated \<in> UNIV \<and> (if correlated then correlated_transfer C accs tx else drawable_lee_tx C tx)) \<longleftrightarrow>
      submittable C accs tx" for tx
    unfolding submittable_def by (metis UNIV_I)
qed

end

subsection \<open>Runs under audit\<close>

definition audit_ok ::
  "('st, 'data, 'err, 'diff) lez \<Rightarrow> crypto \<Rightarrow> account_id list \<Rightarrow> (nat \<Rightarrow> u64) \<Rightarrow> nat \<Rightarrow> lee_transaction \<Rightarrow>
   'st \<Rightarrow> 'st \<Rightarrow> bool" where
  "audit_ok L C ids time i tx st st2 \<longleftrightarrow> readable L st ids \<and>
     execution_ok L C ids (1 + of_nat i) (time i) (1 + of_nat i + 1, time i + 1) tx st st2"

inductive audit_run ::
  "('st, 'data, 'err, 'diff) lez \<Rightarrow> crypto \<Rightarrow> fuzz_account list \<Rightarrow> (nat \<Rightarrow> u64) \<Rightarrow> 'st \<Rightarrow> nat \<Rightarrow> 'st \<Rightarrow> bool"
  for L C accs time st0 where
  audit_start: "audit_run L C accs time st0 0 st0"
| audit_gated: "audit_run L C accs time st0 i st \<Longrightarrow> submittable C accs raw \<Longrightarrow> stateless_check L raw = Inl e \<Longrightarrow>
     audit_run L C accs time st0 (Suc i) st"
| audit_executed: "audit_run L C accs time st0 i st \<Longrightarrow> submittable C accs raw \<Longrightarrow> stateless_check L raw = Inr tx \<Longrightarrow>
     audit_ok L C (map fa_account_id accs) time i tx st st2 \<Longrightarrow> audit_run L C accs time st0 (Suc i) st2"

text \<open>A run under audit only takes audited steps, so what holds of \<open>audited\<close> holds of it.\<close>

lemma audit_run_audited: "audit_run L C accs time st0 i st \<Longrightarrow> audited L C (map fa_account_id accs) st0 st"
proof (induction rule: audit_run.induct)
  case (audit_executed i st raw tx st2)
  from audit_executed.hyps(4) [unfolded audit_ok_def] audited_step [OF audit_executed.IH audit_executed.hyps(3)]
  show ?case by blast
qed (auto intro: audited_refl)

definition rules_hold ::
  "('st, 'data, 'err, 'diff) lez \<Rightarrow> crypto \<Rightarrow> fuzz_account list \<Rightarrow> (nat \<Rightarrow> u64) \<Rightarrow> nat \<Rightarrow> 'st \<Rightarrow> bool" where
  "rules_hold L C accs time bound st0 \<longleftrightarrow>
     (\<forall>i st raw tx. audit_run L C accs time st0 i st \<longrightarrow> i < bound \<longrightarrow> submittable C accs raw \<longrightarrow>
        stateless_check L raw = Inr tx \<longrightarrow> (\<exists>st2. audit_ok L C (map fa_account_id accs) time i tx st st2))"

text \<open>One turn of the targets' loop.\<close>

definition transition_step ::
  "('st, 'data, 'err, 'diff) lez \<Rightarrow> crypto \<Rightarrow> fuzz_account list \<Rightarrow> (nat \<Rightarrow> u64) \<Rightarrow> nat \<Rightarrow> lee_transaction \<Rightarrow>
   'st \<Rightarrow> 'st outcome" where
  "transition_step L C accs time i raw st = (case stateless_check L raw of
       Inl _ \<Rightarrow> Inr st
     | Inr tx \<Rightarrow> checked_execution L C (init_accounts accs) (1 + of_nat i) (time i)
         (1 + of_nat i + 1, time i + 1) tx st)"

lemma transition_loop_stepped:
  "transition_loop L C A accs time i n st =
     stepped_loop (\<lambda>_. mixed_transaction A C accs) (transition_step L C accs time) i n st"
proof (induction n arbitrary: i st)
  case (Suc n)
  then have "transition_loop L C A accs time (Suc i) n =
      stepped_loop (\<lambda>_. mixed_transaction A C accs) (transition_step L C accs time) (Suc i) n" by blast
  then show ?case
    unfolding transition_loop.simps stepped_loop.simps Let_def
    by (intro arg_cong [where f = "gbind (gcatch (mixed_transaction A C accs))"] ext)
      (simp add: transition_step_def glift_def split: sum.split)
qed simp

lemma transition_step_iff:
  assumes "distinct (map fa_account_id accs)"
  shows "transition_step L C accs time i raw st = Inr st2 \<longleftrightarrow>
    (case stateless_check L raw of
       Inl _ \<Rightarrow> st2 = st
     | Inr tx \<Rightarrow> audit_ok L C (map fa_account_id accs) time i tx st st2)"
  by (cases "stateless_check L raw")
    (auto simp: transition_step_def audit_ok_def checked_execution_iff [of "init_accounts accs", unfolded init_ids, OF assms])

lemma visits_audit_run:
  assumes "distinct (map fa_account_id accs)"
  shows "visits (\<lambda>_. submittable C accs) (transition_step L C accs time) 0 st0 i st \<longleftrightarrow> audit_run L C accs time st0 i st"
    (is "?visits 0 st0 i st \<longleftrightarrow> ?run i st")
proof
  assume "?visits 0 st0 i st"
  then show "?run i st"
    by (rule visits_invariant [where I = "audit_run L C accs time st0"])
      (auto simp: transition_step_iff [OF assms] intro: audit_run.intros split: sum.splits)
next
  show "?run i st \<Longrightarrow> ?visits 0 st0 i st"
  proof (induction rule: audit_run.induct)
    case (audit_gated i st raw e)
    then show ?case by (intro visits_more [OF audit_gated.IH]) (auto simp: transition_step_iff [OF assms])
  next
    case (audit_executed i st raw tx st2)
    then show ?case by (intro visits_more [OF audit_executed.IH]) (auto simp: transition_step_iff [OF assms])
  qed (rule visits_start)
qed

lemma run_safe_rules:
  assumes "distinct (map fa_account_id accs)"
  shows "run_safe (\<lambda>_. submittable C accs) (transition_step L C accs time) 0 bound st0 \<longleftrightarrow>
    rules_hold L C accs time bound st0"
proof -
  have "is_ok (transition_step L C accs time i raw st) \<longleftrightarrow>
      (\<forall>tx. stateless_check L raw = Inr tx \<longrightarrow> (\<exists>st2. audit_ok L C (map fa_account_id accs) time i tx st st2))"
    for i raw st
    unfolding is_ok_iff transition_step_iff [OF assms] by (cases "stateless_check L raw") auto
  then show ?thesis unfolding run_safe_def rules_hold_def visits_audit_run [OF assms] by blast
qed

subsection \<open>The targets\<close>

definition rules_on_genesis ::
  "('st, 'data, 'err, 'diff) lez \<Rightarrow> crypto \<Rightarrow> ('st, 'data) genesis_api \<Rightarrow> (nat \<Rightarrow> u64) \<Rightarrow> nat \<Rightarrow> bool" where
  "rules_on_genesis L C G time bound \<longleftrightarrow> (\<forall>accs. drawable_state C (reserved_account_ids G) accs \<longrightarrow>
     rules_hold L C accs time bound (genesis_state G (init_accounts accs) []))"

lemma drawable_state_props:
  assumes "drawable_state C reserved accs"
  shows "distinct (map fa_account_id accs)" and "length accs \<le> 8"
  using assms by (simp_all add: drawable_state_def drawable_fuzz_state_def fuzz_state_ok_def)

text \<open>A target that draws a state and runs a body on it.\<close>

lemma unfailing_counted_loop: "unfailing (counted_loop A bound g step s)"
  unfolding counted_loop_def by (intro unfailing_intros unfailing_stepped_loop)

lemma state_target_iff:
  assumes "exact_gen g P (\<lambda>_. False)" and "\<And>x. P x \<Longrightarrow> judged (body x) (safe x)" and "\<And>x. unfailing (body x)"
  shows "always_returns (gbind (gcatch g) (\<lambda>r. case r of Inl _ \<Rightarrow> gret () | Inr x \<Rightarrow> body x)) \<longleftrightarrow> (\<forall>x. P x \<longrightarrow> safe x)"
  by (rule judged_returns [OF judged_draw [OF assms(1,2)]], assumption) (intro unfailing_intros assms(3))

text \<open>The supply of the accounts is readable and the same in every state of a run.\<close>

definition supply_constant ::
  "('st, 'data, 'err, 'diff) lez \<Rightarrow> crypto \<Rightarrow> fuzz_account list \<Rightarrow> (nat \<Rightarrow> u64) \<Rightarrow> nat \<Rightarrow> 'st \<Rightarrow> bool" where
  "supply_constant L C accs time bound st0 \<longleftrightarrow> total_supply L st0 (map fa_account_id accs) < 2 ^ 128 \<and>
     (\<forall>i\<le>bound. \<forall>st. audit_run L C accs time st0 i st \<longrightarrow> readable L st (map fa_account_id accs) \<and>
        total_supply L st (map fa_account_id accs) = total_supply L st0 (map fa_account_id accs))"

lemma supply_constant_iff:
  "supply_constant L C accs time bound st0 \<longleftrightarrow> (\<exists>total. sum_balances L st0 (map fa_account_id accs) = Inr total \<and>
     (\<forall>i\<le>bound. \<forall>st. audit_run L C accs time st0 i st \<longrightarrow> sum_balances L st (map fa_account_id accs) = Inr total))"
    (is "_ \<longleftrightarrow> (\<exists>total. ?sum total)")
proof
  assume const: "supply_constant L C accs time bound st0"
  let ?ids = "map fa_account_id accs"
  have unat: "unat (of_nat (total_supply L st0 ?ids) :: u128) = total_supply L st0 ?ids"
    using const by (simp add: supply_constant_def unat_of_nat)
  have "0 \<le> bound" by simp
  with const have "readable L st0 ?ids"
    unfolding supply_constant_def using audit_start [of L C accs time st0] by blast
  with const have "?sum (of_nat (total_supply L st0 ?ids))"
    unfolding sum_balances_Inr unat supply_constant_def by blast
  then show "\<exists>total. ?sum total" ..
next
  assume "\<exists>total. ?sum total"
  then obtain total where t: "?sum total" ..
  then have "total_supply L st0 (map fa_account_id accs) < 2 ^ 128"
    using unsigned_less [of total, where ?'a = nat] by (simp add: sum_balances_Inr)
  with t show "supply_constant L C accs time bound st0" by (simp add: supply_constant_def sum_balances_Inr)
qed

text \<open>On a chain that isolates rejections a run whose rules hold keeps the supply it starts with.\<close>

lemma isolated_supply_constant:
  assumes "rejections_isolated L" and "readable L st0 (map fa_account_id accs)"
    and "total_supply L st0 (map fa_account_id accs) < 2 ^ 128"
  shows "supply_constant L C accs time bound st0"
  using audited_supply [OF audit_run_audited _ assms(2), of C time _ ] assms(1,3)
  by (simp add: supply_constant_def rejections_isolated_def)

lemma lawful_supply_constant:
  assumes "rejections_isolated L" and "lawful_genesis L G" and "programs_apart C G"
    and "drawable_state C (reserved_account_ids G) accs"
  shows "supply_constant L C accs time bound (genesis_state G (init_accounts accs) [])"
proof -
  have ok: "fuzz_state_ok C (reserved_account_ids G) accs" and len: "length accs \<le> 8"
    using assms(4) by (simp_all add: drawable_state_def drawable_fuzz_state_def)
  from initial_total [OF assms(2,3) ok len] obtain t
    where "sum_balances L (genesis_state G (init_accounts accs) []) (map fa_account_id accs) = Inr t"
    by (auto simp: init_ids)
  then have "readable L (genesis_state G (init_accounts accs) []) (map fa_account_id accs)"
    and "total_supply L (genesis_state G (init_accounts accs) []) (map fa_account_id accs) < 2 ^ 128"
    using unsigned_less [of t, where ?'a = nat] by (simp_all add: sum_balances_Inr)
  then show ?thesis by (rule isolated_supply_constant [OF assms(1)])
qed

context replayable
begin

lemma exact_mixed_usable:
  assumes "private_key_try_new C seed_bytes \<noteq> None" and "drawable_state C reserved accs"
  shows "exact_gen (mixed_transaction A C accs) (submittable C accs) (\<lambda>_. False)"
  using drawable_state_props(2) [OF assms(2)] by (intro exact_no_bad_seed [OF exact_mixed_transaction assms(1)]) simp

lemma state_transition_target_iff:
  assumes seed: "private_key_try_new C seed_bytes \<noteq> None"
  shows "always_returns (fuzz_state_transition L C G A) \<longleftrightarrow> rules_on_genesis L C G of_nat 7"
proof -
  let ?body = "\<lambda>accs. gbind (counted_loop A 8 (\<lambda>_. mixed_transaction A C accs) (transition_step L C accs of_nat)
      (genesis_state G (init_accounts accs) [])) (\<lambda>_. gret ())"
  have target: "fuzz_state_transition L C G A =
      gbind (gcatch (arbitrary_fuzz_state A C G)) (\<lambda>r. case r of Inl _ \<Rightarrow> gret () | Inr accs \<Rightarrow> ?body accs)"
    unfolding fuzz_state_transition_def counted_loop_def transition_loop_stepped gbind_assoc ..
  show ?thesis
    unfolding target rules_on_genesis_def
  proof (rule state_target_iff [OF exact_no_bad_seed [OF exact_fuzz_state seed]])
    fix accs assume accs: "drawable_state C (reserved_account_ids G) accs"
    show "judged (?body accs) (rules_hold L C accs of_nat 7 (genesis_state G (init_accounts accs) []))"
      using counted_loop_judged [OF exact_mixed_usable [OF seed accs], of 8 "transition_step L C accs of_nat"]
      by (simp add: run_safe_rules [OF drawable_state_props(1) [OF accs]])
  qed (intro unfailing_intros unfailing_counted_loop)
qed

text \<open>The replay target takes the first step of the same run.\<close>

lemma replay_prevention_target_iff:
  assumes seed: "private_key_try_new C seed_bytes \<noteq> None"
  shows "always_returns (fuzz_replay_prevention L C G A) \<longleftrightarrow> rules_on_genesis L C G of_nat 1"
proof -
  let ?st = "\<lambda>accs. genesis_state G (init_accounts accs) []"
  let ?body = "\<lambda>accs. gbind (stepped_loop (\<lambda>_. mixed_transaction A C accs) (transition_step L C accs of_nat) 0 1 (?st accs))
      (\<lambda>_. gret ())"
  have ignore: "gbind (gbind (gcatch g) (\<lambda>r. case r of Inl _ \<Rightarrow> gret s | Inr x \<Rightarrow> gbind (glift (f x)) gret)) (\<lambda>_. gret ()) =
      gbind (gcatch g) (\<lambda>r. case r of Inl _ \<Rightarrow> gret () | Inr x \<Rightarrow> gbind (glift (f x)) (\<lambda>_. gret ()))"
    for g :: "('u, lee_transaction) gen" and f :: "lee_transaction \<Rightarrow> 'st outcome" and s
    unfolding gbind_assoc
    by (intro arg_cong [where f = "gbind (gcatch g)"] ext) (simp add: gbind_assoc split: sum.split)
  have gate: "gbind (glift (transition_step L C accs of_nat 0 raw st)) (\<lambda>_. gret ()) =
      (case stateless_check L raw of
         Inl _ \<Rightarrow> gret ()
       | Inr tx \<Rightarrow> gbind (glift (checked_execution L C (init_accounts accs) 1 0 (2, 1) tx st)) (\<lambda>_. gret ()))" for accs raw st
    by (cases "stateless_check L raw") (simp_all add: transition_step_def glift_def)
  have target: "fuzz_replay_prevention L C G A =
      gbind (gcatch (arbitrary_fuzz_state A C G)) (\<lambda>r. case r of Inl _ \<Rightarrow> gret () | Inr accs \<Rightarrow> ?body accs)"
    unfolding fuzz_replay_prevention_def Let_def One_nat_def stepped_loop.simps ignore gate ..
  show ?thesis
    unfolding target rules_on_genesis_def
  proof (rule state_target_iff [OF exact_no_bad_seed [OF exact_fuzz_state seed]])
    fix accs assume accs: "drawable_state C (reserved_account_ids G) accs"
    note mixed = exact_mixed_usable [OF seed accs]
    show "judged (?body accs) (rules_hold L C accs of_nat 1 (?st accs))"
      using stepped_loop_judged [OF mixed, of "transition_step L C accs of_nat" 0 1]
      by (simp add: run_safe_rules [OF drawable_state_props(1) [OF accs]] del: stepped_loop.simps)
  qed (intro unfailing_intros unfailing_stepped_loop)
qed

text \<open>The multi-block target also compares the supply at the start and at the end.\<close>

lemma multi_block_target_iff:
  assumes seed: "private_key_try_new C seed_bytes \<noteq> None"
  shows "always_returns (fuzz_multi_block_state_sequence L C G A) \<longleftrightarrow>
    (\<forall>accs. drawable_state C (reserved_account_ids G) accs \<longrightarrow>
       rules_hold L C accs (\<lambda>i. of_nat i * 1000) 15 (genesis_state G (init_accounts accs) []) \<and>
       supply_constant L C accs (\<lambda>i. of_nat i * 1000) 15 (genesis_state G (init_accounts accs) []))"
proof -
  let ?st = "\<lambda>accs. genesis_state G (init_accounts accs) []" and ?time = "\<lambda>i. of_nat i * 1000 :: u64"
  let ?loop = "\<lambda>accs. counted_loop A 16 (\<lambda>_. mixed_transaction A C accs) (transition_step L C accs ?time) (?st accs)"
  let ?sum = "\<lambda>accs st. sum_balances L st (map fa_account_id accs)"
  let ?closing = "\<lambda>accs start st. gbind (glift (?sum accs st)) (\<lambda>ending. gbind (glift (ensure (start = ending)
      (Violation ''LongRangeBalanceConservation''))) (\<lambda>_. gret ()))"
  let ?body = "\<lambda>accs. gbind (glift (?sum accs (?st accs))) (\<lambda>start. gbind (?loop accs) (?closing accs start))"
  have target: "fuzz_multi_block_state_sequence L C G A =
      gbind (gcatch (arbitrary_fuzz_state A C G)) (\<lambda>r. case r of Inl _ \<Rightarrow> gret () | Inr accs \<Rightarrow> ?body accs)"
    unfolding fuzz_multi_block_state_sequence_def multi_block_sequence_def counted_loop_def transition_loop_stepped
      gbind_assoc gbind_gret init_ids ..
  show ?thesis
    unfolding target
  proof (rule state_target_iff [OF exact_no_bad_seed [OF exact_fuzz_state seed]])
    fix accs assume accs: "drawable_state C (reserved_account_ids G) accs"
    let ?rules = "rules_hold L C accs ?time 15 (?st accs)" and ?const = "supply_constant L C accs ?time 15 (?st accs)"
    note mixed = exact_mixed_usable [OF seed accs] and ids = drawable_state_props(1) [OF accs]
    have ending: "judged (?closing accs total st) (?sum accs st = Inr total)" for total st
    proof (rule judged_cong [OF judged_glift [OF judged_then [OF judged_gret]]])
      show "(\<exists>ending. ?sum accs st = Inr ending \<and>
          ensure (total = ending) (Violation ''LongRangeBalanceConservation'') = Inr () \<and> True) \<longleftrightarrow> ?sum accs st = Inr total"
        by (auto simp: ensure_Inr_iff)
    qed
    have "judged (gbind (?loop accs) (?closing accs total))
        (?rules \<and> (\<forall>j<16. \<forall>st. audit_run L C accs ?time (?st accs) j st \<longrightarrow> ?sum accs st = Inr total))" for total
      by (rule judged_cong [OF counted_loop_then_judged [OF mixed _ _ ending]])
        (simp_all add: run_safe_rules [OF ids] visits_audit_run [OF ids])
    then show "judged (?body accs) (?rules \<and> ?const)"
      unfolding supply_constant_iff
      by (intro judged_cong [OF judged_glift]) (force simp: less_Suc_eq_le numeral_eq_Suc)+
  qed (intro unfailing_intros unfailing_counted_loop)
qed

end

end
