(* ===== verification/Sequencer_Coverage.thy ===== *)
theory Sequencer_Coverage
  imports Transition_Coverage
begin

text \<open>
  Completeness of \<open>fuzz_sequencer_vs_replayer\<close>: the mempools the sequencer is fed are all lists of up
  to seven submittable transactions, and the target returns on every input exactly when, from every
  drawable state and for each of them, the replayer reproduces what the sequencer did.
\<close>

subsection \<open>The rule\<close>

definition insert_all :: "account_id list \<Rightarrow> account_id list \<Rightarrow> account_id list" where
  "insert_all ids seen = fold (\<lambda>aid ids. snd (hs_insert aid ids)) ids seen"

lemma set_insert_all [simp]: "set (insert_all ids seen) = set ids \<union> set seen"
  unfolding insert_all_def by (induction ids arbitrary: seen) (auto simp: hs_insert_def)

text \<open>
  The block of accepted transactions replays from the base state and ends with the sequencer's
  accounts; with the clock, the clock transaction is accepted on the replayed state as well.
\<close>

definition replay_agrees ::
  "('st, 'data, 'err, 'diff) lez \<Rightarrow> ('st, 'err, 'diff) public_api \<Rightarrow> ('st, 'data) genesis_api \<Rightarrow>
   bool \<Rightarrow> u64 \<Rightarrow> 'st \<Rightarrow> 'st sequencer \<Rightarrow> bool" where
  "replay_agrees L P G run_clock time base s \<longleftrightarrow>
     (let clock = (\<lambda>st. transition_from_public_transaction P (clock_invocation P 1 time) st 1 time) in
      if run_clock
      then (is_ok (fst (clock (seq_state s))) \<longrightarrow>
        (\<exists>replayed. replay_block L 1 time (seq_accepted s) base = Inr replayed \<and>
           is_ok (fst (clock replayed)) \<and>
           same_accounts L (set (sys_clock_account_ids G) \<union> set (seq_touched s))
             (snd (clock (seq_state s))) (snd (clock replayed))))
      else (\<exists>replayed. replay_block L 1 time (seq_accepted s) base = Inr replayed \<and>
        same_accounts L (set (seq_touched s)) (seq_state s) replayed))"

lemma accounts_equal_same: "accounts_equal L tag tag2 ids st1 st2 = Inr () \<longleftrightarrow> same_accounts L (set ids) st1 st2"
  by (simp add: accounts_equal_iff same_accounts_def)

lemma replay_and_compare_iff:
  "replay_and_compare L P G run_clock 1 time base s = Inr () \<longleftrightarrow> replay_agrees L P G run_clock time base s"
proof (cases run_clock)
  case True
  obtain r sequenced where seq: "transition_from_public_transaction P (clock_invocation P 1 time) (seq_state s) 1 time =
      (r, sequenced)" by fastforce
  have clock: "(case transition_from_public_transaction P (clock_invocation P 1 time) st 1 time of
      (Inl _, _) \<Rightarrow> Inl p | (Inr _, replayed) \<Rightarrow> f replayed) = Inr () \<longleftrightarrow>
      is_ok (fst (transition_from_public_transaction P (clock_invocation P 1 time) st 1 time)) \<and>
      f (snd (transition_from_public_transaction P (clock_invocation P 1 time) st 1 time)) = Inr ()"
    for st and p :: panic and f
    by (auto simp: is_ok_iff split: prod.split sum.split)
  show ?thesis
    using True unfolding replay_and_compare_def replay_agrees_def Let_def seq
    by (cases r) (simp_all add: obind_Inr_iff clock accounts_equal_same flip: insert_all_def)
next
  case False
  then show ?thesis
    unfolding replay_and_compare_def replay_agrees_def Let_def by (simp add: obind_Inr_iff accounts_equal_same)
qed

subsection \<open>The mempool\<close>

definition sequence_step ::
  "('st, 'data, 'err, 'diff) lez \<Rightarrow> u64 \<Rightarrow> nat \<Rightarrow> lee_transaction \<Rightarrow> 'st sequencer \<Rightarrow> 'st sequencer outcome" where
  "sequence_step L time i raw s = Inr (sequence_tx L 1 time raw s)"

lemma sequencer_loop_stepped:
  "sequencer_loop L C A accs 1 time n s =
     stepped_loop (\<lambda>_. mixed_transaction A C accs) (sequence_step L time) i n s"
proof (induction n arbitrary: i s)
  case (Suc n)
  show ?case
    unfolding sequencer_loop.simps stepped_loop.simps sequence_step_def glift_def sum.case gbind_gret Suc.IH [of _ "Suc i"] ..
qed simp

lemma visits_mempool:
  "visits (\<lambda>_. P) (sequence_step L time) i s j t \<longleftrightarrow>
     (\<exists>mempool. (\<forall>raw\<in>set mempool. P raw) \<and> j = i + length mempool \<and> t = fold (sequence_tx L 1 time) mempool s)"
    (is "_ \<longleftrightarrow> (\<exists>mempool. ?is mempool i s)")
proof
  show "visits (\<lambda>_. P) (sequence_step L time) i s j t \<Longrightarrow> \<exists>mempool. ?is mempool i s"
  proof (induction rule: visits.induct)
    case (visits_start i s)
    show ?case by (rule exI [of _ "[]"]) simp
  next
    case (visits_step s raw i s' j t)
    then obtain mempool where "\<forall>raw\<in>set mempool. P raw" "j = Suc i + length mempool"
      "t = fold (sequence_tx L 1 time) mempool s'" by blast
    with visits_step.hyps(1,2) show ?case
      by (intro exI [of _ "raw # mempool"]) (simp add: sequence_step_def)
  qed
  have "\<forall>raw\<in>set mempool. P raw \<Longrightarrow> visits (\<lambda>_. P) (sequence_step L time) i s (i + length mempool)
      (fold (sequence_tx L 1 time) mempool s)" for mempool
  proof (induction mempool arbitrary: i s)
    case (Cons raw mempool)
    from Cons.IH [of "Suc i" "sequence_tx L 1 time raw s"] Cons.prems show ?case
      by (auto intro!: visits_step [of "\<lambda>_. P" s raw "sequence_step L time" i "sequence_tx L 1 time raw s"]
          simp: sequence_step_def [of L time i])
  qed (simp add: visits_start)
  then show "\<exists>mempool. ?is mempool i s \<Longrightarrow> visits (\<lambda>_. P) (sequence_step L time) i s j t" by blast
qed

text \<open>What the sequencer has done after a mempool, from the genesis of the drawn accounts.\<close>

definition sequenced ::
  "('st, 'data, 'err, 'diff) lez \<Rightarrow> ('st, 'data) genesis_api \<Rightarrow> fuzz_account list \<Rightarrow> u64 \<Rightarrow>
   lee_transaction list \<Rightarrow> 'st sequencer" where
  "sequenced L G accs time mempool = fold (sequence_tx L 1 time) mempool
     \<lparr>seq_state = genesis_state G (init_accounts accs) [], seq_accepted = [],
      seq_touched = hs_collect (map fst (init_accounts accs))\<rparr>"

definition sequencer_replays ::
  "('st, 'data, 'err, 'diff) lez \<Rightarrow> ('st, 'err, 'diff) public_api \<Rightarrow> crypto \<Rightarrow> ('st, 'data) genesis_api \<Rightarrow> bool"
  where
  "sequencer_replays L P C G \<longleftrightarrow> (\<forall>accs run_clock time mempool.
     drawable_state C (reserved_account_ids G) accs \<longrightarrow> length mempool \<le> 7 \<longrightarrow>
     (\<forall>raw\<in>set mempool. submittable C accs raw) \<longrightarrow>
     replay_agrees L P G run_clock time (genesis_state G (init_accounts accs) []) (sequenced L G accs time mempool))"

lemma sequence_steps_safe: "run_safe offered (sequence_step L time) i bound s"
  by (simp add: run_safe_def sequence_step_def)

context replayable
begin

lemma sequencer_target_iff:
  assumes seed: "private_key_try_new C seed_bytes \<noteq> None"
  shows "always_returns (fuzz_sequencer_vs_replayer L P C G A) \<longleftrightarrow> sequencer_replays L P C G"
proof -
  let ?st = "\<lambda>accs. genesis_state G (init_accounts accs) []"
  let ?start = "\<lambda>accs. \<lparr>seq_state = ?st accs, seq_accepted = [], seq_touched = hs_collect (map fst (init_accounts accs))\<rparr>"
  let ?loop = "\<lambda>accs time. counted_loop A 8 (\<lambda>_. mixed_transaction A C accs) (sequence_step L time) (?start accs)"
  let ?clock = "\<lambda>selector. unat (selector :: u8) mod 8 = 1"
  let ?compare = "\<lambda>selector accs time s. glift (replay_and_compare L P G (?clock selector) 1 time (?st accs) s)"
  let ?inner = "\<lambda>selector. gbind (gcatch (arbitrary_fuzz_state A C G)) (\<lambda>r. case r of Inl _ \<Rightarrow> gret () | Inr accs \<Rightarrow>
      gbind (gunwrap_or 1000 (prim (draw_u64 A))) (\<lambda>time. gbind (?loop accs time) (?compare selector accs time)))"
  let ?safe = "\<forall>selector. selector \<in> UNIV \<longrightarrow> (\<forall>accs. drawable_state C (reserved_account_ids G) accs \<longrightarrow>
      (\<forall>time. time \<in> UNIV \<longrightarrow> (\<forall>s. (\<exists>j<8. visits (\<lambda>_. submittable C accs) (sequence_step L time) 0 (?start accs) j s) \<longrightarrow>
        replay_and_compare L P G (?clock selector) 1 time (?st accs) s = Inr ())))"
  have target: "fuzz_sequencer_vs_replayer L P C G A = gbind (gunwrap_or 0 (prim (draw_u8 A))) ?inner"
    unfolding fuzz_sequencer_vs_replayer_def counted_loop_def Let_def sequencer_loop_stepped [of L C A _ _ _ _ 0] gbind_assoc ..
  have "judged (fuzz_sequencer_vs_replayer L P C G A) ?safe"
    unfolding target
    by (intro judged_gbind [OF exact_gunwrap_or [OF exact_draw [OF any_u8]]] judged_draw [OF exact_no_bad_seed [OF exact_fuzz_state seed]]
        judged_gbind [OF exact_gunwrap_or [OF exact_draw [OF any_u64]]] judged_gbind [OF exact_counted_loop] judged_check
        exact_mixed_usable [OF seed] sequence_steps_safe) auto
  then have "always_returns (fuzz_sequencer_vs_replayer L P C G A) \<longleftrightarrow> ?safe"
    by (rule judged_returns [OF _ unfailing_sequencer])
  also have "\<dots> \<longleftrightarrow> sequencer_replays L P C G"
  proof -
    have clock: "\<exists>selector. ?clock selector = run_clock" for run_clock
      by (rule exI [of _ "if run_clock then 1 else 0"]) simp
    have runs: "(\<exists>j<8. visits (\<lambda>_. submittable C accs) (sequence_step L time) 0 (?start accs) j s) \<longleftrightarrow>
        (\<exists>mempool. length mempool \<le> 7 \<and> (\<forall>raw\<in>set mempool. submittable C accs raw) \<and> s = sequenced L G accs time mempool)"
      for accs time s
    proof -
      have "length mempool \<le> 7 \<longleftrightarrow> length mempool < 8" for mempool :: "lee_transaction list" by auto
      then show ?thesis unfolding visits_mempool sequenced_def by (simp only: add_0) blast
    qed
    show ?thesis
      unfolding runs replay_and_compare_iff sequencer_replays_def
    proof (intro iffI allI impI)
      fix accs run_clock time and mempool :: "lee_transaction list"
      assume all: "\<forall>selector. selector \<in> UNIV \<longrightarrow> (\<forall>accs. drawable_state C (reserved_account_ids G) accs \<longrightarrow>
          (\<forall>time. time \<in> UNIV \<longrightarrow> (\<forall>s. (\<exists>mempool. length mempool \<le> 7 \<and> (\<forall>raw\<in>set mempool. submittable C accs raw) \<and>
             s = sequenced L G accs time mempool) \<longrightarrow> replay_agrees L P G (?clock selector) time (?st accs) s)))"
      obtain selector where "?clock selector = run_clock" using clock by blast
      moreover assume "drawable_state C (reserved_account_ids G) accs" "length mempool \<le> 7"
        "\<forall>raw\<in>set mempool. submittable C accs raw"
      ultimately show "replay_agrees L P G run_clock time (?st accs) (sequenced L G accs time mempool)"
        using all [rule_format, of selector accs time "sequenced L G accs time mempool"] by blast
    qed blast
  qed
  finally show ?thesis .
qed

end

end
