(* ===== verification/Privacy_Coverage.thy ===== *)
theory Privacy_Coverage
  imports Sequencer_Coverage
begin

text \<open>
  The exact ranges of the privacy-preserving generators: which messages, transactions and conflicting
  pairs some input yields, as predicates on the values. The circuit, the encryption and the
  commitment scheme stay parameters, so a range says which arguments they are applied to.
\<close>

subsection \<open>Accounts, effects, windows\<close>

lemma exact_glift: "(\<And>p. r = Inl p \<Longrightarrow> Q p) \<Longrightarrow> exact_gen (glift r) (\<lambda>x. r = Inr x) Q"
  by (rule exact_genI) (auto intro: contract_glift reaches_glift)

definition drawable_account :: "('st, 'data) genesis_api \<Rightarrow> 'data account \<Rightarrow> bool" where
  "drawable_account G a \<longleftrightarrow> (\<exists>b n. unat n < 1024 \<and> a = (account_funded G b)\<lparr>acc_nonce := n\<rparr>)"

fun drawable_effect :: "('st, 'data) privacy_api \<Rightarrow> deferred_public_effect \<Rightarrow> bool" where
  "drawable_effect V \<lparr>eff_program_account_id = p, eff_shard_program_account_id = s, eff_data = d\<rparr> \<longleftrightarrow>
     account_id_ok p \<and> account_id_ok s \<or>
     p = native_token_program_id V \<and> s = native_token_program_id V \<and> (\<exists>e. native_effect_to_vec V e = Some d)"

definition drawable_effects :: "('st, 'data) privacy_api \<Rightarrow> deferred_public_effect list \<Rightarrow> bool" where
  "drawable_effects V es \<longleftrightarrow> length es \<le> 2 \<and> (\<forall>e\<in>set es. drawable_effect V e)"

definition drawable_ciphertext :: "('st, 'data) genesis_api \<Rightarrow> ('st, 'data) privacy_api \<Rightarrow> ciphertext \<Rightarrow> bool" where
  "drawable_ciphertext G V c \<longleftrightarrow> (\<exists>account identifier secret aid. drawable_account G account \<and> length identifier = 32 \<and>
     length secret = 32 \<and> length aid = 32 \<and>
     c = encryption_encrypt V account identifier secret (nullifier_for_account_initialization V (AccountId aid)))"

definition drawable_commitment :: "('st, 'data) genesis_api \<Rightarrow> ('st, 'data) privacy_api \<Rightarrow> commitment \<Rightarrow> bool" where
  "drawable_commitment G V c \<longleftrightarrow> (\<exists>aid account. length aid = 32 \<and> drawable_account G account \<and>
     c = commitment_new V (AccountId aid) account)"

definition drawable_nullifier :: "('st, 'data) privacy_api \<Rightarrow> nullifier \<Rightarrow> bool" where
  "drawable_nullifier V n \<longleftrightarrow> (\<exists>aid. length aid = 32 \<and> n = nullifier_for_account_initialization V (AccountId aid))"

definition drawable_private_action ::
  "('st, 'data) genesis_api \<Rightarrow> ('st, 'data) privacy_api \<Rightarrow> commitment_set_digest \<Rightarrow> private_action \<Rightarrow> bool" where
  "drawable_private_action G V live_root a \<longleftrightarrow> drawable_nullifier V (pra_nullifier a) \<and>
     (pra_root a = live_root \<or> length (pra_root a) = 32) \<and> drawable_commitment G V (pra_commitment a) \<and>
     drawable_ciphertext G V (ead_ciphertext (pra_encrypted_post_state a))"

definition nameable :: "fuzz_account list \<Rightarrow> account_id \<Rightarrow> bool" where
  "nameable accounts x \<longleftrightarrow> account_id_ok x \<or> x \<in> fa_account_id ` set accounts"

text \<open>The signers, or none of them, then up to three more accounts, known or not, none twice.\<close>

definition drawable_public_ids :: "fuzz_account list \<Rightarrow> account_id list \<Rightarrow> account_id list \<Rightarrow> bool" where
  "drawable_public_ids accounts signer_ids ids \<longleftrightarrow> (\<exists>base extra. (base = [] \<or> base = signer_ids) \<and> ids = base @ extra \<and>
     length extra \<le> 3 \<and> distinct ids \<and> (\<forall>x\<in>set extra. nameable accounts x))"

definition drawable_pp_message ::
  "('st, 'data, 'err, 'diff) lez \<Rightarrow> ('st, 'data) genesis_api \<Rightarrow> ('st, 'data) privacy_api \<Rightarrow> 'st \<Rightarrow>
   fuzz_account list \<Rightarrow> account_id list \<Rightarrow> pp_message \<Rightarrow> bool" where
  "drawable_pp_message L G V st accounts signer_ids m \<longleftrightarrow>
     ppm_nonces m = map (account_nonce L st) signer_ids \<and>
     drawable_public_ids accounts signer_ids (map pai_account_id (ppm_public_actions m)) \<and>
     (\<forall>a\<in>set (ppm_public_actions m). drawable_effects V (pai_effects a)) \<and>
     ppm_private_actions m \<noteq> [] \<and> length (ppm_private_actions m) \<le> 3 \<and>
     private_actions_unique (ppm_private_actions m) \<and>
     (\<forall>a\<in>set (ppm_private_actions m). drawable_private_action G V (commitment_set_digest V st) a) \<and>
     window_ok V (ppm_block_validity_window m) \<and> window_ok V (ppm_timestamp_validity_window m) \<and>
     ppm_program_image_claims m = []"

definition drawable_pp_tx ::
  "('st, 'data, 'err, 'diff) lez \<Rightarrow> crypto \<Rightarrow> ('st, 'data) genesis_api \<Rightarrow> ('st, 'data) privacy_api \<Rightarrow> 'st \<Rightarrow>
   fuzz_account list \<Rightarrow> pp_transaction \<Rightarrow> bool" where
  "drawable_pp_tx L C G V st accounts tx \<longleftrightarrow> (\<exists>keys ids proof. signers_ok C accounts keys ids \<and> length ids \<le> 3 \<and>
     drawable_pp_message L G V st accounts ids (ppt_message tx) \<and>
     ppt_witness_set tx = pp_witness_for_message V (ppt_message tx) proof keys)"

text \<open>Two pure private transactions of different signers around one nullifier.\<close>

definition drawable_nullifier_pair ::
  "('st, 'data, 'err, 'diff) lez \<Rightarrow> crypto \<Rightarrow> ('st, 'data) genesis_api \<Rightarrow> ('st, 'data) privacy_api \<Rightarrow> 'st \<Rightarrow>
   fuzz_account list \<Rightarrow> pp_transaction \<times> pp_transaction \<Rightarrow> bool" where
  "drawable_nullifier_pair L C G V st accounts = (\<lambda>(tx_b, tx_c).
     \<exists>x\<in>set accounts. \<exists>y\<in>set accounts. \<exists>n comm_b comm_c post_b post_c.
       account_id_for_key C (fa_private_key x) \<noteq> account_id_for_key C (fa_private_key y) \<and> comm_b \<noteq> comm_c \<and>
       drawable_nullifier V n \<and> drawable_commitment G V comm_b \<and> drawable_commitment G V comm_c \<and>
       drawable_ciphertext G V (ead_ciphertext post_b) \<and> drawable_ciphertext G V (ead_ciphertext post_c) \<and>
       build_pure_private_tx L C V st (fa_private_key x)
         [\<lparr>pra_nullifier = n, pra_root = commitment_set_digest V st, pra_commitment = comm_b,
           pra_encrypted_post_state = post_b\<rparr>] = Inr tx_b \<and>
       build_pure_private_tx L C V st (fa_private_key y)
         [\<lparr>pra_nullifier = n, pra_root = commitment_set_digest V st, pra_commitment = comm_c,
           pra_encrypted_post_state = post_c\<rparr>] = Inr tx_c)"

text \<open>What is drawable is well-formed.\<close>

lemma drawable_pp_tx_ok: "drawable_pp_tx L C G V st accounts tx \<Longrightarrow> pp_tx_ok L C V st accounts tx"
  unfolding drawable_pp_tx_def pp_tx_ok_def drawable_pp_message_def pp_message_ok_def drawable_effects_def
    drawable_public_ids_def by metis

definition extra_account :: "'u arbitrary_api \<Rightarrow> fuzz_account list \<Rightarrow> ('u, account_id) gen" where
  "extra_account A accounts = gbind (if accounts \<noteq> [] then prim (draw_bool A) else gret False) (\<lambda>known.
     if known then gbind (draw_index A (length accounts)) (\<lambda>i.
                 gbind (glift (index accounts i)) (\<lambda>account. gret (fa_account_id account)))
     else gbind (prim (draw_bytes32 A)) (\<lambda>b. gret (AccountId b)))"

lemma extra_accounts_loop_step:
  "extra_accounts_loop A accounts (Suc n) ids =
     gbind (extra_account A accounts) (\<lambda>x. extra_accounts_loop A accounts n (if x \<in> set ids then ids else ids @ [x]))"
  by (simp add: extra_account_def gbind_assoc)

lemma exact_gmap:
  assumes "\<And>x. exact_gen (f x) (R x) Q"
  shows "exact_gen (gmap f xs) (list_all2 R xs) Q"
proof (induction xs)
  case Nil
  show ?case by (simp, rule exact_cong [OF exact_gret]) simp
next
  case (Cons x xs)
  show ?case
    unfolding gmap.simps
    by (rule exact_cong [OF exact_gbind [OF assms exact_gbind [OF Cons.IH exact_gret]]]) (auto simp: list_all2_Cons1)
qed

context replayable
begin

lemma exact_account: "exact_gen (arb_account A G) (drawable_account G) Q"
proof (rule exact_cong)
  show "exact_gen (arb_account A G) (\<lambda>a. \<exists>n. n \<in> UNIV \<and> (\<exists>b. b \<in> UNIV \<and>
      a = (account_funded G b)\<lparr>acc_nonce := n mod 1024\<rparr>)) Q"
    unfolding arb_account_def by (intro exact_gbind [OF exact_draw [OF any_u128]] exact_gret)
  fix a
  have "unat (n mod 1024) < 1024" for n :: u128 by (simp add: unat_mod)
  moreover have "n mod 1024 = n" if "unat n < 1024" for n :: u128
    using that by (simp add: word_unat_eq_iff unat_mod)
  ultimately show "(\<exists>n. n \<in> UNIV \<and> (\<exists>b. b \<in> UNIV \<and> a = (account_funded G b)\<lparr>acc_nonce := n mod 1024\<rparr>)) \<longleftrightarrow>
      drawable_account G a"
    unfolding drawable_account_def by (metis UNIV_I)
qed

lemma exact_bound: "exact_gen (arb_bound A) (pred_option (\<lambda>b. b < 8)) Q"
proof (rule exact_genI [OF contract_bound])
  fix b :: "u64 option" assume b: "pred_option (\<lambda>b. b < 8) b"
  show "reaches (arb_bound A) b"
  proof (cases b)
    case None
    show ?thesis
      unfolding arb_bound_def None by (rule reaches_gbind [OF reaches_prim [OF any_bool, of False]]) (simp_all add: reaches_gret)
  next
    case (Some c)
    define k where "k = unat c"
    have k: "k < 8" "c = of_nat k" using b Some by (simp_all add: k_def word_less_nat_alt)
    then have "ucast ((of_nat k :: u8) mod 8) = c" by (simp add: word_unat_eq_iff unat_ucast_up unat_mod unat_of_nat)
    then show ?thesis
      unfolding arb_bound_def Some
      by (intro reaches_gbind [OF reaches_prim [OF any_bool, of True]])
        (simp_all, intro reaches_gbind [OF reaches_gunwrap_or [OF reaches_prim [OF any_u8, of "of_nat k"]]],
          simp_all add: reaches_gret)
  qed
qed

lemma exact_window: "exact_gen (arb_validity_window A V) (window_ok V) Q"
proof (rule exact_genI [OF contract_validity_window])
  fix w assume w: "window_ok V w"
  note coin = exact_gen.reached [OF exact_draw_below [OF _ _ any_u8, of 4]]
  show "reaches (arb_validity_window A V) w"
  proof (cases "w = validity_window_unbounded V")
    case True
    then show ?thesis
      unfolding arb_validity_window_def by (intro reaches_gbind [OF coin, of 1]) (simp_all add: reaches_gret)
  next
    case False
    with w obtain a b where "validity_window_try_from V (a, b) = Some w" "pred_option (\<lambda>b. b < 8) a" "pred_option (\<lambda>b. b < 8) b"
      by (auto simp: window_ok_def)
    then show ?thesis
      unfolding arb_validity_window_def
      by (intro reaches_gbind [OF coin, of 0]) (simp_all, intro reaches_gbind [OF exact_gen.reached [OF exact_bound, of a]]
          reaches_gbind [OF exact_gen.reached [OF exact_bound, of b]], simp_all add: reaches_gret)
  qed
qed

lemma contract_bytes32: "contract_gen (prim (draw_bytes32 A)) (\<lambda>b. length b = 32) Q"
  using exact_gen.axioms(1) [OF exact_draw [OF any_bytes32]] by simp

lemma exact_effect: "exact_gen (arb_public_effect A V) (drawable_effect V) (encode_panic V)"
proof (rule exact_genI)
  show "contract_gen (arb_public_effect A V) (drawable_effect V) (encode_panic V)"
    unfolding arb_public_effect_def
    apply (rule contract_gbind [OF contract_draw_below], simp)
    apply (rule contract_if)
     apply (rule contract_gbind [OF contract_bytes32], rule contract_gbind [OF contract_bytes32],
        rule contract_gbind_any [OF contract_prim], rule contract_gret, simp)
    apply (rule contract_gbind_any [OF contract_prim], rule contract_gbind_any [OF contract_prim])
    apply (rule contract_gbind [OF contract_glift [where P = "\<lambda>d. \<exists>e. native_effect_to_vec V e = Some d"]])
      apply (auto simp: expect_Inl_iff expect_Inr_iff encode_panic_def intro!: contract_gret split: if_splits)
    done
  fix e assume e: "drawable_effect V e"
  obtain p s d where fields: "e = \<lparr>eff_program_account_id = p, eff_shard_program_account_id = s, eff_data = d\<rparr>"
    by (cases e) auto
  note coin = exact_gen.reached [OF exact_draw_below [OF _ _ any_u8, of 4]]
  from e fields consider (other) "account_id_ok p" "account_id_ok s"
    | (native) n where "p = native_token_program_id V" "s = native_token_program_id V" "native_effect_to_vec V n = Some d"
    by auto
  then show "reaches (arb_public_effect A V) e"
  proof cases
    case other
    then obtain bp bs where "p = AccountId bp" "length bp = 32" "s = AccountId bs" "length bs = 32"
      by (cases p; cases s) auto
    then show ?thesis
      unfolding arb_public_effect_def fields
      by (intro reaches_gbind [OF coin, of 0]) (simp_all, intro reaches_gbind [OF reaches_prim [OF any_bytes32, of bp]]
          reaches_gbind [OF reaches_prim [OF any_bytes32, of bs]] reaches_gbind [OF reaches_prim [OF any_vec_u8, of d]],
          simp_all add: reaches_gret)
  next
    case native
    obtain amount debit where "n = (if debit then Debit amount else Credit amount)" by (cases n) (auto intro: that [of True] that [of False])
    with native show ?thesis
      unfolding arb_public_effect_def fields
      by (intro reaches_gbind [OF coin, of 1]) (simp_all, intro reaches_gbind [OF reaches_prim [OF any_u128, of amount]]
          reaches_gbind [OF reaches_prim [OF any_bool, of debit]] reaches_gbind [OF reaches_glift, of _ d],
          simp_all add: reaches_gret)
  qed
qed


lemma exact_effects: "exact_gen (arb_public_effects A V) (drawable_effects V) (encode_panic V)"
proof (rule exact_cong)
  show "exact_gen (arb_public_effects A V) (\<lambda>es. \<exists>n. n < 3 \<and> (length es = n \<and> (\<forall>e\<in>set es. drawable_effect V e))) (encode_panic V)"
    unfolding arb_public_effects_def
    by (rule exact_gbind [OF exact_draw_below [OF _ _ any_u8] exact_grepeat [OF exact_effect]]) simp_all
qed (auto simp: drawable_effects_def)

subsection \<open>Actions\<close>

lemma exact_public_actions:
  "exact_gen (arb_public_actions A V ids)
     (\<lambda>as. map pai_account_id as = ids \<and> (\<forall>a\<in>set as. drawable_effects V (pai_effects a))) (encode_panic V)"
proof (rule exact_cong)
  have one: "exact_gen (gbind (arb_public_effects A V) (\<lambda>effects. gret \<lparr>pai_account_id = aid, pai_effects = effects\<rparr>))
      (\<lambda>a. pai_account_id a = aid \<and> drawable_effects V (pai_effects a)) (encode_panic V)" for aid
  proof (rule exact_cong, rule exact_gbind [OF exact_effects exact_gret])
    fix a :: public_action_with_id
    show "(\<exists>effects. drawable_effects V effects \<and> a = \<lparr>pai_account_id = aid, pai_effects = effects\<rparr>) \<longleftrightarrow>
        pai_account_id a = aid \<and> drawable_effects V (pai_effects a)"
      by (cases a) auto
  qed
  show "exact_gen (arb_public_actions A V ids)
      (list_all2 (\<lambda>aid a. pai_account_id a = aid \<and> drawable_effects V (pai_effects a)) ids) (encode_panic V)"
    unfolding arb_public_actions_def by (rule exact_gmap [OF one])
  show "list_all2 (\<lambda>aid a. pai_account_id a = aid \<and> drawable_effects V (pai_effects a)) ids as \<longleftrightarrow>
      map pai_account_id as = ids \<and> (\<forall>a\<in>set as. drawable_effects V (pai_effects a))" for as
    by (induction ids arbitrary: as) (auto simp: list_all2_Cons1 Cons_eq_map_conv)
qed

lemma exact_encrypted:
  "exact_gen (arb_encrypted_account_data A G V) (\<lambda>e. drawable_ciphertext G V (ead_ciphertext e)) Q"
proof (rule exact_cong)
  let ?cipher = "\<lambda>account identifier secret aid.
    encryption_encrypt V account identifier secret (nullifier_for_account_initialization V (AccountId aid))"
  show "exact_gen (arb_encrypted_account_data A G V)
      (\<lambda>e. \<exists>account. drawable_account G account \<and> (\<exists>identifier. identifier \<in> {b. length b = 32} \<and>
        (\<exists>secret. secret \<in> {b. length b = 32} \<and> (\<exists>aid. aid \<in> {b. length b = 32} \<and> (\<exists>epk. epk \<in> UNIV \<and>
        (\<exists>tag. tag \<in> UNIV \<and> e = \<lparr>ead_ciphertext = ?cipher account identifier secret aid, ead_epk = epk, ead_view_tag = tag\<rparr>)))))) Q"
    unfolding arb_encrypted_account_data_def Let_def
    by (intro exact_gbind [OF exact_account] exact_gbind [OF exact_draw [OF any_bytes32]]
        exact_gbind [OF exact_draw [OF any_vec_u8]] exact_gbind [OF exact_draw [OF any_u8]] exact_gret)
  fix e :: encrypted_account_data
  show "(\<exists>account. drawable_account G account \<and> (\<exists>identifier. identifier \<in> {b. length b = 32} \<and>
        (\<exists>secret. secret \<in> {b. length b = 32} \<and> (\<exists>aid. aid \<in> {b. length b = 32} \<and> (\<exists>epk. epk \<in> UNIV \<and>
        (\<exists>tag. tag \<in> UNIV \<and> e = \<lparr>ead_ciphertext = ?cipher account identifier secret aid, ead_epk = epk, ead_view_tag = tag\<rparr>))))))
      \<longleftrightarrow> drawable_ciphertext G V (ead_ciphertext e)"
    by (cases e) (auto simp: drawable_ciphertext_def)
qed

lemma exact_commitment: "exact_gen (arb_commitment A G V) (drawable_commitment G V) Q"
proof (rule exact_cong)
  show "exact_gen (arb_commitment A G V) (\<lambda>c. \<exists>aid. aid \<in> {b. length b = 32} \<and> (\<exists>account. drawable_account G account \<and>
      c = commitment_new V (AccountId aid) account)) Q"
    unfolding arb_commitment_def
    by (intro exact_gbind [OF exact_account] exact_gbind [OF exact_draw [OF any_bytes32]] exact_gret)
qed (simp add: drawable_commitment_def Bex_def)

lemma exact_root: "exact_gen (gbind (prim (draw_bool A)) (\<lambda>live. gbind (if live then gret root else prim (draw_bytes32 A)) f))
    (\<lambda>x. \<exists>r. (r = root \<or> length r = 32) \<and> P r x) Q"
  if "\<And>r. exact_gen (f r) (P r) Q"
proof (rule exact_cong)
  show "exact_gen (gbind (prim (draw_bool A)) (\<lambda>live. gbind (if live then gret root else prim (draw_bytes32 A)) f))
      (\<lambda>x. \<exists>live. live \<in> UNIV \<and> (\<exists>r. (if live then r = root else r \<in> {b. length b = 32}) \<and> P r x)) Q"
    by (intro exact_gbind [OF exact_draw [OF any_bool]] exact_gbind [OF exact_if] exact_gret exact_draw [OF any_bytes32] that)
qed (simp add: ex_bool_eq, blast)

lemma exact_private_action:
  "exact_gen (arb_private_action A G V root) (drawable_private_action G V root) Q"
proof (rule exact_cong)
  show "exact_gen (arb_private_action A G V root) (\<lambda>a. \<exists>aid. aid \<in> {b. length b = 32} \<and>
      (\<exists>r. (r = root \<or> length r = 32) \<and> (\<exists>c. drawable_commitment G V c \<and>
      (\<exists>post. drawable_ciphertext G V (ead_ciphertext post) \<and>
        a = \<lparr>pra_nullifier = nullifier_for_account_initialization V (AccountId aid), pra_root = r, pra_commitment = c,
             pra_encrypted_post_state = post\<rparr>)))) Q"
    unfolding arb_private_action_def Let_def
    by (intro exact_gbind [OF exact_draw [OF any_bytes32]] exact_root exact_gbind [OF exact_commitment]
        exact_gbind [OF exact_encrypted] exact_gret)
  fix a :: private_action
  show "(\<exists>aid. aid \<in> {b. length b = 32} \<and>
      (\<exists>r. (r = root \<or> length r = 32) \<and> (\<exists>c. drawable_commitment G V c \<and>
      (\<exists>post. drawable_ciphertext G V (ead_ciphertext post) \<and>
        a = \<lparr>pra_nullifier = nullifier_for_account_initialization V (AccountId aid), pra_root = r, pra_commitment = c,
             pra_encrypted_post_state = post\<rparr>)))) \<longleftrightarrow> drawable_private_action G V root a"
    by (cases a) (auto simp: drawable_private_action_def drawable_nullifier_def)
qed


subsection \<open>Lists drawn without repetition\<close>

lemma private_actions_loop_reaches:
  assumes "private_actions_unique (xs @ ys)" and "\<forall>a\<in>set ys. drawable_private_action G V root a"
  shows "reaches (private_actions_loop A G V root (length ys) xs) (xs @ ys)"
  using assms
proof (induction ys arbitrary: xs)
  case (Cons y ys)
  then have "pra_nullifier y \<notin> pra_nullifier ` set xs" "pra_commitment y \<notin> pra_commitment ` set xs"
    by (simp_all add: private_actions_unique_def)
  then have "push_private_action_if_unique xs y = xs @ [y]"
    by (simp add: push_private_action_if_unique_def list_ex_iff image_iff Bex_def) metis
  moreover have "reaches (private_actions_loop A G V root (length ys) (xs @ [y])) (xs @ y # ys)"
    using Cons.IH [of "xs @ [y]"] Cons.prems by simp
  ultimately show ?case
    using Cons.prems(2) by (auto intro!: reaches_gbind [OF exact_gen.reached [OF exact_private_action]])
qed (simp add: reaches_gret)

lemma private_actions_loop_drawable:
  assumes "\<forall>a\<in>set xs. drawable_private_action G V root a"
  shows "contract_gen (private_actions_loop A G V root n xs) (\<lambda>ys. \<forall>a\<in>set ys. drawable_private_action G V root a) Q"
  using assms
proof (induction n arbitrary: xs)
  case (Suc n)
  show ?case
    unfolding private_actions_loop.simps
    by (rule contract_gbind [OF exact_gen.axioms(1) [OF exact_private_action]], rule Suc.IH)
      (use Suc.prems in \<open>auto simp: push_private_action_if_unique_def\<close>)
qed (auto intro: contract_gret)

lemma exact_private_actions:
  "exact_gen (arb_private_actions A G V root) (\<lambda>as. as \<noteq> [] \<and> length as \<le> 3 \<and> private_actions_unique as \<and>
     (\<forall>a\<in>set as. drawable_private_action G V root a)) Q"
proof (rule exact_genI)
  have "contract_gen (arb_private_actions A G V root) (\<lambda>as. \<forall>a\<in>set as. drawable_private_action G V root a) Q"
    unfolding arb_private_actions_def
    by (rule contract_gbind [OF contract_draw_below], simp, rule contract_gbind [OF private_actions_loop_drawable], simp,
        intro contract_if contract_gret contract_gbind [OF exact_gen.axioms(1) [OF exact_private_action]]) auto
  from contract_conj [OF contract_private_actions this]
  show "contract_gen (arb_private_actions A G V root) (\<lambda>as. as \<noteq> [] \<and> length as \<le> 3 \<and> private_actions_unique as \<and>
     (\<forall>a\<in>set as. drawable_private_action G V root a)) Q"
    by (rule contract_weaken) auto
  fix as assume as: "as \<noteq> [] \<and> length as \<le> 3 \<and> private_actions_unique as \<and> (\<forall>a\<in>set as. drawable_private_action G V root a)"
  then have n: "length as < 4" and loop: "reaches (private_actions_loop A G V root (length as) []) as"
    by (simp, intro private_actions_loop_reaches [where xs = "[]", simplified]) (use as in simp_all)
  show "reaches (arb_private_actions A G V root) as"
    unfolding arb_private_actions_def
    by (rule reaches_gbind [OF exact_gen.reached [OF exact_draw_below [OF _ _ any_u8] n]], simp, simp,
        rule reaches_gbind [OF loop]) (use as in \<open>simp add: reaches_gret\<close>)
qed

lemma signers_loop_reaches:
  assumes "length accounts \<le> 256" and "distinct (ids @ map (account_id_for_key C) ks)"
    and "set ks \<subseteq> fa_private_key ` set accounts"
  shows "reaches (signers_loop A C accounts (length ks) keys ids) (keys @ ks, ids @ map (account_id_for_key C) ks)"
  using assms(2,3)
proof (induction ks arbitrary: keys ids)
  case (Cons k ks)
  then obtain x where "x \<in> set accounts" "k = fa_private_key x" by auto
  then obtain i where i: "i < length accounts" "fa_private_key (accounts ! i) = k" by (auto simp: in_set_conv_nth)
  then have pos: "0 < length accounts" by auto
  have fresh: "account_id_for_key C k \<notin> set ids" using Cons.prems(1) by simp
  have "reaches (signers_loop A C accounts (length ks) (keys @ [k]) (ids @ [account_id_for_key C k]))
      (keys @ k # ks, ids @ map (account_id_for_key C) (k # ks))"
    using Cons.IH [of "ids @ [account_id_for_key C k]" "keys @ [k]"] Cons.prems by simp
  then show ?case
    using i(2) fresh
    by (simp add: Let_def, intro reaches_gbind [OF exact_gen.reached [OF exact_draw_index [OF pos assms(1)] i(1)]]
        reaches_gbind [OF reaches_glift, of _ "accounts ! i"]) (simp_all add: index_def i)
qed (simp add: reaches_gret)

lemma exact_signers:
  assumes "length accounts \<le> 256"
  shows "exact_gen (arb_signers A C accounts) (\<lambda>(keys, ids). signers_ok C accounts keys ids \<and> length ids \<le> 3) Q"
proof (rule exact_genI [OF contract_signers], clarify)
  fix keys ids assume ok: "signers_ok C accounts keys ids" and short: "length ids \<le> 3"
  then have keys: "ids = map (account_id_for_key C) keys" "distinct (map (account_id_for_key C) keys)"
    "set keys \<subseteq> fa_private_key ` set accounts" by (auto simp: signers_ok_def)
  have "length keys = card (set keys)" using keys(2) by (simp add: distinct_card distinct_map)
  also have "\<dots> \<le> card (fa_private_key ` set accounts)" by (rule card_mono [OF _ keys(3)]) simp
  also have "\<dots> \<le> length accounts" by (meson card_image_le card_length finite_set order_trans)
  finally have le: "length keys \<le> min (length accounts) 3" using short keys(1) by simp
  have count: "reaches (if min (length accounts) 3 = 0 then gret 0 else draw_below A (min (length accounts) 3 + 1)) (length keys)"
  proof (cases "min (length accounts) 3 = 0")
    case True
    with le have "length keys = 0" by linarith
    with True show ?thesis by (simp add: reaches_gret)
  next
    case False
    have "length keys < min (length accounts) 3 + 1" using le by linarith
    with False show ?thesis
      by (simp only: if_False) (rule exact_gen.reached [OF exact_draw_below [OF _ _ any_u8]], simp_all)
  qed
  have "reaches (signers_loop A C accounts (length keys) [] []) (keys, ids)"
    using signers_loop_reaches [OF assms, of "[]" C keys "[]"] keys by simp
  then show "reaches (arb_signers A C accounts) (keys, ids)"
    unfolding arb_signers_def Let_def by (rule reaches_gbind [OF count])
qed

lemma exact_extra_account:
  assumes "length accounts \<le> 256"
  shows "exact_gen (extra_account A accounts) (nameable accounts) Q"
proof (rule exact_cong)
  show "exact_gen (extra_account A accounts)
    (\<lambda>x. \<exists>known. (if accounts \<noteq> [] then known \<in> UNIV else known = False) \<and>
       (if known then accounts \<noteq> [] \<and> x \<in> fa_account_id ` set accounts else account_id_ok x)) Q"
    unfolding extra_account_def
  proof (intro exact_gbind exact_if exact_gret exact_draw [OF any_bool])
    fix known assume "if accounts \<noteq> [] then known \<in> UNIV else known = False" known
    then have ne: "accounts \<noteq> []" and pos: "0 < length accounts" by (auto split: if_splits)
    show "exact_gen (gbind (draw_index A (length accounts)) (\<lambda>i.
        gbind (glift (index accounts i)) (\<lambda>account. gret (fa_account_id account))))
        (\<lambda>x. accounts \<noteq> [] \<and> x \<in> fa_account_id ` set accounts) Q"
    proof (rule exact_cong, rule exact_gbind [OF exact_draw_index [OF pos assms]], rule exact_gbind [OF exact_glift exact_gret])
      show "(\<exists>i<length accounts. \<exists>a. index accounts i = Inr a \<and> x = fa_account_id a) \<longleftrightarrow>
          accounts \<noteq> [] \<and> x \<in> fa_account_id ` set accounts" for x
        using ne by (auto simp: index_def in_set_conv_nth image_iff Bex_def)
    qed (simp add: index_def)
  next
    show "exact_gen (gbind (prim (draw_bytes32 A)) (\<lambda>b. gret (AccountId b))) account_id_ok Q"
      using exact_account_id unfolding arb_account_id_def .
  qed
qed (auto simp: nameable_def ex_bool_eq)

lemma extra_accounts_loop_reaches:
  assumes "length accounts \<le> 256" and "distinct (ids @ extra)" and "\<forall>x\<in>set extra. nameable accounts x"
  shows "reaches (extra_accounts_loop A accounts (length extra) ids) (ids @ extra)"
  using assms(2,3)
proof (induction extra arbitrary: ids)
  case (Cons x extra)
  then have "reaches (extra_accounts_loop A accounts (length extra) (ids @ [x])) (ids @ x # extra)"
    using Cons.IH [of "ids @ [x]"] by simp
  with Cons.prems show ?case
    by (simp only: extra_accounts_loop_step list.size(4) add_Suc_right add_0_right One_nat_def)
      (intro reaches_gbind [OF exact_gen.reached [OF exact_extra_account [OF assms(1)]], of x], auto)
qed (simp add: reaches_gret)

lemma extra_accounts_loop_contract:
  assumes "length accounts \<le> 256" and "distinct ids"
  shows "contract_gen (extra_accounts_loop A accounts n ids)
    (\<lambda>r. \<exists>extra. r = ids @ extra \<and> length extra \<le> n \<and> distinct r \<and> (\<forall>x\<in>set extra. nameable accounts x)) Q"
  using assms(2)
proof (induction n arbitrary: ids)
  case 0
  then show ?case by (auto intro: contract_gret)
next
  case (Suc n)
  let ?P = "\<lambda>k ids r. \<exists>extra. r = ids @ extra \<and> length extra \<le> k \<and> distinct r \<and> (\<forall>x\<in>set extra. nameable accounts x)"
  show ?case
    unfolding extra_accounts_loop_step
  proof (rule contract_gbind [OF exact_gen.axioms(1) [OF exact_extra_account [OF assms(1)]]])
    fix x assume x: "nameable accounts x"
    show "contract_gen (extra_accounts_loop A accounts n (if x \<in> set ids then ids else ids @ [x])) (?P (Suc n) ids) Q"
    proof (cases "x \<in> set ids")
      case True
      have "contract_gen (extra_accounts_loop A accounts n ids) (?P (Suc n) ids) Q"
        by (rule contract_weaken [OF Suc.IH [OF Suc.prems]]) auto
      with True show ?thesis by simp
    next
      case False
      with Suc.prems have "distinct (ids @ [x])" by simp
      from Suc.IH [OF this] have "contract_gen (extra_accounts_loop A accounts n (ids @ [x])) (?P (Suc n) ids) Q"
        by (rule contract_weaken) (use x in \<open>force simp: Cons_eq_append_conv\<close>)
      with False show ?thesis by simp
    qed
  qed
qed

lemma exact_public_ids:
  assumes "length accounts \<le> 256" and "distinct signer_ids"
  shows "exact_gen (arb_public_account_ids A accounts signer_ids) (drawable_public_ids accounts signer_ids) Q"
proof (rule exact_genI)
  have base: "distinct (if b then signer_ids else [])" for b using assms(2) by simp
  have range: "drawable_public_ids accounts signer_ids r"
    if "n < 4" and "\<exists>extra. r = (if b then signer_ids else []) @ extra \<and> length extra \<le> n \<and> distinct r \<and>
      (\<forall>x\<in>set extra. nameable accounts x)" for b n r
    using that unfolding drawable_public_ids_def by (cases b) (fastforce intro: exI [of _ "[]"])+
  show "contract_gen (arb_public_account_ids A accounts signer_ids) (drawable_public_ids accounts signer_ids) Q"
    unfolding arb_public_account_ids_def
    by (rule contract_gbind_any [OF contract_prim], rule contract_gbind [OF contract_draw_below], simp,
        rule contract_weaken [OF extra_accounts_loop_contract [OF assms(1) base]], erule (1) range)
  fix ids assume "drawable_public_ids accounts signer_ids ids"
  then obtain base extra where ids: "ids = base @ extra" "length extra \<le> 3" "distinct (base @ extra)"
      "\<forall>x\<in>set extra. nameable accounts x" and b: "base = [] \<or> base = signer_ids"
    unfolding drawable_public_ids_def by blast
  from b obtain with_signers where w: "(if with_signers then signer_ids else []) = base" by (meson)
  from ids(2) have n: "length extra < 4" by simp
  have "reaches (extra_accounts_loop A accounts (length extra) (if with_signers then signer_ids else [])) ids"
    unfolding w ids(1) by (rule extra_accounts_loop_reaches [OF assms(1) ids(3,4)])
  then show "reaches (arb_public_account_ids A accounts signer_ids) ids"
    unfolding arb_public_account_ids_def
    by (intro reaches_gbind [OF reaches_prim [OF any_bool UNIV_I [of with_signers]]]
        reaches_gbind [OF exact_gen.reached [OF exact_draw_below [OF _ _ any_u8] n]]) simp_all
qed


subsection \<open>Transactions and conflicting pairs\<close>

lemma contract_privacy_tx_drawable:
  assumes "length accounts \<le> 256"
  shows "contract_gen (arb_privacy_preserving_tx L C G V A st accounts) (drawable_pp_tx L C G V st accounts) (encode_panic V)"
  unfolding arb_privacy_preserving_tx_def Let_def
  apply (rule contract_gbind [OF contract_signers], clarify)
  apply (rule contract_gbind [OF exact_gen.axioms(1) [OF exact_public_ids [OF assms]]], simp add: signers_ok_def)
  apply (rule contract_gbind [OF exact_gen.axioms(1) [OF exact_public_actions]])
  apply (rule contract_gbind [OF exact_gen.axioms(1) [OF exact_private_actions]])
  apply (rule contract_gbind [OF contract_validity_window])
  apply (rule contract_gbind [OF contract_validity_window])
  apply (rule contract_gbind [OF contract_draw_below], simp)
  apply (rule contract_gbind_any, intro contract_if contract_gbind_any contract_prim contract_gret contract_proof, simp)
  apply (rule contract_gret)
  apply (auto simp: drawable_pp_tx_def drawable_pp_message_def)
  done

lemma reaches_privacy_tx:
  assumes "length accounts \<le> 256" and "drawable_pp_tx L C G V st accounts tx"
  shows "reaches (arb_privacy_preserving_tx L C G V A st accounts) tx"
proof -
  from assms(2) obtain keys ids pf where signers: "signers_ok C accounts keys ids" "length ids \<le> 3"
    and m: "drawable_pp_message L G V st accounts ids (ppt_message tx)"
    and w: "ppt_witness_set tx = pp_witness_for_message V (ppt_message tx) pf keys"
    by (auto simp: drawable_pp_tx_def)
  obtain b where pf: "pf = Proof b" by (cases pf)
  obtain pubs nonces privs bw tw claims where msg: "ppt_message tx = \<lparr>ppm_public_actions = pubs, ppm_nonces = nonces,
      ppm_private_actions = privs, ppm_block_validity_window = bw, ppm_timestamp_validity_window = tw,
      ppm_program_image_claims = claims\<rparr>" by (cases "ppt_message tx")
  let ?ids = "map pai_account_id pubs"
  have fields: "nonces = map (account_nonce L st) ids" "claims = []" "drawable_public_ids accounts ids ?ids"
    "\<forall>a\<in>set pubs. drawable_effects V (pai_effects a)" "window_ok V bw" "window_ok V tw"
    "privs \<noteq> [] \<and> length privs \<le> 3 \<and> private_actions_unique privs \<and>
      (\<forall>a\<in>set privs. drawable_private_action G V (commitment_set_digest V st) a)"
    using m by (simp_all add: drawable_pp_message_def msg)
  have tx: "\<lparr>ppt_message = \<lparr>ppm_public_actions = pubs, ppm_nonces = map (account_nonce L st) ids,
      ppm_private_actions = privs, ppm_block_validity_window = bw, ppm_timestamp_validity_window = tw,
      ppm_program_image_claims = []\<rparr>,
      ppt_witness_set = pp_witness_for_message V \<lparr>ppm_public_actions = pubs, ppm_nonces = map (account_nonce L st) ids,
      ppm_private_actions = privs, ppm_block_validity_window = bw, ppm_timestamp_validity_window = tw,
      ppm_program_image_claims = []\<rparr> (Proof b) keys\<rparr> = tx"
    using w msg by (cases tx) (simp add: fields(1,2) pf)
  have d: "distinct ids" using signers(1) unfolding signers_ok_def by blast
  have pubs: "reaches (arb_public_actions A V ?ids) pubs"
    by (rule exact_gen.reached [OF exact_public_actions]) (use fields(4) in simp)
  have signed: "reaches (arb_signers A C accounts) (keys, ids)"
    by (rule exact_gen.reached [OF exact_signers [OF assms(1)]]) (use signers in simp)
  show ?thesis
    unfolding arb_privacy_preserving_tx_def Let_def
    apply (rule reaches_gbind [OF signed], simp only: prod.case)
    apply (rule reaches_gbind [OF exact_gen.reached [OF exact_public_ids [OF assms(1) d] fields(3)]])
    apply (rule reaches_gbind [OF pubs])
    apply (rule reaches_gbind [OF exact_gen.reached [OF exact_private_actions fields(7)]])
    apply (rule reaches_gbind [OF exact_gen.reached [OF exact_window fields(5)]])
    apply (rule reaches_gbind [OF exact_gen.reached [OF exact_window fields(6)]])
    apply (rule reaches_gbind [OF exact_gen.reached [OF exact_draw_below [OF _ _ any_u8], of 8 0]], simp, simp, simp)
    apply (rule reaches_gbind [of _ "Proof b"], simp, rule reaches_gbind [OF reaches_prim [OF any_vec_u8 UNIV_I [of b]]])
    apply (simp_all only: reaches_gret tx)
    done
qed

lemma exact_privacy_tx:
  assumes "length accounts \<le> 256"
  shows "exact_gen (arb_privacy_preserving_tx L C G V A st accounts) (drawable_pp_tx L C G V st accounts) (encode_panic V)"
  by (rule exact_genI [OF contract_privacy_tx_drawable [OF assms] reaches_privacy_tx [OF assms]])

lemma contract_nullifier_pair_drawable:
  "contract_gen (arb_conflicting_nullifier_pair L C G V A st accounts) (drawable_nullifier_pair L C G V st accounts)
      (encode_panic V)"
proof (cases "length accounts < 2")
  case True
  then show ?thesis by (simp add: arb_conflicting_nullifier_pair_def contract_gfail)
next
  case False
  then have pos: "0 < length accounts" by auto
  have other: "contract_gen (if j0 = i then glift (checked_rem (i + 1) (length accounts)) else gret j0)
      (\<lambda>j. j < length accounts) (encode_panic V)" if "j0 < length accounts" for i j0
    using that pos by (intro contract_if contract_glift contract_gret) (auto simp: checked_rem_def)
  note bytes = exact_gen.axioms(1) [OF exact_draw [OF any_bytes32]]
    and comm = exact_gen.axioms(1) [OF exact_commitment] and post = exact_gen.axioms(1) [OF exact_encrypted]
  show ?thesis
    using False unfolding arb_conflicting_nullifier_pair_def Let_def
    apply (simp only: if_False)
    apply (rule contract_gbind [OF contract_draw_index [OF pos]])
    apply (rule contract_gbind [OF contract_draw_index [OF pos]])
    apply (rule contract_gbind [OF other], assumption)
    apply (rule contract_gbind [OF contract_index], assumption)
    apply (rule contract_gbind [OF contract_index], assumption)
    apply (rule contract_if, rule contract_gfail)
    apply (rule contract_gbind [OF bytes], rule contract_gbind [OF comm], rule contract_gbind [OF comm])
    apply (rule contract_if, rule contract_gfail)
    apply (rule contract_gbind [OF post], rule contract_gbind [OF post])
    apply (rule contract_gbind [OF contract_build_pure])
    apply (rule contract_gbind [OF contract_build_pure])
    apply (rule contract_gret)
    subgoal for _ _ _ x y aid comm_b comm_c post_b post_c tx_b tx_c
      unfolding drawable_nullifier_pair_def prod.case drawable_nullifier_def mem_Collect_eq
      by (rule bexI [of _ x], rule bexI [of _ y], blast, assumption+)
    done
qed

lemma reaches_nullifier_pair:
  assumes "length accounts \<le> 256" and "drawable_nullifier_pair L C G V st accounts pair"
  shows "reaches (arb_conflicting_nullifier_pair L C G V A st accounts) pair"
proof -
  from assms(2) obtain tx_b tx_c x y n comm_b comm_c post_b post_c where pair: "pair = (tx_b, tx_c)"
    and x: "x \<in> set accounts" and y: "y \<in> set accounts" and n: "drawable_nullifier V n"
    and ids: "account_id_for_key C (fa_private_key x) \<noteq> account_id_for_key C (fa_private_key y)"
    and comms: "comm_b \<noteq> comm_c" "drawable_commitment G V comm_b" "drawable_commitment G V comm_c"
    and posts: "drawable_ciphertext G V (ead_ciphertext post_b)" "drawable_ciphertext G V (ead_ciphertext post_c)"
    and txs: "build_pure_private_tx L C V st (fa_private_key x)
         [\<lparr>pra_nullifier = n, pra_root = commitment_set_digest V st, pra_commitment = comm_b,
           pra_encrypted_post_state = post_b\<rparr>] = Inr tx_b"
      "build_pure_private_tx L C V st (fa_private_key y)
         [\<lparr>pra_nullifier = n, pra_root = commitment_set_digest V st, pra_commitment = comm_c,
           pra_encrypted_post_state = post_c\<rparr>] = Inr tx_c"
    unfolding drawable_nullifier_pair_def by (cases pair) (simp, blast)
  from n obtain aid where aid: "length aid = 32" "nullifier_for_account_initialization V (AccountId aid) = n"
    by (auto simp: drawable_nullifier_def)
  from x y obtain i j where i: "i < length accounts" "accounts ! i = x" and j: "j < length accounts" "accounts ! j = y"
    by (auto simp: in_set_conv_nth)
  with ids have ne: "j \<noteq> i" by auto
  with i j have two: "\<not> length accounts < 2" and pos: "0 < length accounts" by auto
  note idx = exact_gen.reached [OF exact_draw_index [OF pos assms(1)]]
  show ?thesis
    unfolding arb_conflicting_nullifier_pair_def Let_def if_not_P [OF two] pair
    apply (rule reaches_gbind [OF idx [OF i(1)]], rule reaches_gbind [OF idx [OF j(1)]])
    apply (simp only: if_not_P [OF ne], rule reaches_gbind [OF reaches_gret])
    apply (rule reaches_gbind [OF reaches_glift [of _ x]], simp add: index_def i)
    apply (rule reaches_gbind [OF reaches_glift [of _ y]], simp add: index_def j)
    apply (simp only: if_not_P [OF ids], rule reaches_gbind [OF reaches_prim [OF any_bytes32, of aid]], simp add: aid(1))
    apply (rule reaches_gbind [OF exact_gen.reached [OF exact_commitment comms(2)]])
    apply (rule reaches_gbind [OF exact_gen.reached [OF exact_commitment comms(3)]], simp only: if_not_P [OF comms(1)] aid(2))
    apply (rule reaches_gbind [OF exact_gen.reached [OF exact_encrypted posts(1)]])
    apply (rule reaches_gbind [OF exact_gen.reached [OF exact_encrypted posts(2)]])
    apply (rule reaches_gbind [OF reaches_glift [OF txs(1)]], rule reaches_gbind [OF reaches_glift [OF txs(2)]], rule reaches_gret)
    done
qed

lemma exact_nullifier_pair:
  assumes "length accounts \<le> 256"
  shows "exact_gen (arb_conflicting_nullifier_pair L C G V A st accounts) (drawable_nullifier_pair L C G V st accounts)
    (encode_panic V)"
  by (rule exact_genI [OF contract_nullifier_pair_drawable reaches_nullifier_pair [OF assms]])

end

end
