(* ===== verification/Executor_Coverage.thy ===== *)
theory Executor_Coverage
  imports Privacy_Coverage
begin

text \<open>
  Completeness of the targets of \<open>Privacy_Targets\<close>: which chains the privacy-preserving targets
  never raise an alarm on, over all their inputs. As for the public targets, the runs are inductive
  relations without the input, and the generators' exact ranges say what is offered in each state.
\<close>

subsection \<open>Encoders that do not fail\<close>

definition encodable :: "('st, 'data) privacy_api \<Rightarrow> bool" where
  "encodable V \<longleftrightarrow> (\<forall>e. native_effect_to_vec V e \<noteq> None) \<and> (\<forall>circuit journal. fake_receipt_to_vec V circuit journal \<noteq> None)"

lemma encodable_no_panic: "encodable V \<Longrightarrow> \<not> encode_panic V p"
  by (auto simp: encodable_def encode_panic_def)

context replayable
begin

lemma exact_encodable_tx:
  "encodable V \<Longrightarrow> length accs \<le> 256 \<Longrightarrow>
   exact_gen (arb_privacy_preserving_tx L C G V A st accs) (drawable_pp_tx L C G V st accs) (\<lambda>_. False)"
  by (rule exact_weaken [OF exact_privacy_tx]) (auto dest: encodable_no_panic)

lemma exact_encodable_pair:
  "encodable V \<Longrightarrow> length accs \<le> 256 \<Longrightarrow>
   exact_gen (arb_conflicting_nullifier_pair L C G V A st accs) (drawable_nullifier_pair L C G V st accs) (\<lambda>_. False)"
  by (rule exact_weaken [OF exact_nullifier_pair]) (auto dest: encodable_no_panic)

end

subsection \<open>Runs of the private state-transition target\<close>

definition private_audit_ok ::
  "('st, 'data, 'err, 'diff) lez \<Rightarrow> crypto \<Rightarrow> ('st, 'data) privacy_api \<Rightarrow> ('st, 'data) pp_exec_api \<Rightarrow>
   fuzz_account list \<Rightarrow> nat \<Rightarrow> pp_transaction \<Rightarrow> lee_transaction \<Rightarrow> 'st \<Rightarrow> 'st \<Rightarrow> bool" where
  "private_audit_ok L C V E accs i tx lee st st2 \<longleftrightarrow>
     (let signer_ids = map (\<lambda>(_, pk). account_id_from C pk) (ppw_signatures_and_public_keys (ppt_witness_set tx));
          tracked = tracked_accounts (map fa_account_id accs) (signer_ids @ message_public_account_ids E (ppt_message tx))
      in readable L st tracked \<and>
         privacy_execution_ok L V E tracked signer_ids (1 + of_nat i) (of_nat i) (ppt_message tx) lee st st2)"

inductive private_run ::
  "('st, 'data, 'err, 'diff) lez \<Rightarrow> crypto \<Rightarrow> ('st, 'data) genesis_api \<Rightarrow> ('st, 'data) privacy_api \<Rightarrow>
   ('st, 'data) pp_exec_api \<Rightarrow> fuzz_account list \<Rightarrow> 'st \<Rightarrow> nat \<Rightarrow> 'st \<Rightarrow> bool"
  for L C G V E accs st0 where
  private_start: "private_run L C G V E accs st0 0 st0"
| private_gated: "private_run L C G V E accs st0 i st \<Longrightarrow> drawable_pp_tx L C G V st accs tx \<Longrightarrow>
     stateless_check L (PrivacyPreserving tx) = Inl e \<Longrightarrow> private_run L C G V E accs st0 (Suc i) st"
| private_executed: "private_run L C G V E accs st0 i st \<Longrightarrow> drawable_pp_tx L C G V st accs tx \<Longrightarrow>
     stateless_check L (PrivacyPreserving tx) = Inr lee \<Longrightarrow> private_audit_ok L C V E accs i tx lee st st2 \<Longrightarrow>
     private_run L C G V E accs st0 (Suc i) st2"

definition private_rules_hold ::
  "('st, 'data, 'err, 'diff) lez \<Rightarrow> crypto \<Rightarrow> ('st, 'data) genesis_api \<Rightarrow> ('st, 'data) privacy_api \<Rightarrow>
   ('st, 'data) pp_exec_api \<Rightarrow> fuzz_account list \<Rightarrow> nat \<Rightarrow> 'st \<Rightarrow> bool" where
  "private_rules_hold L C G V E accs bound st0 \<longleftrightarrow>
     (\<forall>i st tx lee. private_run L C G V E accs st0 i st \<longrightarrow> i < bound \<longrightarrow> drawable_pp_tx L C G V st accs tx \<longrightarrow>
        stateless_check L (PrivacyPreserving tx) = Inr lee \<longrightarrow> (\<exists>st2. private_audit_ok L C V E accs i tx lee st st2))"

definition private_rules_on_genesis ::
  "('st, 'data, 'err, 'diff) lez \<Rightarrow> crypto \<Rightarrow> ('st, 'data) genesis_api \<Rightarrow> ('st, 'data) privacy_api \<Rightarrow>
   ('st, 'data) pp_exec_api \<Rightarrow> nat \<Rightarrow> bool" where
  "private_rules_on_genesis L C G V E bound \<longleftrightarrow> (\<forall>accs. drawable_state C (reserved_account_ids G) accs \<longrightarrow>
     private_rules_hold L C G V E accs bound (genesis_state G (init_accounts accs) []))"

definition privacy_step ::
  "('st, 'data, 'err, 'diff) lez \<Rightarrow> crypto \<Rightarrow> ('st, 'data) privacy_api \<Rightarrow> ('st, 'data) pp_exec_api \<Rightarrow>
   fuzz_account list \<Rightarrow> nat \<Rightarrow> pp_transaction \<Rightarrow> 'st \<Rightarrow> 'st outcome" where
  "privacy_step L C V E accs i tx st =
     checked_privacy_execution L C V E (map fst (init_accounts accs)) (1 + of_nat i) (of_nat i) tx st"

lemma privacy_loop_stepped:
  "privacy_loop L C G V E A accs i n st =
     stepped_loop (\<lambda>st. arb_privacy_preserving_tx L C G V A st accs) (privacy_step L C V E accs) i n st"
proof (induction n arbitrary: i st)
  case (Suc n)
  then have "privacy_loop L C G V E A accs (Suc i) n =
      stepped_loop (\<lambda>st. arb_privacy_preserving_tx L C G V A st accs) (privacy_step L C V E accs) (Suc i) n" by blast
  then show ?case unfolding privacy_loop.simps stepped_loop.simps privacy_step_def by simp
qed simp

lemma privacy_step_iff:
  assumes "distinct (map fa_account_id accs)"
  shows "privacy_step L C V E accs i tx st = Inr st2 \<longleftrightarrow>
    (case stateless_check L (PrivacyPreserving tx) of
       Inl _ \<Rightarrow> st2 = st
     | Inr lee \<Rightarrow> private_audit_ok L C V E accs i tx lee st st2)"
  unfolding privacy_step_def private_audit_ok_def Let_def init_ids
  by (rule checked_privacy_execution_iff [OF assms refl refl])

lemma visits_private_run:
  assumes "distinct (map fa_account_id accs)"
  shows "visits (\<lambda>st. drawable_pp_tx L C G V st accs) (privacy_step L C V E accs) 0 st0 i st \<longleftrightarrow>
    private_run L C G V E accs st0 i st" (is "?visits 0 st0 i st \<longleftrightarrow> ?run i st")
proof
  assume "?visits 0 st0 i st"
  then show "?run i st"
    by (rule visits_invariant [where I = "private_run L C G V E accs st0"])
      (auto simp: privacy_step_iff [OF assms] intro: private_run.intros split: sum.splits)
next
  show "?run i st \<Longrightarrow> ?visits 0 st0 i st"
  proof (induction rule: private_run.induct)
    case (private_gated i st tx e)
    then show ?case by (intro visits_more [OF private_gated.IH]) (auto simp: privacy_step_iff [OF assms])
  next
    case (private_executed i st tx lee st2)
    then show ?case by (intro visits_more [OF private_executed.IH]) (auto simp: privacy_step_iff [OF assms])
  qed (rule visits_start)
qed

lemma run_safe_private_rules:
  assumes "distinct (map fa_account_id accs)"
  shows "run_safe (\<lambda>st. drawable_pp_tx L C G V st accs) (privacy_step L C V E accs) 0 bound st0 \<longleftrightarrow>
    private_rules_hold L C G V E accs bound st0"
proof -
  have "is_ok (privacy_step L C V E accs i tx st) \<longleftrightarrow>
      (\<forall>lee. stateless_check L (PrivacyPreserving tx) = Inr lee \<longrightarrow> (\<exists>st2. private_audit_ok L C V E accs i tx lee st st2))"
    for i tx st
    unfolding is_ok_iff privacy_step_iff [OF assms] by (cases "stateless_check L (PrivacyPreserving tx)") auto
  then show ?thesis unfolding run_safe_def private_rules_hold_def visits_private_run [OF assms] by blast
qed

context replayable
begin

lemma privacy_target_iff:
  assumes seed: "private_key_try_new C seed_bytes \<noteq> None" and enc: "encodable V"
  shows "always_returns (fuzz_privacy_preserving_state_transition L C G V E A) \<longleftrightarrow> private_rules_on_genesis L C G V E 5"
proof -
  let ?body = "\<lambda>accs. gbind (counted_loop A 6 (\<lambda>st. arb_privacy_preserving_tx L C G V A st accs) (privacy_step L C V E accs)
      (genesis_state G (init_accounts accs) [])) (\<lambda>_. gret ())"
  have target: "fuzz_privacy_preserving_state_transition L C G V E A =
      gbind (gcatch (arbitrary_fuzz_state A C G)) (\<lambda>r. case r of Inl _ \<Rightarrow> gret () | Inr accs \<Rightarrow> ?body accs)"
    unfolding fuzz_privacy_preserving_state_transition_def counted_loop_def privacy_loop_stepped gbind_assoc ..
  show ?thesis
    unfolding target private_rules_on_genesis_def
  proof (rule state_target_iff [OF exact_no_bad_seed [OF exact_fuzz_state seed]])
    fix accs assume accs: "drawable_state C (reserved_account_ids G) accs"
    have len: "length accs \<le> 256" using drawable_state_props(2) [OF accs] by simp
    have txs: "exact_gen (arb_privacy_preserving_tx L C G V A st accs) (drawable_pp_tx L C G V st accs) (\<lambda>_. False)" for st
      by (rule exact_encodable_tx [OF enc len])
    show "judged (?body accs) (private_rules_hold L C G V E accs 5 (genesis_state G (init_accounts accs) []))"
      unfolding run_safe_private_rules [OF drawable_state_props(1) [OF accs], symmetric]
      using counted_loop_judged [where g = "\<lambda>st. arb_privacy_preserving_tx L C G V A st accs", OF txs, of 6] by simp
  qed (intro unfailing_intros unfailing_counted_loop)
qed

end

subsection \<open>The ordering target\<close>

text \<open>Applying a transaction that passes the gate, whatever comes of it: how the base state is seeded.\<close>

definition seed_tx :: "('st, 'data, 'err, 'diff) lez \<Rightarrow> nat \<Rightarrow> pp_transaction \<Rightarrow> 'st \<Rightarrow> 'st" where
  "seed_tx L i tx base = (case gate L tx of
     None \<Rightarrow> base | Some lee \<Rightarrow> snd (execute_check_on_state L lee base (1 + of_nat i) (of_nat i)))"

inductive seeded ::
  "('st, 'data, 'err, 'diff) lez \<Rightarrow> crypto \<Rightarrow> ('st, 'data) genesis_api \<Rightarrow> ('st, 'data) privacy_api \<Rightarrow>
   fuzz_account list \<Rightarrow> 'st \<Rightarrow> nat \<Rightarrow> 'st \<Rightarrow> bool"
  for L C G V accs st0 where
  seeded_start: "seeded L C G V accs st0 0 st0"
| seeded_step: "seeded L C G V accs st0 i base \<Longrightarrow> drawable_pp_tx L C G V base accs tx \<Longrightarrow>
     seeded L C G V accs st0 (Suc i) (seed_tx L i tx base)"

text \<open>In either order one of the two fails, and as many are accepted one way as the other.\<close>

definition conflict_resolved :: "('st, 'data, 'err, 'diff) lez \<Rightarrow> pp_transaction \<times> pp_transaction \<Rightarrow> 'st \<Rightarrow> bool" where
  "conflict_resolved L = (\<lambda>(tx_b, tx_c) base. \<forall>b c. gate L tx_b = Some b \<longrightarrow> gate L tx_c = Some c \<longrightarrow>
     apply_both L b c base \<noteq> (True, True) \<and> apply_both L c b base \<noteq> (True, True) \<and>
     (apply_both L b c base = (False, False) \<longleftrightarrow> apply_both L c b base = (False, False)))"

lemma ordering_check_resolved: "ordering_check L pair base = Inr () \<longleftrightarrow> conflict_resolved L pair base"
proof (cases pair)
  case (Pair tx_b tx_c)
  show ?thesis
  proof (cases "gate L tx_b = None \<or> gate L tx_c = None")
    case True
    then show ?thesis by (auto simp: ordering_check_def conflict_resolved_def Pair split: option.split)
  next
    case False
    then obtain b c where g: "gate L tx_b = Some b" "gate L tx_c = Some c" by auto
    obtain rb1 rc1 rc2 rb2 where r: "apply_both L b c base = (rb1, rc1)" "apply_both L c b base = (rc2, rb2)" by fastforce
    show ?thesis
      unfolding Pair ordering_check_iff [OF g r] conflict_resolved_def by (auto simp: g r)
  qed
qed

definition ordering_holds ::
  "('st, 'data, 'err, 'diff) lez \<Rightarrow> crypto \<Rightarrow> ('st, 'data) genesis_api \<Rightarrow> ('st, 'data) privacy_api \<Rightarrow>
   fuzz_account list \<Rightarrow> nat \<Rightarrow> 'st \<Rightarrow> bool" where
  "ordering_holds L C G V accs bound st0 \<longleftrightarrow> (\<forall>i base pair. seeded L C G V accs st0 i base \<longrightarrow> i \<le> bound \<longrightarrow>
     drawable_nullifier_pair L C G V base accs pair \<longrightarrow> conflict_resolved L pair base)"

definition ordering_on_genesis ::
  "('st, 'data, 'err, 'diff) lez \<Rightarrow> crypto \<Rightarrow> ('st, 'data) genesis_api \<Rightarrow> ('st, 'data) privacy_api \<Rightarrow> nat \<Rightarrow> bool"
  where
  "ordering_on_genesis L C G V bound \<longleftrightarrow> (\<forall>accs. drawable_state C (reserved_account_ids G) accs \<longrightarrow>
     ordering_holds L C G V accs bound (genesis_state G (init_accounts accs) []))"

definition seed_step :: "('st, 'data, 'err, 'diff) lez \<Rightarrow> nat \<Rightarrow> pp_transaction \<Rightarrow> 'st \<Rightarrow> 'st outcome" where
  "seed_step L i tx base = Inr (seed_tx L i tx base)"

lemma seed_steps_safe: "run_safe offered (seed_step L) i bound s"
  by (simp add: run_safe_def seed_step_def)

lemma seed_loop_stepped:
  "seed_loop L C G V A accs i n base =
     stepped_loop (\<lambda>st. arb_privacy_preserving_tx L C G V A st accs) (seed_step L) i n base"
proof (induction n arbitrary: i base)
  case (Suc n)
  show ?case
    unfolding seed_loop.simps stepped_loop.simps seed_step_def glift_def sum.case gbind_gret Suc.IH seed_tx_def
    by (intro arg_cong [where f = "gbind (gcatch (arb_privacy_preserving_tx L C G V A base accs))"] ext)
      (simp add: seed_step_def seed_tx_def split: sum.split option.split)
qed simp

lemma visits_seeded:
  "visits (\<lambda>st. drawable_pp_tx L C G V st accs) (seed_step L) 0 st0 i base \<longleftrightarrow> seeded L C G V accs st0 i base"
    (is "?visits 0 st0 i base \<longleftrightarrow> ?run i base")
proof
  assume "?visits 0 st0 i base"
  then show "?run i base"
    by (rule visits_invariant [where I = "seeded L C G V accs st0"]) (auto simp: seed_step_def intro: seeded.intros)
next
  show "?run i base \<Longrightarrow> ?visits 0 st0 i base"
  proof (induction rule: seeded.induct)
    case (seeded_step i base tx)
    then show ?case by (intro visits_more [OF seeded_step.IH]) (simp_all add: seed_step_def)
  qed (rule visits_start)
qed

lemma pair_needs_two: "drawable_nullifier_pair L C G V st accs pair \<Longrightarrow> \<not> length accs < 2"
  by (cases accs; cases "tl accs") (auto simp: drawable_nullifier_pair_def)

context replayable
begin

lemma ordering_target_iff:
  assumes seed: "private_key_try_new C seed_bytes \<noteq> None" and enc: "encodable V"
  shows "always_returns (fuzz_transaction_ordering_independence L C G V A) \<longleftrightarrow> ordering_on_genesis L C G V 3"
proof -
  let ?st = "\<lambda>accs. genesis_state G (init_accounts accs) []"
  let ?loop = "\<lambda>accs. counted_loop A 4 (\<lambda>st. arb_privacy_preserving_tx L C G V A st accs) (seed_step L) (?st accs)"
  let ?check = "\<lambda>accs base. gbind (gcatch (arb_conflicting_nullifier_pair L C G V A base accs)) (\<lambda>r2.
      case r2 of Inl _ \<Rightarrow> gret () | Inr pair \<Rightarrow> glift (ordering_check L pair base))"
  let ?body = "\<lambda>accs. if length accs < 2 then gret () else gbind (?loop accs) (?check accs)"
  have target: "fuzz_transaction_ordering_independence L C G V A =
      gbind (gcatch (arbitrary_fuzz_state A C G)) (\<lambda>r. case r of Inl _ \<Rightarrow> gret () | Inr accs \<Rightarrow> ?body accs)"
    unfolding fuzz_transaction_ordering_independence_def counted_loop_def seed_loop_stepped gbind_assoc ..
  show ?thesis
    unfolding target ordering_on_genesis_def
  proof (rule state_target_iff [OF exact_no_bad_seed [OF exact_fuzz_state seed]])
    fix accs assume accs: "drawable_state C (reserved_account_ids G) accs"
    have len: "length accs \<le> 256" using drawable_state_props(2) [OF accs] by simp
    have txs: "exact_gen (arb_privacy_preserving_tx L C G V A st accs) (drawable_pp_tx L C G V st accs) (\<lambda>_. False)" for st
      by (rule exact_encodable_tx [OF enc len])
    note pairs = exact_encodable_pair [OF enc len]
    have "judged (if length accs < 2 then gret () else gbind (?loop accs) (?check accs))
        ((length accs < 2 \<longrightarrow> True) \<and> (\<not> length accs < 2 \<longrightarrow>
          (\<forall>base. (\<exists>j<4. visits (\<lambda>st. drawable_pp_tx L C G V st accs) (seed_step L) 0 (?st accs) j base) \<longrightarrow>
             (\<forall>pair. drawable_nullifier_pair L C G V base accs pair \<longrightarrow> ordering_check L pair base = Inr ()))))"
      by (intro judged_if judged_gret judged_gbind [OF exact_counted_loop] judged_draw [OF pairs] judged_check txs seed_steps_safe)
        simp_all
    moreover have "(length accs < 2 \<longrightarrow> True) \<and> (\<not> length accs < 2 \<longrightarrow>
          (\<forall>base. (\<exists>j<4. visits (\<lambda>st. drawable_pp_tx L C G V st accs) (seed_step L) 0 (?st accs) j base) \<longrightarrow>
             (\<forall>pair. drawable_nullifier_pair L C G V base accs pair \<longrightarrow> ordering_check L pair base = Inr ()))) \<longleftrightarrow>
        ordering_holds L C G V accs 3 (?st accs)"
      unfolding visits_seeded ordering_check_resolved ordering_holds_def
      using pair_needs_two [of L C G V _ accs] by (force simp: less_Suc_eq_le numeral_eq_Suc)
    ultimately show "judged (?body accs) (ordering_holds L C G V accs 3 (?st accs))" by simp
  qed (intro unfailing_intros unfailing_counted_loop)
qed

end

end
