(* ===== verification/Accessor_Coverage.thy ===== *)
theory Accessor_Coverage
  imports Executor_Coverage
begin

text \<open>
  Completeness of \<open>fuzz_transaction_properties\<close> and \<open>fuzz_privacy_preserving_witness\<close>: a few checks on
  fixed keys, then checks on drawn ones. Each target returns on every input exactly when the fixed
  checks pass and the rule holds for everything that can be drawn.
\<close>

subsection \<open>Privacy-preserving witness sets\<close>

text \<open>A witness set made by \<open>keys\<close> has one entry for each, verifies, and exposes their accounts.\<close>

definition witness_exposes ::
  "'e pp_encoding_api \<Rightarrow> crypto \<Rightarrow> ('st, 'data) privacy_api \<Rightarrow> pp_message \<Rightarrow> private_key list \<Rightarrow> bool" where
  "witness_exposes K C V m keys \<longleftrightarrow> (let ws = pp_witness_for_message V m fake_proof keys in
     length (ppw_signatures_and_public_keys ws) = length keys \<and> signatures_are_valid_for K ws m \<and>
     account_id_for_key C ` set keys \<subseteq>
       set (pp_affected_public_account_ids K \<lparr>ppt_message = m, ppt_witness_set = ws\<rparr>))"

text \<open>The two fixed keys: both are named, the set fails on a message encoded otherwise, and a signer is exposed
  also where no public action names it.\<close>

definition fixed_witness_rule :: "'e pp_encoding_api \<Rightarrow> crypto \<Rightarrow> ('st, 'data) privacy_api \<Rightarrow> bool" where
  "fixed_witness_rule K C V \<longleftrightarrow> (\<exists>k1 k2. private_key_try_new C (replicate 32 1) = Some k1 \<and>
     private_key_try_new C (replicate 32 2) = Some k2 \<and>
     (let id1 = account_id_for_key C k1; id2 = account_id_for_key C k2;
          b1 = AccountId (replicate 32 0xB1); b2 = AccountId (replicate 32 0xB2);
          m = plain_message V [id1, id2] [0, 1]; m_b = plain_message V [id1, id2] [999, 1000];
          isolated = plain_message V [b1, b2] [0, 1];
          ws = pp_witness_for_message V m fake_proof [k1, k2]; single = pp_witness_for_message V m fake_proof [k1]
      in length (ppw_signatures_and_public_keys ws) = 2 \<and> signatures_are_valid_for K ws m \<and>
         {id1, id2} \<subseteq> (\<lambda>(_, pk). account_id_from C pk) ` set (ppw_signatures_and_public_keys ws) \<and>
         (id1 \<notin> {b1, b2} \<longrightarrow> id1 \<in> set (pp_affected_public_account_ids K \<lparr>ppt_message = isolated,
            ppt_witness_set = pp_witness_for_message V isolated fake_proof [k1]\<rparr>)) \<and>
         (encodings_differ K m m_b \<longrightarrow> \<not> signatures_are_valid_for K ws m_b) \<and>
         length (ppw_signatures_and_public_keys single) = 1 \<and>
         id1 \<in> set (pp_affected_public_account_ids K \<lparr>ppt_message = m, ppt_witness_set = single\<rparr>)))"

lemma fixed_key_Inr_iff: "fixed_key C b = Inr k \<longleftrightarrow> private_key_try_new C (replicate 32 b) = Some k"
  by (simp add: fixed_key_def expect_Inr_iff)

lemma fixed_witness_iff: "fixed_witness_checks K C V = Inr () \<longleftrightarrow> fixed_witness_rule K C V"
proof -
  have guarded: "(if c then ensure a p else Inr ()) = Inr () \<longleftrightarrow> (c \<longrightarrow> a)" for c a p by (simp add: ensure_Inr_iff)
  show ?thesis
  proof (cases "\<exists>k1 k2. private_key_try_new C (replicate 32 1) = Some k1 \<and> private_key_try_new C (replicate 32 2) = Some k2")
    case True
    then obtain k1 k2 where k: "private_key_try_new C (replicate 32 1) = Some k1" "private_key_try_new C (replicate 32 2) = Some k2"
      by blast
    then have "fixed_key C 1 = Inr k1" "fixed_key C 2 = Inr k2" by (simp_all add: fixed_key_Inr_iff)
    then show ?thesis
      unfolding fixed_witness_checks_def fixed_witness_rule_def isolated_signer_check_def Let_def k
      by (simp add: obind_Inr_iff ensure_Inr_iff guarded conj_assoc) argo
  next
    case False
    then show ?thesis
      unfolding fixed_witness_checks_def fixed_witness_rule_def obind_Inr_iff fixed_key_Inr_iff by blast
  qed
qed

lemma fuzzed_witness_iff:
  "fuzzed_witness_checks K C V keys = Inr () \<longleftrightarrow>
     keys = [] \<or> witness_exposes K C V (plain_message V (map (account_id_for_key C) keys) (map of_nat [0..<length keys])) keys"
  unfolding fuzzed_witness_checks_def witness_exposes_def Let_def
  by (auto simp: obind_Inr_iff ensure_Inr_iff for_each_Inr_iff)

definition pp_witnesses_exact :: "'e pp_encoding_api \<Rightarrow> crypto \<Rightarrow> ('st, 'data) privacy_api \<Rightarrow> bool" where
  "pp_witnesses_exact K C V \<longleftrightarrow> fixed_witness_rule K C V \<and>
     (\<forall>keys. keys \<noteq> [] \<longrightarrow> length keys \<le> 3 \<longrightarrow> (\<forall>k\<in>set keys. drawable_private_key C k) \<longrightarrow>
        witness_exposes K C V (plain_message V (map (account_id_for_key C) keys) (map of_nat [0..<length keys])) keys)"

subsection \<open>Public transactions and their accessors\<close>

definition two_signers_rule ::
  "accessor_api \<Rightarrow> ('st, 'err, 'diff) public_api \<Rightarrow> witness_api \<Rightarrow> crypto \<Rightarrow> bool" where
  "two_signers_rule T P W C \<longleftrightarrow> (\<exists>k1 k2 m. private_key_try_new C (replicate 32 1) = Some k1 \<and>
     private_key_try_new C (replicate 32 2) = Some k2 \<and>
     (let id1 = account_id_for_key C k1; id2 = account_id_for_key C k2; ws = witness_for_message W m [k1, k2];
          tx = \<lparr>pt_message = m, pt_witness_set = ws\<rparr>
      in message_try_new T (acc_native_token_program_id T)
           [native_balance_selector T id1, native_balance_selector T id2] [0, 0] 1337 = Some m \<and>
         length (ws_signatures_and_public_keys ws) = 2 \<and> length (into_raw_parts T ws) = 2 \<and>
         {id1, id2} \<subseteq> set (affected_public_account_ids P tx) \<and> lee_hash T (Public tx) \<noteq> replicate 32 0 \<and>
         id1 \<in> set (lee_affected_public_account_ids T (Public tx))))"

definition signer_only_rule ::
  "accessor_api \<Rightarrow> ('st, 'err, 'diff) public_api \<Rightarrow> witness_api \<Rightarrow> crypto \<Rightarrow> bool" where
  "signer_only_rule T P W C \<longleftrightarrow> (\<exists>k. private_key_try_new C (replicate 32 9) = Some k \<and>
     (let signer = account_id_for_key C k; a1 = AccountId (replicate 32 0xA1); a2 = AccountId (replicate 32 0xA2)
      in \<forall>m. signer \<notin> {a1, a2} \<longrightarrow> message_try_new T (acc_native_token_program_id T)
            [native_balance_selector T a1, native_balance_selector T a2] [0] 7 = Some m \<longrightarrow>
          signer \<in> set (affected_public_account_ids P \<lparr>pt_message = m, pt_witness_set = witness_for_message W m [k]\<rparr>)))"

text \<open>The signers of a transaction are among its affected accounts, and in its diff when it validates.\<close>

definition signers_exposed ::
  "('st, 'data, 'err, 'diff) lez \<Rightarrow> ('st, 'err, 'diff) public_api \<Rightarrow> crypto \<Rightarrow> 'st \<Rightarrow> public_transaction \<Rightarrow> bool" where
  "signers_exposed L P C st tx \<longleftrightarrow> set (signer_account_ids C (Public tx)) \<subseteq> set (affected_public_account_ids P tx) \<and>
     (\<forall>d. from_public_transaction P tx st 1 0 = Inr d \<longrightarrow>
        set (signer_account_ids C (Public tx)) \<subseteq> fst ` set (public_diff L d))"

definition single_signer_rule :: "accessor_api \<Rightarrow> witness_api \<Rightarrow> crypto \<Rightarrow> private_key \<Rightarrow> bool" where
  "single_signer_rule T W C k \<longleftrightarrow> (\<forall>m. message_try_new T (acc_native_token_program_id T)
       [native_balance_selector T (account_id_for_key C k)] [0] 42 = Some m \<longrightarrow>
     (\<exists>sig pk. ws_signatures_and_public_keys (witness_for_message W m [k]) = [(sig, pk)] \<and>
        account_id_from C pk = account_id_for_key C k) \<and>
     length (into_raw_parts T (witness_for_message W m [k])) = 1)"

lemma two_signers_iff: "signed_by_two_checks T P W C = Inr () \<longleftrightarrow> two_signers_rule T P W C"
  unfolding signed_by_two_checks_def two_signers_rule_def Let_def
  by (auto simp: obind_Inr_iff ensure_Inr_iff fixed_key_Inr_iff expect_Inr_iff)

lemma signer_only_iff: "signer_only_check T P W C = Inr () \<longleftrightarrow> signer_only_rule T P W C"
  unfolding signer_only_check_def signer_only_rule_def Let_def
  by (auto simp: obind_Inr_iff ensure_Inr_iff fixed_key_Inr_iff split: option.splits)

lemma fuzzed_transfer_iff: "fuzzed_transfer_check L P C st (Public tx) = Inr () \<longleftrightarrow> signers_exposed L P C st tx"
  unfolding fuzzed_transfer_check_def signers_exposed_def Let_def
  by (auto simp: obind_Inr_iff ensure_Inr_iff for_each_Inr_iff hm_get_None_iff subset_iff image_iff split: sum.splits) 

lemma single_signer_iff: "single_signer_check T W C k = Inr () \<longleftrightarrow> single_signer_rule T W C k"
  unfolding single_signer_check_def single_signer_rule_def Let_def
  by (auto simp: obind_Inr_iff ensure_Inr_iff index_def length_Suc_conv split: option.splits)

subsection \<open>Privacy-preserving encodings\<close>

text \<open>
  What the encoding target decides over all its inputs: decoding inverts the encoding from the
  right, the encodings of four small messages decode, so does one transaction, which re-encodes to
  the same bytes, and one circuit output is mapped field by field. That the decoded messages re-encode
  to the same bytes follows, and so does the check on the minimal message.
\<close>

definition tx_codec_rule :: "'e pp_encoding_api \<Rightarrow> pp_transaction \<Rightarrow> bool" where
  "tx_codec_rule K tx \<longleftrightarrow> ppe_tx_to_bytes K tx \<noteq> [] \<and>
     (\<exists>t. ppe_tx_from_bytes K (ppe_tx_to_bytes K tx) = Inr t \<and> ppe_tx_to_bytes K t = ppe_tx_to_bytes K tx)"

definition output_mapping_rule :: "'e pp_encoding_api \<Rightarrow> ('st, 'data) privacy_api \<Rightarrow> account_id \<Rightarrow> bool" where
  "output_mapping_rule K V aid \<longleftrightarrow>
     (let effects = [\<lparr>eff_program_account_id = native_token_program_id V,
            eff_shard_program_account_id = native_token_program_id V, eff_data = [42]\<rparr>];
          m = from_circuit_output K [7]
            \<lparr>pco_public_actions = [\<lparr>pa_account_id = aid, pa_is_authorized = True, pa_effects = effects\<rparr>],
             pco_private_actions = [], pco_block_validity_window = validity_window_unbounded V,
             pco_timestamp_validity_window = validity_window_unbounded V, pco_program_image_claims = []\<rparr>
      in ppe_public_account_ids K m = [aid] \<and> ppm_nonces m = [7] \<and>
         ppm_public_actions m = [\<lparr>pai_account_id = aid, pai_effects = effects\<rparr>] \<and> ppm_private_actions m = [])"

definition pp_codec_exact :: "'e pp_encoding_api \<Rightarrow> crypto \<Rightarrow> ('st, 'data) privacy_api \<Rightarrow> bool" where
  "pp_codec_exact K C V \<longleftrightarrow> (\<exists>k. private_key_try_new C (replicate 32 1) = Some k \<and>
     (let m = plain_message V [account_id_for_key C k] [0]
      in tx_codec_rule K \<lparr>ppt_message = m,
           ppt_witness_set = pp_witness_for_message V m (Proof [0xDE, 0xAD, 0xBE, 0xEF]) [k]\<rparr>) \<and>
     output_mapping_rule K V (account_id_for_key C k)) \<and>
   (\<forall>bs m. ppe_message_from_bytes K bs = Inr m \<longrightarrow> ppe_message_to_bytes K m = bs) \<and>
   (\<forall>n\<le>3. let bs = ppe_message_to_bytes K (varied_message C V n)
      in bs \<noteq> [] \<and> is_ok (ppe_message_from_bytes K bs))"

lemma varied_minimal:
  "private_key_try_new C (replicate 32 1) = Some k \<Longrightarrow> varied_message C V 1 = plain_message V [account_id_for_key C k] [0]"
  by (simp add: varied_message_def List.map_filter_def)

lemma canonical_roundtrip:
  assumes "\<forall>bs m. ppe_message_from_bytes K bs = Inr m \<longrightarrow> ppe_message_to_bytes K m = bs"
  shows "message_roundtrip K p m = Inr () \<longleftrightarrow>
    ppe_message_to_bytes K m \<noteq> [] \<and> is_ok (ppe_message_from_bytes K (ppe_message_to_bytes K m))"
  using assms by (auto simp: message_roundtrip_iff is_ok_iff)

lemma tx_encoding_iff:
  "known_good C = Inr k \<Longrightarrow> tx_encoding_checks K C V = Inr () \<longleftrightarrow>
    (let m = plain_message V [account_id_for_key C k] [0]
     in tx_codec_rule K \<lparr>ppt_message = m,
          ppt_witness_set = pp_witness_for_message V m (Proof [0xDE, 0xAD, 0xBE, 0xEF]) [k]\<rparr>)"
  by (auto simp: tx_encoding_checks_def tx_codec_rule_def minimal_message_def Let_def outcome_simps)

lemma output_mapping_iff:
  "known_good C = Inr k \<Longrightarrow> circuit_output_mapping K C V = Inr () \<longleftrightarrow> output_mapping_rule K V (account_id_for_key C k)"
  by (simp add: circuit_output_mapping_def output_mapping_rule_def Let_def obind_Inr_iff ensure_Inr_iff)

lemma pp_encoding_target_iff:
  "(\<forall>data. fuzz_encoding_privacy_preserving K C V data = Inr ()) \<longleftrightarrow> pp_codec_exact K C V"
proof (cases "private_key_try_new C (replicate 32 1)")
  case None
  then show ?thesis
    by (simp add: fuzz_encoding_privacy_preserving_def pp_codec_exact_def minimal_message_def known_good_def expect_def)
next
  case (Some k)
  then have good: "known_good C = Inr k" by (simp add: known_good_def expect_def)
  let ?canon = "\<forall>bs m. ppe_message_from_bytes K bs = Inr m \<longrightarrow> ppe_message_to_bytes K m = bs"
  have upto: "set [0, 1, 2, 3] = {n :: nat. n \<le> 3}" by auto
  have "(\<forall>data. fuzz_encoding_privacy_preserving K C V data = Inr ()) \<longleftrightarrow>
      message_roundtrip K (Violation ''MessageEncodingRoundtrip'') (varied_message C V 1) = Inr () \<and>
      tx_encoding_checks K C V = Inr () \<and> circuit_output_mapping K C V = Inr () \<and> ?canon \<and>
      (\<forall>n\<le>3. message_roundtrip K (Expect_Failed ''round-trip must succeed for well-formed message'')
         (varied_message C V n) = Inr ())"
    unfolding fuzz_encoding_privacy_preserving_def minimal_message_def good obind.simps
      varied_minimal [OF Some] obind_Inr_iff for_each_Inr_iff upto by (auto simp: canonical_iff)
  also have "\<dots> \<longleftrightarrow> pp_codec_exact K C V"
  proof (cases ?canon)
    case True
    have "(\<forall>n\<le>(3 :: nat). P n) \<Longrightarrow> P 1" for P by simp
    with True Some show ?thesis
      unfolding pp_codec_exact_def tx_encoding_iff [OF good] output_mapping_iff [OF good] canonical_roundtrip [OF True] Let_def
      by auto
  qed (auto simp: pp_codec_exact_def)
  finally show ?thesis .
qed

subsection \<open>The targets\<close>

text \<open>
  The single-signer check runs only after a transfer has passed the gate and its own check, on every
  drawable key.
\<close>

definition properties_hold ::
  "('st, 'data, 'err, 'diff) lez \<Rightarrow> accessor_api \<Rightarrow> ('st, 'err, 'diff) public_api \<Rightarrow> witness_api \<Rightarrow>
   crypto \<Rightarrow> ('st, 'data) genesis_api \<Rightarrow> bool" where
  "properties_hold L T P W C G \<longleftrightarrow> two_signers_rule T P W C \<and> signer_only_rule T P W C \<and>
     (\<forall>accs raw tx. drawable_state C (reserved_account_ids G) accs \<longrightarrow> correlated_transfer C accs raw \<longrightarrow>
        stateless_check L raw = Inr (Public tx) \<longrightarrow>
        signers_exposed L P C (genesis_state G (init_accounts accs) []) tx \<and>
        (\<forall>k. drawable_private_key C k \<longrightarrow> single_signer_rule T W C k))"

context replayable
begin

lemma pp_witness_target_iff:
  assumes seed: "private_key_try_new C seed_bytes \<noteq> None"
  shows "always_returns (fuzz_privacy_preserving_witness K C V A) \<longleftrightarrow> pp_witnesses_exact K C V"
proof -
  note keys = exact_key_list [OF exact_no_bad_seed [OF exact_private_key seed]]
  have "fuzz_privacy_preserving_witness K C V A = gbind (glift (fixed_witness_checks K C V)) (\<lambda>_.
      gbind (gbind (gunwrap_or 0 (prim (draw_u8 A))) (\<lambda>b. take_until_error (unat b mod 4) (arb_private_key A C)))
        (\<lambda>keys. glift (fuzzed_witness_checks K C V keys)))"
    unfolding fuzz_privacy_preserving_witness_def gbind_assoc ..
  then have "judged (fuzz_privacy_preserving_witness K C V A)
      (fixed_witness_checks K C V = Inr () \<and> (\<forall>keys. length keys \<le> 3 \<and> (\<forall>k\<in>set keys. drawable_private_key C k) \<longrightarrow>
         fuzzed_witness_checks K C V keys = Inr ()))"
    by (simp only:) (intro judged_then judged_gbind [OF keys] judged_check)
  from judged_returns [OF this unfailing_pp_witness] show ?thesis
    unfolding fixed_witness_iff fuzzed_witness_iff pp_witnesses_exact_def by blast
qed

lemma properties_target_iff:
  assumes seed: "private_key_try_new C seed_bytes \<noteq> None"
  shows "always_returns (fuzz_transaction_properties L T P W C G A) \<longleftrightarrow> properties_hold L T P W C G"
proof -
  note keys = exact_no_bad_seed [OF exact_private_key seed]
  let ?rest = "\<lambda>accs raw. case stateless_check L raw of Inl _ \<Rightarrow> gret () | Inr (PrivacyPreserving _) \<Rightarrow> gret ()
      | Inr (Public tx) \<Rightarrow> gbind (glift (fuzzed_transfer_check L P C (genesis_state G (init_accounts accs) []) (Public tx)))
          (\<lambda>_. gbind (gcatch (arb_private_key A C)) (\<lambda>r3. case r3 of Inl _ \<Rightarrow> gret () | Inr key \<Rightarrow> glift (single_signer_check T W C key)))"
  let ?safe = "\<lambda>accs raw. \<forall>tx. stateless_check L raw = Inr (Public tx) \<longrightarrow>
      signers_exposed L P C (genesis_state G (init_accounts accs) []) tx \<and>
      (\<forall>k. drawable_private_key C k \<longrightarrow> single_signer_rule T W C k)"
  have signed: "judged (gbind (glift (fuzzed_transfer_check L P C st (Public tx))) (\<lambda>_. gbind (gcatch (arb_private_key A C))
      (\<lambda>r3. case r3 of Inl _ \<Rightarrow> gret () | Inr key \<Rightarrow> glift (single_signer_check T W C key))))
      (signers_exposed L P C st tx \<and> (\<forall>k. drawable_private_key C k \<longrightarrow> single_signer_rule T W C k))" for st tx
    unfolding fuzzed_transfer_iff [symmetric] single_signer_iff [symmetric]
    by (intro judged_then judged_draw [OF keys] judged_check)
  have rest: "judged (?rest accs raw) (?safe accs raw)" for accs raw
    by (cases "stateless_check L raw"; simp add: judged_gret signed split: lee_transaction.split)
  have "judged (fuzz_transaction_properties L T P W C G A)
      (signed_by_two_checks T P W C = Inr () \<and> signer_only_check T P W C = Inr () \<and>
       (\<forall>accs. drawable_state C (reserved_account_ids G) accs \<longrightarrow> (\<forall>raw. correlated_transfer C accs raw \<longrightarrow> ?safe accs raw)))"
    unfolding fuzz_transaction_properties_def Let_def
    by (intro judged_then judged_draw [OF exact_no_bad_seed [OF exact_fuzz_state seed]] judged_draw [OF exact_fuzz_native_transfer] rest)
      (simp add: drawable_state_props(2) [THEN order_trans])
  from judged_returns [OF this unfailing_properties] show ?thesis
    unfolding two_signers_iff signer_only_iff properties_hold_def by blast
qed

end

end
