(* ===== verification/Countable_Types.thy ===== *)
theory Countable_Types
  imports Lez_Types "HOL-Library.Countable"
begin

text \<open>
  Transactions, blocks and circuit outputs are countable, so each has an injective encoding into
  bytes: the laws that the development assumes of the borsh codecs and of the hash functions can
  hold. An encoding is a zero byte per unit of the code number, after one leading zero byte.
\<close>

instance account_id :: countable by countable_datatype
instance public_key :: countable by countable_datatype
instance nullifier :: countable by countable_datatype
instance commitment :: countable by countable_datatype
instance zk_proof :: countable by countable_datatype
instance image_id :: countable by countable_datatype
instance ciphertext :: countable by countable_datatype
instance program_shard_selector :: countable by countable_datatype
instance fee_declaration :: countable by countable_datatype
instance program_image_claim :: countable by countable_datatype
instance validity_window :: countable by countable_datatype

instance signature_t_ext :: (countable) countable
  by (rule countable_classI [of "\<lambda>r. to_nat (sig_value r, signature_t.more r)"]) simp

instance pub_message_ext :: (countable) countable
  by (rule countable_classI [of "\<lambda>r. to_nat (msg_program_account_id r, msg_shard_selectors r, msg_nonces r, msg_instruction_data r, msg_fee r, pub_message.more r)"]) simp

instance witness_set_ext :: (countable) countable
  by (rule countable_classI [of "\<lambda>r. to_nat (ws_signatures_and_public_keys r, witness_set.more r)"]) simp

instance public_transaction_ext :: (countable) countable
  by (rule countable_classI [of "\<lambda>r. to_nat (pt_message r, pt_witness_set r, public_transaction.more r)"]) simp

instance deferred_public_effect_ext :: (countable) countable
  by (rule countable_classI [of "\<lambda>r. to_nat (eff_program_account_id r, eff_shard_program_account_id r, eff_data r, deferred_public_effect.more r)"]) simp

instance public_action_with_id_ext :: (countable) countable
  by (rule countable_classI [of "\<lambda>r. to_nat (pai_account_id r, pai_effects r, public_action_with_id.more r)"]) simp

instance public_action_ext :: (countable) countable
  by (rule countable_classI [of "\<lambda>r. to_nat (pa_account_id r, pa_is_authorized r, pa_effects r, public_action.more r)"]) simp

instance encrypted_account_data_ext :: (countable) countable
  by (rule countable_classI [of "\<lambda>r. to_nat (ead_ciphertext r, ead_epk r, ead_view_tag r, encrypted_account_data.more r)"]) simp

instance private_action_ext :: (countable) countable
  by (rule countable_classI [of "\<lambda>r. to_nat (pra_nullifier r, pra_root r, pra_commitment r, pra_encrypted_post_state r, private_action.more r)"]) simp

instance pp_message_ext :: (countable) countable
  by (rule countable_classI [of "\<lambda>r. to_nat (ppm_public_actions r, ppm_nonces r, ppm_private_actions r, ppm_block_validity_window r, ppm_timestamp_validity_window r, ppm_program_image_claims r, pp_message.more r)"]) simp

instance pp_circuit_output_ext :: (countable) countable
  by (rule countable_classI [of "\<lambda>r. to_nat (pco_public_actions r, pco_private_actions r, pco_block_validity_window r, pco_timestamp_validity_window r, pco_program_image_claims r, pp_circuit_output.more r)"]) simp

instance pp_witness_set_ext :: (countable) countable
  by (rule countable_classI [of "\<lambda>r. to_nat (ppw_signatures_and_public_keys r, ppw_proof r, pp_witness_set.more r)"]) simp

instance pp_transaction_ext :: (countable) countable
  by (rule countable_classI [of "\<lambda>r. to_nat (ppt_message r, ppt_witness_set r, pp_transaction.more r)"]) simp

instance lee_transaction :: countable by countable_datatype

instance hashable_block_data_ext :: (countable) countable
  by (rule countable_classI [of "\<lambda>r. to_nat (hbd_block_id r, hbd_prev_block_hash r, hbd_timestamp r, hbd_transactions r, hashable_block_data.more r)"]) simp

subsection \<open>Unary encodings\<close>

definition unary_bytes :: "'a::countable \<Rightarrow> bytes" where
  "unary_bytes x = 0 # replicate (to_nat x) 0"

definition unary_parse :: "bytes \<Rightarrow> unit + 'a::countable" where
  "unary_parse bs = (if bs = unary_bytes (from_nat (length bs - 1) :: 'a)
     then Inr (from_nat (length bs - 1)) else Inl ())"

lemma unary_bytes_inj: "unary_bytes x = unary_bytes y \<longleftrightarrow> x = y"
proof
  assume "unary_bytes x = unary_bytes y"
  then have "length (unary_bytes x) = length (unary_bytes y)" by simp
  then show "x = y" by (simp add: unary_bytes_def)
qed simp

lemma unary_bytes_nonempty: "unary_bytes x \<noteq> []"
  by (simp add: unary_bytes_def)

lemma unary_parse_bytes: "unary_parse (unary_bytes x) = Inr x"
  by (simp add: unary_parse_def unary_bytes_def)

lemma unary_parse_canonical: "unary_parse bs = Inr x \<Longrightarrow> unary_bytes x = bs"
  by (auto simp: unary_parse_def split: if_splits)

end
