(* ===== verification/Reference_Instances.thy ===== *)
theory Reference_Instances
  imports Lockstep_Coverage Diff_Coverage Accessor_Coverage Reference_Chain Countable_Types
begin

text \<open>
  Concrete providers of the interfaces the targets call, and the laws they satisfy: the reference
  chain as a chain that executes by diff and isolates rejections, a shielded chain that records
  spent nullifiers, and signature, witness and accessor providers whose tags are the signing key
  with the signed bytes. They show that the laws assumed of the external crates can hold together.
\<close>

subsection \<open>The reference chain\<close>

lemma ref_executes_by_diff: "executes_by_diff ref_lez"
  unfolding executes_by_diff_def by (auto simp: ref_lez_def ref_execute_def split: sum.splits)

lemma ref_stateless_stable: "stateless_stable ref_lez"
  by (simp add: stateless_stable_def ref_lez_def)

lemma ref_rejections_isolated: "rejections_isolated ref_lez"
  by (auto simp: rejections_isolated_def rejection_isolated_def untouched_def ref_execute_def split: sum.splits)

lemma ref_transfers_signed: "transfers_signed ref_crypto"
  by (simp add: transfers_signed_def ref_transfer_def account_id_for_key_def)
    (simp add: ref_crypto_def)

lemma ref_no_bad_seed: "\<not> bad_seed ref_crypto p"
  by (simp add: bad_seed_def ref_seed)

lemma ref_readable: "readable ref_lez st ids"
  by (simp add: readable_def)

text \<open>Two users with a spendable balance, and a block-advancing driver for the lockstep target.\<close>

definition ref_user :: "u8 \<Rightarrow> u128 \<Rightarrow> fuzz_account" where
  "ref_user b balance = \<lparr>fa_account_id = AccountId (replicate 32 b), fa_balance = balance,
     fa_private_key = PrivateKey (replicate 32 b)\<rparr>"

definition ref_users :: "fuzz_account list" where
  "ref_users = [ref_user 21 1000, ref_user 22 500]"

lemma ref_users_ok: "fuzz_state_ok ref_crypto (reserved_account_ids ref_genesis) ref_users"
  by (simp add: fuzz_state_ok_def ref_users_def ref_user_def reserved_account_ids_def ref_genesis_def
      valid_private_key_def) (auto simp: ref_crypto_def numeral_eq_Suc intro!: exI)

definition ref_nonce_kind :: "(bytes, nonce_kind) gen" where
  "ref_nonce_kind = gbind (draw_below ref_input 3) (\<lambda>k.
     if k = 0 then gret Correct
     else if k = 1 then gbind (prim (draw_u8 ref_input)) (\<lambda>d. gret (Off d))
     else gbind (prim (draw_u128 ref_input)) (\<lambda>n. gret (Nonce_Raw n)))"

definition ref_amount_kind :: "(bytes, amount_kind) gen" where
  "ref_amount_kind = gbind (draw_below ref_input 5) (\<lambda>k.
     if k = 0 then gret Zero
     else if k = 1 then gret All
     else gbind (prim (draw_u128 ref_input)) (\<lambda>n.
       gret (if k = 2 then WithinBalance n else if k = 3 then Excessive n else Amount_Raw n)))"

definition ref_command :: "(bytes, command) gen" where
  "ref_command = gbind (draw_below ref_input 3) (\<lambda>k.
     if k = 0 then gbind (prim (draw_u8 ref_input)) (\<lambda>x. gret (AdvanceBlock x))
     else if k = 1 then gret ReplayLast
     else gbind (prim (draw_u8 ref_input)) (\<lambda>x. gbind (prim (draw_u8 ref_input)) (\<lambda>y.
            gbind ref_nonce_kind (\<lambda>n. gbind ref_amount_kind (\<lambda>a. gret (Transfer x y n a))))))"

text \<open>Its input is replayable and its commands are all commands.\<close>

lemma length_le_bytes [simp]: "length (le_bytes k n) = k"
  by (induction k arbitrary: n) auto

lemma draws_ref_word:
  assumes "LENGTH('a::len) = 8 * n"
  shows "draws (ref_word n :: bytes \<Rightarrow> (arb_error + 'a word) \<times> bytes) UNIV"
proof -
  have "ref_word n (le_bytes n (unat x) @ u) = (Inr x, u)" for x :: "'a word" and u
  proof -
    have "unat x < 256 ^ n"
      using unsigned_less [of x, where ?'a = nat] by (simp add: assms power_mult)
    then have "of_nat (le_number (le_bytes n (unat x))) = x" by (simp add: le_number_bytes)
    then show ?thesis by (simp add: ref_word_def ref_take_def)
  qed
  then show ?thesis unfolding draws_def by blast
qed

lemma ref_vec_reads: "ref_vec (concat (map (\<lambda>x. [1, x]) v) @ 0 # u) = (v, u)"
proof (induction v)
  case Nil
  show ?case by (cases u) simp_all
qed simp

lemma ref_take_append: "length b = n \<Longrightarrow> ref_take n (b @ u) = (b, u)"
  by (simp add: ref_take_def)

lemma drawsI:
  assumes "\<And>u x u'. d u = (Inr x, u') \<Longrightarrow> x \<in> X" and "\<And>x u. x \<in> X \<Longrightarrow> d (f x u) = (Inr x, u)"
  shows "draws d X"
  using assms unfolding draws_def by blast

lemma draws_bytes: "draws (\<lambda>u. case ref_take n u of (bs, u') \<Rightarrow> (Inr bs, u')) {b. length b = n}"
  by (rule drawsI [where f = append]) (auto simp: ref_take_def)

interpretation ref_replay: replayable ref_input
proof
  show "draws (draw_bool ref_input) UNIV"
    using ref_take_append [of "[_]" 1]
    by (intro drawsI [where f = "\<lambda>b u. (if b then 1 else 0) # u"]) (simp_all add: ref_input_def)
  show "draws (draw_vec_u8 ref_input) UNIV"
    by (rule drawsI [where f = "\<lambda>v u. concat (map (\<lambda>x. [1, x]) v) @ 0 # u"])
      (simp_all add: ref_input_def ref_vec_reads)
qed (simp_all add: ref_input_def draws_ref_word draws_bytes)

lemma reaches_below: "k < n \<Longrightarrow> n \<le> 256 \<Longrightarrow> reaches (draw_below ref_input n) k"
  by (rule exact_gen.reached [OF exact_draw_below [OF _ _ ref_replay.any_u8]]) auto

lemmas ref_reach = reaches_gret reaches_below reaches_prim [OF ref_replay.any_u8] reaches_prim [OF ref_replay.any_u128]

lemma reaches_nonce_kind: "reaches ref_nonce_kind n"
proof (cases n)
  case Correct
  then show ?thesis
    unfolding ref_nonce_kind_def by (intro reaches_gbind [of _ 0]) (simp_all add: ref_reach)
next
  case (Off d)
  then show ?thesis
    unfolding ref_nonce_kind_def by (intro reaches_gbind [of _ 1]) (auto intro: ref_reach reaches_gbind)
next
  case (Nonce_Raw n)
  then show ?thesis
    unfolding ref_nonce_kind_def by (intro reaches_gbind [of _ 2]) (auto intro: ref_reach reaches_gbind)
qed

lemma reaches_amount_kind: "reaches ref_amount_kind a"
proof (cases a)
  case Zero
  then show ?thesis
    unfolding ref_amount_kind_def by (intro reaches_gbind [of _ 0]) (simp_all add: ref_reach)
next
  case All
  then show ?thesis
    unfolding ref_amount_kind_def by (intro reaches_gbind [of _ 1]) (simp_all add: ref_reach)
next
  case (WithinBalance x)
  then show ?thesis
    unfolding ref_amount_kind_def by (intro reaches_gbind [of _ 2]) (auto intro!: ref_reach reaches_gbind [of _ x])
next
  case (Excessive x)
  then show ?thesis
    unfolding ref_amount_kind_def by (intro reaches_gbind [of _ 3]) (auto intro!: ref_reach reaches_gbind [of _ x])
next
  case (Amount_Raw x)
  then show ?thesis
    unfolding ref_amount_kind_def by (intro reaches_gbind [of _ 4]) (auto intro!: ref_reach reaches_gbind [of _ x])
qed

lemma reaches_command: "reaches ref_command cmd"
proof (cases cmd)
  case (AdvanceBlock x)
  then show ?thesis
    unfolding ref_command_def by (intro reaches_gbind [of _ 0]) (auto intro!: ref_reach reaches_gbind [of _ x])
next
  case ReplayLast
  then show ?thesis
    unfolding ref_command_def by (intro reaches_gbind [of _ 1]) (simp_all add: ref_reach)
next
  case (Transfer x y n a)
  show ?thesis
    unfolding ref_command_def Transfer
    by (rule reaches_gbind [of _ 2], simp add: ref_reach, simp, rule reaches_gbind [of _ x], simp add: ref_reach,
        rule reaches_gbind [of _ y], simp add: ref_reach, rule reaches_gbind [OF reaches_nonce_kind],
        rule reaches_gbind [OF reaches_amount_kind], rule reaches_gret)
qed

lemma ref_command_total: "contract_gen ref_command (\<lambda>_. True) (\<lambda>_. False)"
  unfolding ref_command_def ref_nonce_kind_def ref_amount_kind_def
  by (intro contract_gbind_any contract_if contract_prim contract_gret contract_weaken [OF contract_draw_below]) auto

lemma ref_covers: "covers_commands ref_command"
  unfolding covers_commands_def by (rule exact_genI [OF ref_command_total]) (rule reaches_command)

lemma ref_key_drawable: "drawable_private_key ref_crypto (PrivateKey b) \<longleftrightarrow> length b = 32"
proof
  assume "length b = 32"
  then have "private_key_try_new ref_crypto b = Some (PrivateKey b)" by (simp add: ref_crypto_def)
  with \<open>length b = 32\<close> show "drawable_private_key ref_crypto (PrivateKey b)"
    unfolding drawable_private_key_def by blast
qed (auto simp: drawable_private_key_def ref_crypto_def split: if_splits)

lemma ref_users_drawable: "drawable_fuzz_state ref_crypto (reserved_account_ids ref_genesis) ref_users"
  using ref_users_ok by (simp add: drawable_fuzz_state_def ref_users_def ref_user_def ref_key_drawable)

subsection \<open>A shielded chain\<close>

text \<open>
  The reference chain with a record of the private actions it accepted. A privacy-preserving
  transaction is accepted when it has private actions, none of their nullifiers was spent, it
  carries its signers' nonces, and the effects on every public account can be paid. The accepted
  transaction raises the nonces of its signers and settles its public accounts.
\<close>

fun effect_of_bytes :: "bytes \<Rightarrow> native_effect option" where
  "effect_of_bytes [] = None"
| "effect_of_bytes (tag # bs) =
     (if length bs \<noteq> 16 then None
      else if tag = 0 then Some (Debit (of_nat (le_number bs)))
      else if tag = 1 then Some (Credit (of_nat (le_number bs))) else None)"

fun ref_settle :: "deferred_public_effect list \<Rightarrow> u128 \<Rightarrow> u128 option" where
  "ref_settle [] balance = Some balance"
| "ref_settle (e # es) balance =
     (if eff_program_account_id e \<noteq> AccountId [1] \<or> eff_shard_program_account_id e \<noteq> AccountId [1] then None
      else case effect_of_bytes (eff_data e) of
             None \<Rightarrow> None
           | Some n \<Rightarrow> (case apply_native_effect n balance of None \<Rightarrow> None | Some b \<Rightarrow> ref_settle es b))"

definition ref_settled ::
  "ref_state \<Rightarrow> account_id list \<Rightarrow> public_action_with_id list \<Rightarrow> account_id \<Rightarrow> u128 account" where
  "ref_settled st signers actions aid = (let a = ref_get st aid in
     \<lparr>acc_nonce = (if aid \<in> set signers then acc_nonce a + 1 else acc_nonce a),
      acc_data = (case find (\<lambda>x. pai_account_id x = aid) actions of
          None \<Rightarrow> acc_data a
        | Some x \<Rightarrow> (case ref_settle (pai_effects x) (acc_data a) of None \<Rightarrow> acc_data a | Some b \<Rightarrow> b))\<rparr>)"

definition ref_signers :: "pp_transaction \<Rightarrow> account_id list" where
  "ref_signers tx = map (\<lambda>(_, pk). ref_account_id pk) (ppw_signatures_and_public_keys (ppt_witness_set tx))"

definition shielded_accepted :: "pp_transaction \<Rightarrow> ref_state \<Rightarrow> private_action list \<Rightarrow> bool" where
  "shielded_accepted tx st spent \<longleftrightarrow> (let m = ppt_message tx in
     ppm_private_actions m \<noteq> [] \<and>
     list_all (\<lambda>x. pra_nullifier x \<notin> pra_nullifier ` set spent) (ppm_private_actions m) \<and>
     ppm_nonces m = map (\<lambda>aid. acc_nonce (ref_get st aid)) (ref_signers tx) \<and>
     list_all (\<lambda>n. n \<noteq> - 1) (ppm_nonces m) \<and>
     list_all (\<lambda>x. ref_settle (pai_effects x) (acc_data (ref_get st (pai_account_id x))) \<noteq> None)
       (ppm_public_actions m))"

definition shielded_apply :: "pp_transaction \<Rightarrow> ref_state \<Rightarrow> ref_state" where
  "shielded_apply tx st = (let actions = ppm_public_actions (ppt_message tx); signers = ref_signers tx in
     ref_put_all (map (\<lambda>aid. (aid, ref_settled st signers actions aid)) (signers @ map pai_account_id actions)) st)"

type_synonym shielded_state = "ref_state \<times> private_action list"

fun shielded_execute ::
  "lee_transaction \<Rightarrow> shielded_state \<Rightarrow> u64 \<Rightarrow> u64 \<Rightarrow> (ref_error + lee_transaction) \<times> shielded_state" where
  "shielded_execute (Public t) (st, spent) b ts =
     (case ref_execute (Public t) st b ts of (r, st') \<Rightarrow> (r, st', spent))"
| "shielded_execute (PrivacyPreserving t) (st, spent) b ts =
     (if shielded_accepted t st spent
      then (Inr (PrivacyPreserving t), shielded_apply t st, ppm_private_actions (ppt_message t) @ spent)
      else (Inl Refused, st, spent))"

definition shielded_lez :: "(shielded_state, u128, ref_error, shielded_state) lez" where
  "shielded_lez = \<lparr>get_account_by_id = (\<lambda>(st, _). ref_get st), data_native_balance = Inr,
     stateless_check = Inr, execute_check_on_state = shielded_execute,
     validate_on_state = (\<lambda>tx st b t. case shielded_execute tx st b t of (Inl e, _) \<Rightarrow> Inl e | (Inr _, st') \<Rightarrow> Inr st'),
     apply_state_diff = (\<lambda>st' _. st'), public_diff = (\<lambda>(st, _). st)\<rparr>"

lemma shielded_gate_identity: "gate_identity shielded_lez"
  by (simp add: gate_identity_def shielded_lez_def)

lemma shielded_rejection_is_noop: "rejection_is_noop shielded_lez"
proof -
  have "st' = st" if "shielded_execute tx st b t = (Inl e, st')" for tx st b t e st'
    using that by (cases "(tx, st, b, t)" rule: shielded_execute.cases)
      (auto simp: ref_execute_def Let_def split: sum.splits if_splits)
  then show ?thesis by (simp add: rejection_is_noop_def shielded_lez_def)
qed

lemma shielded_accepts:
  "shielded_execute (PrivacyPreserving x) (a, spent) b t = (Inr applied, st1) \<Longrightarrow>
     nullifiers x \<subseteq> pra_nullifier ` set (snd st1)"
  by (auto simp: nullifiers_def split: if_splits)

lemma shielded_rejects_spent:
  "nullifiers y \<inter> pra_nullifier ` set spent \<noteq> {} \<Longrightarrow>
     \<not> is_ok (fst (shielded_execute (PrivacyPreserving y) (a, spent) b t))"
  by (auto simp: nullifiers_def list_all_iff shielded_accepted_def Let_def)

lemma shielded_spent_once: "nullifiers_spent_once shielded_lez"
proof -
  have "\<not> is_ok (fst (shielded_execute (PrivacyPreserving y) st1 b' t'))"
    if shared: "nullifiers x \<inter> nullifiers y \<noteq> {}"
      and ok: "shielded_execute (PrivacyPreserving x) st b t = (Inr applied, st1)"
    for x y st b t b' t' applied st1
  proof -
    obtain a0 s0 where st: "st = (a0, s0)" by (cases st)
    obtain a1 s1 where st1: "st1 = (a1, s1)" by (cases st1)
    have "nullifiers x \<subseteq> pra_nullifier ` set s1" using shielded_accepts [OF ok [unfolded st st1]] by simp
    with shared have "nullifiers y \<inter> pra_nullifier ` set s1 \<noteq> {}" by blast
    then show ?thesis unfolding st1 by (rule shielded_rejects_spent)
  qed
  then show ?thesis unfolding nullifiers_spent_once_def by (auto simp: shielded_lez_def)
qed

subsection \<open>Privacy primitives\<close>

fun id_bytes :: "account_id \<Rightarrow> bytes" where
  "id_bytes (AccountId b) = b"

fun key_bytes :: "private_key \<Rightarrow> bytes" where
  "key_bytes (PrivateKey b) = b"

fun effect_bytes :: "native_effect \<Rightarrow> bytes" where
  "effect_bytes (Debit a) = 0 # le_bytes 16 (unat a)"
| "effect_bytes (Credit a) = 1 # le_bytes 16 (unat a)"

definition ref_privacy :: "(shielded_state, u128) privacy_api" where
  "ref_privacy = \<lparr>
     get_program_image_id = (\<lambda>_ _. None),
     commitment_set_digest = (\<lambda>(_, spent). le_bytes 32 (length spent)),
     privacy_preserving_circuit_id = ImageId [1],
     circuit_output_to_bytes = unary_bytes,
     fake_receipt_to_vec = (\<lambda>_ journal. Some journal),
     native_effect_to_vec = (\<lambda>e. Some (effect_bytes e)),
     native_token_program_id = AccountId [1],
     validity_window_try_from = (\<lambda>(a, b). case (a, b) of
         (Some x, Some y) \<Rightarrow> if x < y then Some (ValidityWindow a b) else None
       | _ \<Rightarrow> Some (ValidityWindow a b)),
     validity_window_unbounded = ValidityWindow None None,
     nullifier_for_account_initialization = (\<lambda>aid. Nullifier (id_bytes aid)),
     commitment_new = (\<lambda>aid a. Commitment (id_bytes aid @ le_bytes 16 (unat (acc_nonce a)) @ le_bytes 16 (unat (acc_data a)))),
     encryption_encrypt = (\<lambda>_ ident _ _. Ciphertext ident),
     pp_witness_for_message = (\<lambda>m pf keys. \<lparr>
       ppw_signatures_and_public_keys = map (\<lambda>k. (\<lparr>sig_value = unary_bytes m\<rparr>, ref_public_key k)) keys,
       ppw_proof = pf\<rparr>)\<rparr>"

definition ref_pp_exec :: "(shielded_state, u128) pp_exec_api" where
  "ref_pp_exec = \<lparr>
     message_public_account_ids = (\<lambda>m. map pai_account_id (ppm_public_actions m)),
     message_commitments = (\<lambda>m. map pra_commitment (ppm_private_actions m)),
     has_proof_for_commitment = (\<lambda>(_, spent) c. c \<in> pra_commitment ` set spent),
     native_effect_from_slice = effect_of_bytes,
     set_native_shard = (\<lambda>_ b. b),
     public_account_nonce_increment = (\<lambda>n. n + 1)\<rparr>"

text \<open>The shielded chain settles accepted transactions by the rules the privacy target checks.\<close>

lemma ref_settle_folds:
  "ref_settle es b = Some b' \<Longrightarrow>
     native_only ref_privacy es \<and>
     (\<exists>ns. list_all2 (\<lambda>e n. native_effect_from_slice ref_pp_exec (eff_data e) = Some n) es ns \<and>
       solvent (unat b) ns \<and> unat b' + debits ns = unat b + credits ns)"
proof -
  assume settle: "ref_settle es b = Some b'"
  then have "fold_native_effects ref_privacy ref_pp_exec es b = Inr (Some b')"
    by (induction es b rule: ref_settle.induct)
      (auto simp: ref_privacy_def ref_pp_exec_def expect_def split: if_splits option.splits)
  then show ?thesis unfolding fold_native_effects_Some_iff .
qed

lemma shielded_apply_get:
  "ref_get (shielded_apply tx st) aid =
     (if aid \<in> set (ref_signers tx) \<union> pai_account_id ` set (ppm_public_actions (ppt_message tx))
      then ref_settled st (ref_signers tx) (ppm_public_actions (ppt_message tx)) aid else ref_get st aid)"
proof -
  have graph: "map_of (rev (map (\<lambda>x. (x, f x)) xs)) aid = (if aid \<in> set xs then Some (f aid) else None)"
    for f :: "account_id \<Rightarrow> u128 account" and xs
    by (simp add: rev_map map_of_map_restrict restrict_map_def)
  show ?thesis unfolding shielded_apply_def Let_def ref_get_put_all graph by simp
qed

lemma shielded_simps [simp]:
  "get_account_by_id shielded_lez (st, spent) aid = ref_get st aid"
  "native_balance shielded_lez (st, spent) aid = Inr (acc_data (ref_get st aid))"
  "account_nonce shielded_lez (st, spent) aid = acc_nonce (ref_get st aid)"
  "execute_check_on_state shielded_lez = shielded_execute"
  by (simp_all add: native_balance_def account_nonce_def shielded_lez_def)

lemma shielded_readable: "balances_readable shielded_lez"
  by (simp add: balances_readable_def readable_def split_paired_all)

lemma ref_names_keys: "witnesses_name_keys ref_crypto ref_privacy"
  by (simp add: witnesses_name_keys_def) (simp add: ref_privacy_def ref_crypto_def)

lemma shielded_settles:
  assumes "shielded_accepted tx st spent" and "distinct (map pai_account_id (ppm_public_actions (ppt_message tx)))"
    and "action \<in> set (ppm_public_actions (ppt_message tx))"
  shows "settles shielded_lez ref_privacy ref_pp_exec (st, spent) (shielded_apply tx st, spent') (ref_signers tx) action"
proof -
  let ?id = "pai_account_id action" let ?a = "ref_get st ?id"
  from assms(1,3) obtain b' where settle: "ref_settle (pai_effects action) (acc_data ?a) = Some b'"
    by (auto simp: shielded_accepted_def list_all_iff Let_def)
  have "pai_effects action = [] \<Longrightarrow> acc_data ?a = b'" using settle by simp
  then have "ref_get (shielded_apply tx st) ?id =
      folded_account shielded_lez ref_pp_exec (st, spent) (ref_signers tx) action b'"
    using assms(3) settle
    by (auto simp: shielded_apply_get ref_settled_def folded_account_def find_distinct [OF assms(2,3)] Let_def ref_pp_exec_def)
  then show ?thesis
    using ref_settle_folds [OF settle] unfolding settles_def by (simp add: native_prefix_all) blast
qed

lemma shielded_private_rules: "private_ledger_rules shielded_lez ref_crypto ref_privacy ref_pp_exec"
proof -
  have signers: "map (\<lambda>(_, pk). account_id_from ref_crypto pk) (ppw_signatures_and_public_keys (ppt_witness_set tx)) =
      ref_signers tx" for tx
    by (simp add: ref_signers_def ref_crypto_def)
  have step: "unat (n + 1) = unat n + 1" if "n \<noteq> - 1" for n :: u128
    using that unatSuc [of n] by (simp add: eq_neg_iff_add_eq_0 add.commute)
  have rules: "applied = PrivacyPreserving tx \<and>
      (\<forall>c\<in>set (message_commitments ref_pp_exec (ppt_message tx)). has_proof_for_commitment ref_pp_exec st' c) \<and>
      (\<forall>aid\<in>set (ref_signers tx). unat (account_nonce shielded_lez st' aid) = unat (acc_nonce (ref_get a aid)) + 1) \<and>
      (distinct (map pai_account_id (ppm_public_actions (ppt_message tx))) \<longrightarrow>
         (\<forall>x\<in>set (ppm_public_actions (ppt_message tx)).
            settles shielded_lez ref_privacy ref_pp_exec (a, spent) st' (ref_signers tx) x))"
    if "shielded_execute (PrivacyPreserving tx) (a, spent) b t = (Inr applied, st')" for tx a spent b t applied st'
  proof -
    from that have acc: "shielded_accepted tx a spent" and out: "applied = PrivacyPreserving tx"
      and st': "st' = (shielded_apply tx a, ppm_private_actions (ppt_message tx) @ spent)"
      by (simp_all split: if_splits)
    have "unat (acc_nonce (ref_get a aid) + 1) = unat (acc_nonce (ref_get a aid)) + 1" if "aid \<in> set (ref_signers tx)" for aid
      using acc that by (intro step) (auto simp: shielded_accepted_def Let_def list_all_iff)
    then show ?thesis
      using shielded_settles [OF acc] out st'
      by (auto simp: shielded_apply_get ref_settled_def Let_def ref_pp_exec_def)
  qed
  show ?thesis
    unfolding private_ledger_rules_def Let_def signers using rules by (auto simp: split_paired_all)
qed

lemma shielded_lawful: "lawful_private_chain shielded_lez ref_crypto ref_privacy ref_pp_exec"
  unfolding lawful_private_chain_def
  by (intro conjI shielded_gate_identity shielded_rejection_is_noop shielded_spent_once shielded_readable
      ref_names_keys shielded_private_rules)

definition ref_pp_encoding :: "unit pp_encoding_api" where
  "ref_pp_encoding = \<lparr>
     ppe_message_to_bytes = unary_bytes,
     ppe_message_from_bytes = unary_parse,
     ppe_tx_to_bytes = unary_bytes,
     ppe_tx_from_bytes = unary_parse,
     from_circuit_output = (\<lambda>ns out. \<lparr>
        ppm_public_actions = map (\<lambda>a. \<lparr>pai_account_id = pa_account_id a, pai_effects = pa_effects a\<rparr>)
          (pco_public_actions out),
        ppm_nonces = ns, ppm_private_actions = pco_private_actions out,
        ppm_block_validity_window = pco_block_validity_window out,
        ppm_timestamp_validity_window = pco_timestamp_validity_window out,
        ppm_program_image_claims = pco_program_image_claims out\<rparr>),
     ppe_public_account_ids = (\<lambda>m. map pai_account_id (ppm_public_actions m)),
     signatures_are_valid_for = (\<lambda>ws m. list_all (\<lambda>(sig, _). sig_value sig = unary_bytes m)
       (ppw_signatures_and_public_keys ws)),
     pp_message_to_vec = (\<lambda>m. Inr (unary_bytes m)),
     pp_affected_public_account_ids = (\<lambda>t. map pai_account_id (ppm_public_actions (ppt_message t)) @
       map (\<lambda>(_, pk). ref_account_id pk) (ppw_signatures_and_public_keys (ppt_witness_set t)))\<rparr>"

lemma ref_pp_witnesses: "sound_pp_witnesses ref_pp_encoding ref_crypto ref_privacy"
  unfolding sound_pp_witnesses_def
  by (auto simp: ref_pp_encoding_def ref_privacy_def ref_crypto_def list_all_iff neq_Nil_conv comp_def unary_bytes_inj)

lemma ref_sound_pp_encoding: "sound_pp_encoding ref_pp_encoding"
  unfolding sound_pp_encoding_def
  by (auto simp: ref_pp_encoding_def unary_bytes_nonempty unary_parse_bytes unary_parse_canonical)

lemma ref_binding_receipts: "binding_receipts ref_privacy"
  by (auto simp: binding_receipts_def ref_privacy_def inj_def unary_bytes_inj)

subsection \<open>Signatures and witness sets\<close>

definition ref_signatures :: signature_api where
  "ref_signatures = \<lparr>
     signature_new = (\<lambda>k msg. \<lparr>sig_value = key_bytes k @ msg\<rparr>),
     signature_is_valid_for = (\<lambda>sig msg pk. sig_value sig = id_bytes (ref_account_id pk) @ msg)\<rparr>"

lemma ref_sound_signatures: "sound_signatures ref_signatures ref_crypto"
proof -
  have "key_bytes k = id_bytes (ref_account_id pk) \<longleftrightarrow> pk = ref_public_key k" for k pk
    by (cases k; cases pk) auto
  then show ?thesis
    by (simp add: sound_signatures_def ref_signatures_def) (simp add: ref_crypto_def)
qed

definition ref_witnesses :: witness_api where
  "ref_witnesses = \<lparr>
     witness_for_message = (\<lambda>m keys. \<lparr>ws_signatures_and_public_keys =
       map (\<lambda>k. (\<lparr>sig_value = unary_bytes m\<rparr>, ref_public_key k)) keys\<rparr>),
     witness_is_valid_for = (\<lambda>ws m. list_all (\<lambda>(sig, _). sig_value sig = unary_bytes m)
       (ws_signatures_and_public_keys ws)),
     pub_message_to_vec = (\<lambda>m. Some (unary_bytes m))\<rparr>"

lemma ref_sound_witnesses: "sound_witnesses ref_witnesses ref_crypto"
  unfolding sound_witnesses_def
  by (auto simp: ref_witnesses_def list_all_iff neq_Nil_conv)

subsection \<open>Transaction accessors and blocks\<close>

definition ref_public :: "(ref_state, ref_error, ref_state) public_api" where
  "ref_public = \<lparr>
     affected_public_account_ids = (\<lambda>t. map (\<lambda>s. case s of ProgramShardSelector a _ \<Rightarrow> a)
       (msg_shard_selectors (pt_message t)) @ signer_account_ids ref_crypto (Public t)),
     from_public_transaction = (\<lambda>t. ref_validate (Public t)),
     clock_invocation = (\<lambda>b t. \<lparr>pt_message = \<lparr>msg_program_account_id = AccountId [9],
       msg_shard_selectors = [], msg_nonces = [], msg_instruction_data = [], msg_fee = None\<rparr>,
       pt_witness_set = \<lparr>ws_signatures_and_public_keys = []\<rparr>\<rparr>),
     transition_from_public_transaction = (\<lambda>t st b ts. (Inr (), ref_put_all
       [(AccountId [3], \<lparr>acc_nonce = 0, acc_data = ucast b\<rparr>)] st))\<rparr>"

definition ref_accessors :: accessor_api where
  "ref_accessors = \<lparr>
     message_try_new = (\<lambda>p sels ns amount. Some \<lparr>msg_program_account_id = p, msg_shard_selectors = sels,
       msg_nonces = ns, msg_instruction_data = le_bytes 16 (unat amount), msg_fee = None\<rparr>),
     native_balance_selector = (\<lambda>a. ProgramShardSelector a (AccountId [1])),
     acc_native_token_program_id = AccountId [1],
     into_raw_parts = ws_signatures_and_public_keys,
     lee_hash = (\<lambda>_. [1]),
     lee_affected_public_account_ids = (\<lambda>tx. case tx of
         Public t \<Rightarrow> affected_public_account_ids ref_public t
       | PrivacyPreserving t \<Rightarrow> [])\<rparr>"

lemma ref_validate_signers:
  assumes "ref_validate (Public t) st b ts = Inr d"
  shows "set (signer_account_ids ref_crypto (Public t)) \<subseteq> fst ` set d"
  using assms
  by (auto simp: ref_validate_def ref_diff_def ref_crypto_def Let_def split: list.splits
      program_shard_selector.splits if_splits prod.splits)

lemma ref_hash_nonzero: "lee_hash ref_accessors tx \<noteq> replicate 32 0"
proof
  assume "lee_hash ref_accessors tx = replicate 32 0"
  then have "length [1 :: u8] = length (replicate 32 (0 :: u8))" by (simp add: ref_accessors_def)
  then show False by simp
qed

lemma ref_signers_affected:
  "set (signer_account_ids ref_crypto (Public pt)) \<subseteq> set (affected_public_account_ids ref_public pt)"
  by (auto simp: ref_public_def)

lemma ref_witness_keys:
  "map snd (ws_signatures_and_public_keys (witness_for_message ref_witnesses m keys)) =
     map (public_key_new_from_private_key ref_crypto) keys"
  by (simp add: ref_witnesses_def ref_crypto_def comp_def)

lemma ref_sound_accessors: "sound_accessors ref_lez ref_accessors ref_public ref_witnesses ref_crypto"
  unfolding sound_accessors_def
proof (intro conjI allI impI ref_hash_nonzero ref_signers_affected ref_witness_keys)
  show "set (signer_account_ids ref_crypto (Public pt)) \<subseteq> fst ` set (public_diff ref_lez d)"
    if "from_public_transaction ref_public pt st b t = Inr d" for pt st b t d
    using that ref_validate_signers by (simp add: ref_public_def ref_lez_def)
qed (simp_all add: ref_accessors_def)

text \<open>A hash that is the encoding of the whole block, and one that drops the transactions.\<close>

definition ref_blocks :: "hashable_block_data block_api" where
  "ref_blocks = \<lparr>into_pending_block = (\<lambda>b. b), block_hash = unary_bytes,
     hashable_from_block = (\<lambda>b. b), lee_transaction_to_vec = (\<lambda>tx. Some (unary_bytes tx))\<rparr>"

lemma ref_committing_hash: "committing_hash ref_blocks"
  by (simp add: committing_hash_def pending_hash_def ref_blocks_def unary_bytes_inj)

definition header_only_blocks :: "hashable_block_data block_api" where
  "header_only_blocks = ref_blocks\<lparr>block_hash := (\<lambda>b. unary_bytes (b\<lparr>hbd_transactions := []\<rparr>))\<rparr>"

definition ref_empty_tx :: "u8 \<Rightarrow> lee_transaction" where
  "ref_empty_tx n = Public \<lparr>
     pt_message = \<lparr>msg_program_account_id = AccountId (replicate 32 0), msg_shard_selectors = [], msg_nonces = [],
       msg_instruction_data = [n], msg_fee = None\<rparr>,
     pt_witness_set = \<lparr>ws_signatures_and_public_keys = []\<rparr>\<rparr>"

lemma ref_empty_drawable: "drawable_lee_tx C (ref_empty_tx n)"
  by (simp add: drawable_lee_tx_def ref_empty_tx_def drawable_public_tx_def drawable_message_def message_shape_def
      drawable_witness_set_def)

subsection \<open>Codecs\<close>

definition ref_tx_codec :: "(lee_transaction, unit) codec" where
  "ref_tx_codec = \<lparr>to_vec = (\<lambda>x. Inr (unary_bytes x)), from_slice = unary_parse\<rparr>"

lemma ref_faithful_codec: "faithful_codec ref_tx_codec"
  by (simp add: faithful_codec_def ref_tx_codec_def unary_parse_bytes)

subsection \<open>Concrete states and transactions\<close>

definition ref_start :: "ref_state lockstep" where
  "ref_start = lockstep_init ref_genesis ref_users"

lemma ref_start_agrees: "hm_wf (ls_model ref_start)" "agrees ref_lez (ls_state ref_start) (ls_model ref_start)"
  using lockstep_init_inv [OF ref_lawful_genesis ref_programs_apart ref_users_ok]
  by (simp_all add: lockstep_inv_def ref_start_def)

definition refusing_lez :: "(ref_state, u128, ref_error, ref_state) lez" where
  "refusing_lez = ref_lez\<lparr>execute_check_on_state := (\<lambda>tx st b t. (Inl Refused, st))\<rparr>"

lemma ref_start_predicts:
  "model_predict (ls_model ref_start) (AccountId (replicate 32 21)) (AccountId (replicate 32 22)) 0 400 = Accept 400"
proof -
  have "AccountId (replicate 32 (21 :: u8)) \<noteq> AccountId (replicate 32 22)" by (simp add: numeral_eq_Suc)
  then show ?thesis
    by (simp add: model_predict_Accept_iff ref_start_def lockstep_init_def model_new_def ref_users_def
        ref_user_def model_nonce_def model_balance_def hm_get_collect)
qed

definition ref_payment :: lee_transaction where
  "ref_payment = ref_transfer (AccountId (replicate 32 21)) 0 (AccountId (replicate 32 22)) 400
     (PrivateKey (replicate 32 21))"

definition ref_base :: ref_state where
  "ref_base = genesis_state ref_genesis (init_accounts ref_users) []"

lemma ref_users_distinct: "distinct (map fa_account_id ref_users)"
  using ref_users_ok by (simp add: fuzz_state_ok_def)

lemma ref_base_accounts:
  "ref_get ref_base (AccountId (replicate 32 21)) = \<lparr>acc_nonce = 0, acc_data = 1000\<rparr>"
  "ref_get ref_base (AccountId (replicate 32 22)) = \<lparr>acc_nonce = 0, acc_data = 500\<rparr>"
  by (simp_all add: ref_base_def genesis_state_def genesis_public_accounts_def ref_genesis_def
      init_accounts_def ref_users_def ref_user_def ref_get_put_all ref_get_def hm_get_def ref_put_all_def numeral_eq_Suc)

text \<open>A chain that validates to an empty diff and forgets every account on execution.\<close>

definition forgetting_lez :: "(ref_state, u128, ref_error, ref_state) lez" where
  "forgetting_lez = ref_lez\<lparr>validate_on_state := (\<lambda>tx st b t. Inr []),
     execute_check_on_state := (\<lambda>tx st b t. (Inr tx, []))\<rparr>"

definition forgetting_public :: "(ref_state, ref_error, ref_state) public_api" where
  "forgetting_public = ref_public\<lparr>affected_public_account_ids := (\<lambda>t. [AccountId (replicate 32 21)]),
     from_public_transaction := (\<lambda>t st b ts. Inr [])\<rparr>"

lemma forgetting_calls [simp]:
  "validate_on_state forgetting_lez tx st b t = Inr []" "execute_check_on_state forgetting_lez tx st b t = (Inr tx, [])"
  "stateless_check forgetting_lez tx = Inr tx" "public_diff forgetting_lez d = d" "apply_state_diff forgetting_lez [] st = st"
  "from_public_transaction forgetting_public p st b t = Inr []"
  "affected_public_account_ids forgetting_public p = [AccountId (replicate 32 21)]"
  by (simp_all add: forgetting_lez_def forgetting_public_def ref_lez_def ref_put_all_def)

lemma forgetting_changes:
  "AccountId (replicate 32 21) \<in> ids \<Longrightarrow>
     \<not> same_accounts forgetting_lez ids (genesis_state ref_genesis (init_accounts ref_users) []) []"
  using ref_base_accounts(1) unfolding ref_base_def
  by (auto simp: same_accounts_def forgetting_lez_def ref_lez_def ref_get_def [of "[]"] hm_get_def
      intro!: bexI [of _ "AccountId (replicate 32 21)"])

lemma ref_users_state: "drawable_state ref_crypto (reserved_account_ids ref_genesis) ref_users"
  using ref_users_drawable by (simp add: drawable_state_def ref_users_def)

lemma ref_user_id: "AccountId (replicate 32 21) \<in> fa_account_id ` set ref_users"
  by (simp add: ref_users_def ref_user_def)

definition shielded_genesis :: "(shielded_state, u128) genesis_api" where
  "shielded_genesis = \<lparr>
     account_funded = account_funded ref_genesis, account_default = account_default ref_genesis,
     sys_bridge_account_id = AccountId [2], sys_bridge_account = account_default ref_genesis,
     sys_clock_account_ids = [AccountId [3], AccountId [4]], sys_clock_account = account_default ref_genesis,
     sys_sequencer_stake_config_account_id = AccountId [5],
     sys_sequencer_stake_config_account = account_default ref_genesis,
     sys_fee_state_account_id = AccountId [6], sys_fee_state_account = account_default ref_genesis,
     sys_fee_escrow_account_id = AccountId [7], sys_fee_inbox_account_id = AccountId [8],
     sys_fee_account_ids = [AccountId [6], AccountId [7], AccountId [8]],
     prog_clock = (AccountId [9], Program []), prog_fee = (AccountId [10], Program []),
     prog_bridge = (AccountId [11], Program []), prog_sequencer_stake = (AccountId [12], Program []),
     state_new = ([], []),
     with_public_accounts = (\<lambda>(st, spent) xs. (ref_put_all xs st, spent)),
     with_private_accounts = (\<lambda>st _. st), with_named_programs = (\<lambda>st _. st)\<rparr>"

definition ref_message :: "u8 \<Rightarrow> pp_message" where
  "ref_message n = \<lparr>ppm_public_actions = [\<lparr>pai_account_id = AccountId (replicate 32 21), pai_effects = []\<rparr>],
     ppm_nonces = [0], ppm_private_actions = [\<lparr>pra_nullifier = Nullifier [n], pra_root = [], pra_commitment = Commitment [n],
       pra_encrypted_post_state = \<lparr>ead_ciphertext = Ciphertext [], ead_epk = [], ead_view_tag = 0\<rparr>\<rparr>],
     ppm_block_validity_window = ValidityWindow None None, ppm_timestamp_validity_window = ValidityWindow None None,
     ppm_program_image_claims = []\<rparr>"

definition ref_pp_tx :: pp_transaction where
  "ref_pp_tx = \<lparr>ppt_message = ref_message 1,
     ppt_witness_set = pp_witness_for_message ref_privacy (ref_message 1) (Proof []) [PrivateKey (replicate 32 21)]\<rparr>"

text \<open>The forgetting chain accepts anything and loses the supply, so the first step breaks the rules.\<close>

lemma forgetting_balance: "balance_of forgetting_lez st aid = acc_data (ref_get st aid)"
  by (simp add: balance_of_def native_balance_def forgetting_lez_def ref_lez_def)

lemma forgetting_breaks_rules: "0 < bound \<Longrightarrow> \<not> rules_on_genesis forgetting_lez ref_crypto ref_genesis time bound"
proof
  assume bound: "0 < bound" and rules: "rules_on_genesis forgetting_lez ref_crypto ref_genesis time bound"
  have "submittable ref_crypto ref_users (ref_empty_tx 0)" by (simp add: submittable_def ref_empty_drawable)
  with rules bound ref_users_state obtain st2 where
    "audit_ok forgetting_lez ref_crypto (map fa_account_id ref_users) time 0 (ref_empty_tx 0) ref_base st2"
    unfolding rules_on_genesis_def rules_hold_def ref_base_def
    using audit_start [of forgetting_lez ref_crypto ref_users time] by (metis forgetting_calls(3))
  then have "total_supply forgetting_lez [] (map fa_account_id ref_users) =
      total_supply forgetting_lez ref_base (map fa_account_id ref_users)"
    by (simp add: audit_ok_def execution_ok_def)
  then show False
    by (simp add: total_supply_def forgetting_balance ref_users_def ref_user_def ref_base_accounts)
      (simp add: ref_get_def hm_get_def)
qed

lemma ref_fixed_keys: "\<forall>b\<in>{1, 2, 9}. private_key_try_new ref_crypto (replicate 32 b) \<noteq> None"
  by (simp add: ref_crypto_def)

lemma ref_encodable: "encodable ref_privacy"
  by (simp add: encodable_def ref_privacy_def)

text \<open>A pure private transaction that nobody signs.\<close>

definition ref_private_tx :: pp_transaction where
  "ref_private_tx = (let aid = AccountId (replicate 32 21);
       account = (account_funded shielded_genesis 0)\<lparr>acc_nonce := 0\<rparr>;
       action = \<lparr>pra_nullifier = nullifier_for_account_initialization ref_privacy aid,
         pra_root = commitment_set_digest ref_privacy ([], []),
         pra_commitment = commitment_new ref_privacy aid account,
         pra_encrypted_post_state = \<lparr>ead_ciphertext = encryption_encrypt ref_privacy account (replicate 32 0)
             (replicate 32 0) (nullifier_for_account_initialization ref_privacy aid), ead_epk = [], ead_view_tag = 0\<rparr>\<rparr>;
       m = \<lparr>ppm_public_actions = [], ppm_nonces = [], ppm_private_actions = [action],
         ppm_block_validity_window = validity_window_unbounded ref_privacy,
         ppm_timestamp_validity_window = validity_window_unbounded ref_privacy, ppm_program_image_claims = []\<rparr>
     in \<lparr>ppt_message = m, ppt_witness_set = pp_witness_for_message ref_privacy m (Proof []) []\<rparr>)"

lemma ref_private_drawable:
  "drawable_pp_tx shielded_lez ref_crypto shielded_genesis ref_privacy ([], []) [] ref_private_tx"
proof -
  have acc: "drawable_account shielded_genesis ((account_funded shielded_genesis 0)\<lparr>acc_nonce := 0\<rparr>)"
    unfolding drawable_account_def by (intro exI [of _ 0]) simp
  show ?thesis
    unfolding drawable_pp_tx_def
    by (rule exI [of _ "[]"], rule exI [of _ "[]"], rule exI [of _ "Proof []"])
      (use acc in \<open>force simp: ref_private_tx_def Let_def signers_ok_def drawable_pp_message_def drawable_public_ids_def
        private_actions_unique_def drawable_private_action_def drawable_nullifier_def drawable_commitment_def
        drawable_ciphertext_def window_ok_def\<close>)
qed

end
