(* ===== verification/Ledger_Properties.thy ===== *)
theory Ledger_Properties
  imports Reference_Instances
begin

text \<open>
  The properties of the generators, the invariant checks, the checked executions and the reference
  model. Each property is followed by its witness on the reference chain, where it has hypotheses.
\<close>

text \<open>
  C3. The lockstep loop misses nothing: on any chain whatsoever, if a schedule started from
  agreeing states runs to its end, then the chain and the reference model agree on the balance
  and the nonce of every modelled account. A chain that diverges can only end the run in a
  panic.
\<close>

theorem lockstep_run_detects:
  assumes "hm_wf (ls_model s)" and "agrees L (ls_state s) (ls_model s)"
  shows "case fst (lockstep_loop L C draw_command accs n s u) of
      Drawn s' \<Rightarrow> agrees L (ls_state s') (ls_model s')
    | Failed _ \<Rightarrow> False
    | Panicked _ \<Rightarrow> True"
  by (rule verdict_case [OF contract_weaken [OF contract_lockstep_detects [OF assms]] unfailing_lockstep_loop]) auto

theorem lockstep_run_detects_witness:
  "case fst (lockstep_loop ref_lez ref_crypto ref_command ref_users 20 ref_start (replicate 60 7)) of
      Drawn s' \<Rightarrow> agrees ref_lez (ls_state s') (ls_model s')
    | Failed _ \<Rightarrow> False
    | Panicked _ \<Rightarrow> True"
  by (rule lockstep_run_detects [OF ref_start_agrees])

text \<open>
  C5. The reference model is itself a sound ledger for payments between different accounts, the
  documented precondition of predict. Along any run of such payments, each predicted and, when
  accepted, applied without a panic, the sum of the balances is the initial sum; and in any
  state so reached, an accepted payment between two known accounts, the payer's nonce below its
  maximum, is applied without a panic, moves exactly the amount, and every later prediction for
  the payer with the spent nonce, whatever recipient and amount, is a rejection.
\<close>

theorem model_ledger_sound:
  assumes run: "ledger_run model_step (model_new accs) schedule m"
  shows "model_total m = model_total (model_new accs) \<and>
    (src \<noteq> dst \<longrightarrow> src \<in> fst ` set m \<longrightarrow> dst \<in> fst ` set m \<longrightarrow> unat (model_nonce m src) + 1 < 2 ^ 128 \<longrightarrow>
     model_predict m src dst n a = Accept a' \<longrightarrow>
     (\<exists>m1. model_apply_transfer m src dst a' = Inr m1 \<and> ledger_run model_step (model_new accs) (schedule @ [(src, dst, n, a)]) m1 \<and>
       unat (model_balance m1 src) + unat a = unat (model_balance m src) \<and>
       unat (model_balance m1 dst) = unat (model_balance m dst) + unat a \<and>
       (\<forall>later m2. ledger_run model_step m1 later m2 \<longrightarrow> model_total m2 = model_total (model_new accs) \<and>
         (\<forall>dst2 a2. model_predict m2 src dst2 n a2 = Reject))))"
proof (intro conjI impI)
  have wf0: "hm_wf (model_new accs)" by (simp add: model_new_def)
  note kept = reference_model.run_keeps [OF run wf0]
  then have wf: "hm_wf m" by simp
  from kept show "model_total m = model_total (model_new accs)" by simp
  assume neq: "src \<noteq> dst" and known: "src \<in> fst ` set m" "dst \<in> fst ` set m"
    and room: "unat (model_nonce m src) + 1 < 2 ^ 128" and accept: "model_predict m src dst n a = Accept a'"
  obtain m1 where m1: "model_apply_transfer m src dst a' = Inr m1"
    using model_apply_transfer_enabled [OF accept known room] by blast
  have step: "model_step m (src, dst, n, a) m1" by (rule pay_accepted [OF neq accept m1])
  have run1: "ledger_run model_step (model_new accs) (schedule @ [(src, dst, n, a)]) m1"
    by (rule ledger_run_snoc [OF run step])
  have later: "model_total m2 = model_total (model_new accs) \<and> model_predict m2 src dst2 n a2 = Reject"
    if "ledger_run model_step m1 later m2" for later m2 dst2 a2
    using reference_model.replay_rejected [OF wf _ step that, of "(src, dst2, n, a2)"] accept
      reference_model.run_keeps [OF that] reference_model.run_keeps [OF run1 wf0] by simp
  show "\<exists>m1. model_apply_transfer m src dst a' = Inr m1 \<and> ledger_run model_step (model_new accs) (schedule @ [(src, dst, n, a)]) m1 \<and>
       unat (model_balance m1 src) + unat a = unat (model_balance m src) \<and>
       unat (model_balance m1 dst) = unat (model_balance m dst) + unat a \<and>
       (\<forall>later m2. ledger_run model_step m1 later m2 \<longrightarrow> model_total m2 = model_total (model_new accs) \<and>
         (\<forall>dst2 a2. model_predict m2 src dst2 n a2 = Reject))"
    using m1 run1 later accepted_amounts [OF accept m1 wf neq] by blast
qed

theorem model_ledger_sound_witness:
  "\<exists>m1. model_apply_transfer (model_new [(AccountId [1], 1000), (AccountId [2], 500)]) (AccountId [1]) (AccountId [2]) 400 = Inr m1 \<and>
     unat (model_balance m1 (AccountId [2])) = 900 \<and> model_predict m1 (AccountId [1]) (AccountId [2]) 0 400 = Reject"
proof -
  let ?m = "model_new [(AccountId [1], 1000), (AccountId [2], 500)]"
  have m: "?m = [(AccountId [1], (1000, 0)), (AccountId [2], (500, 0))]"
    by (simp add: model_new_def hm_collect_distinct)
  have "model_predict ?m (AccountId [1]) (AccountId [2]) 0 400 = Accept 400"
    by (simp add: m model_predict_Accept_iff model_nonce_def model_balance_def hm_get_def)
  moreover have "unat (model_nonce ?m (AccountId [1])) = 0" "unat (model_balance ?m (AccountId [2])) = 500"
    by (simp_all add: m model_nonce_def model_balance_def hm_get_def)
  ultimately show ?thesis
    using model_ledger_sound [OF run_empty, of "[(AccountId [1], 1000), (AccountId [2], 500)]" "AccountId [1]" "AccountId [2]" 0 400 400]
      run_empty [of model_step] by (force simp: m)
qed

text \<open>
  C6. The balance cap of the state generator makes the recipient-overflow branch of the model's
  prediction unreachable: from at most eight capped accounts and after any run of payments
  between different accounts, a transfer between two different accounts is accepted iff the
  nonce is right and the amount is covered.
\<close>

theorem overflow_check_redundant:
  assumes "fuzz_state_ok C reserved accs" and "length accs \<le> 8" and "src \<noteq> dst"
    and "ledger_run model_step (model_new (init_accounts accs)) schedule m"
  shows "model_predict m src dst n a =
    (if n = model_nonce m src \<and> a \<le> model_balance m src then Accept a else Reject)"
proof (cases "n = model_nonce m src \<and> a \<le> model_balance m src")
  case True
  with recipient_never_overflows [OF assms(1-3) assms(4) [unfolded init_accounts_def]]
  have "model_predict m src dst n a = Accept a" by (simp add: model_predict_Accept_iff)
  with True show ?thesis by simp
next
  case False
  then have "model_predict m src dst n a = Reject" unfolding model_predict_Reject_iff by blast
  with False show ?thesis by auto
qed

theorem overflow_check_redundant_witness:
  "model_predict (model_new (init_accounts ref_users)) (AccountId (replicate 32 21)) (AccountId (replicate 32 22)) 0 400
     = Accept 400"
proof -
  have neq: "AccountId (replicate 32 (21 :: u8)) \<noteq> AccountId (replicate 32 22)" by (simp add: numeral_eq_Suc)
  have len: "length ref_users \<le> 8" by (simp add: ref_users_def)
  note overflow_check_redundant [OF ref_users_ok len neq run_empty, of 0 400]
  then show ?thesis
    using neq by (simp add: model_new_def init_accounts_def ref_users_def ref_user_def model_nonce_def
        model_balance_def hm_get_def hm_collect_distinct)
qed

text \<open>
  C7. The invariant dispatcher passes exactly when the protocol rules hold: after a rejection
  every snapshotted balance and nonce is unchanged; after an acceptance the exact sum of the
  balances fits 128 bits and is unchanged, every snapshotted signer's nonce is one higher, and a
  second execution in the next block is rejected. The state it leaves is the one after that
  replay.
\<close>

theorem tx_invariants_verdict:
  "assert_tx_execution_invariants L C state_before state_after balances nonces result (b, t) = Inr st' \<longleftrightarrow>
     (case result of
        Inl _ \<Rightarrow> balances_stable L state_after balances \<and> nonces_stable L state_after nonces \<and> st' = state_after
      | Inr tx \<Rightarrow> total_conserved L state_after balances \<and>
          signers_incremented L (signer_account_ids C tx) nonces state_after \<and>
          \<not> is_ok (fst (execute_check_on_state L tx state_after b t)) \<and>
          st' = snd (execute_check_on_state L tx state_after b t))"
  by (simp add: tx_execution_invariants_iff split: sum.split)

text \<open>
  C9. No false alarm on transfers: between two different generated accounts, with a total that
  fits 128 bits and a nonce away from its maximum, every transfer, valid or not, passes all five
  invariants on a chain with the transfer rules.
\<close>

theorem honest_transfer_accepted:
  assumes "native_transfer_rules L C reserved" and "transfers_signed C"
    and "fuzz_state_ok C reserved accs" and "x \<in> set accs" and "y \<in> set accs"
    and "fa_account_id x \<noteq> fa_account_id y"
    and "readable L st (map fa_account_id accs)"
    and "total_supply L st (map fa_account_id accs) < 2 ^ 128"
    and "unat (account_nonce L st (fa_account_id x)) + 2 < 2 ^ 128"
  shows "is_ok (checked_execution L C (init_accounts accs) b t next_context
    (create_transfer C (fa_account_id x) n (fa_account_id y) a (fa_private_key x)) st)"
  using honest_transfer_passes [OF assms] by (auto simp: is_ok_iff)

theorem honest_transfer_accepted_witness:
  "is_ok (checked_execution ref_lez ref_crypto (init_accounts ref_users) 1 0 (2, 1) ref_payment ref_base)"
proof -
  let ?x = "ref_user 21 1000" and ?y = "ref_user 22 500"
  have mem: "?x \<in> set ref_users" "?y \<in> set ref_users" by (simp_all add: ref_users_def)
  have neq: "fa_account_id ?x \<noteq> fa_account_id ?y" by (simp add: ref_user_def numeral_eq_Suc)
  have fits: "total_supply ref_lez ref_base (map fa_account_id ref_users) < 2 ^ 128"
    by (simp add: total_supply_def balance_of_def ref_users_def ref_user_def ref_base_accounts)
  have nonce: "unat (account_nonce ref_lez ref_base (fa_account_id ?x)) + 2 < 2 ^ 128"
    by (simp add: ref_user_def ref_base_accounts)
  note honest_transfer_accepted [OF ref_transfer_rules ref_transfers_signed ref_users_ok mem neq
      ref_readable fits nonce, of 1 0 "(2, 1)" 0 400]
  then show ?thesis by (simp add: ref_payment_def ref_user_def)
qed

text \<open>
  C12. The genesis state built from a generated account list holds exactly the generated
  balances: the checked sum over those accounts succeeds and is the sum that was drawn, since no
  system account or program overwrites a user account.
\<close>

theorem genesis_holds_generated_total:
  assumes "lawful_genesis L G" and "programs_apart C G"
  shows "case fst (arbitrary_fuzz_state A C G u) of
      Drawn accs \<Rightarrow>
        (case sum_balances L (genesis_state G (init_accounts accs) []) (map fst (init_accounts accs)) of
           Inl _ \<Rightarrow> False
         | Inr t \<Rightarrow> unat t = sum_list (map (unat \<circ> fa_balance) accs))
    | Failed _ \<Rightarrow> True
    | Panicked p \<Rightarrow> bad_seed C p"
  by (rule contract_case [OF contract_weaken [OF contract_fuzz_state]])
    (auto dest: initial_total [OF assms])

theorem genesis_holds_generated_total_witness:
  "case fst (arbitrary_fuzz_state ref_input ref_crypto ref_genesis (replicate 200 9)) of
      Drawn accs \<Rightarrow>
        (case sum_balances ref_lez (genesis_state ref_genesis (init_accounts accs) []) (map fst (init_accounts accs)) of
           Inl _ \<Rightarrow> False
         | Inr t \<Rightarrow> unat t = sum_list (map (unat \<circ> fa_balance) accs))
    | Failed _ \<Rightarrow> True
    | Panicked p \<Rightarrow> bad_seed ref_crypto p"
  by (rule genesis_holds_generated_total [OF ref_lawful_genesis ref_programs_apart])

text \<open>
  C13. The biased draws keep their promises at full 128-bit width: nonce at most 3, amounts
  within the balance also when the balance is the maximum, a shifted nonce never equal to the
  current one, and an excessive amount above the balance unless the balance is the maximum.
\<close>

theorem generated_amounts_bounded:
  "unat (fst (biased_valid_nonce_amount byte raw balance)) \<le> 3 \<and>
   snd (biased_valid_nonce_amount byte raw balance) \<le> balance \<and>
   resolve_amount (WithinBalance raw) balance \<le> balance \<and>
   resolve_nonce (Off d) current \<noteq> current \<and>
   (balance = - 1 \<or> balance < resolve_amount (Excessive raw) balance)"
  using biased_bounds [of byte raw balance] resolve_amount_within [of raw balance]
    resolve_nonce_off [of d current] resolve_amount_excessive(1) [of balance raw]
  by blast

text \<open>
  C11. Exactly which initial states the generator yields: the non-empty account lists it can
  draw are those of at most eight accounts whose ids are distinct, unreserved and derived from a
  key the key generator can draw, with balances up to an eighth of the 128-bit range. Their
  exact sum always fits 128 bits.
\<close>

theorem fuzz_states_exact:
  assumes "replayable A"
  shows "{accs. \<exists>u u'. arbitrary_fuzz_state A C G u = (Drawn accs, u')} =
      {accs. length accs \<le> 8 \<and> fuzz_state_ok C (reserved_account_ids G) accs \<and>
         (\<forall>a\<in>set accs. drawable_private_key C (fa_private_key a)) \<and>
         (accs = [] \<longrightarrow> (\<exists>k. drawable_private_key C k \<and> account_id_for_key C k \<in> set (reserved_account_ids G)))} \<and>
    (\<forall>accs. fuzz_state_ok C (reserved_account_ids G) accs \<longrightarrow> length accs \<le> 8 \<longrightarrow>
       sum_list (map (unat \<circ> fa_balance) accs) \<le> 2 ^ 128 - 8)"
  unfolding exact_gen.drawn_values [OF replayable.exact_fuzz_state [OF assms]] using capped_total
  by (auto simp: drawable_state_def drawable_fuzz_state_def)

theorem fuzz_states_exact_witness:
  "\<exists>u u'. arbitrary_fuzz_state ref_input ref_crypto ref_genesis u = (Drawn ref_users, u')"
proof -
  have "ref_users \<in> {accs. \<exists>u u'. arbitrary_fuzz_state ref_input ref_crypto ref_genesis u = (Drawn accs, u')}"
    using ref_users_drawable unfolding conjunct1 [OF fuzz_states_exact [OF ref_replay.replayable_axioms]]
    by (simp add: drawable_fuzz_state_def ref_users_def)
  then show ?thesis by simp
qed

text \<open>
  C14. Exactly which correlated transfers the generator yields from up to 256 accounts: any two
  accounts of the list in either role, any nonce and any amount, signed with the sender's own
  key; nothing else.
\<close>

theorem transfers_exact:
  assumes "replayable A" and "length accs \<le> 256"
  shows "{tx. \<exists>u u'. arb_fuzz_native_transfer A C accs u = (Drawn tx, u')} =
    {tx. \<exists>from\<in>set accs. \<exists>to\<in>set accs. \<exists>nonce amount. tx =
       create_transfer C (fa_account_id from) nonce (fa_account_id to) amount (fa_private_key from)}"
  unfolding exact_gen.drawn_values [OF replayable.exact_fuzz_native_transfer [OF assms]]
  by (rule Collect_cong) (rule correlated_transfer_def)

theorem transfers_exact_witness:
  "\<exists>u u'. arb_fuzz_native_transfer ref_input ref_crypto ref_users u = (Drawn ref_payment, u')"
proof -
  let ?x = "ref_user 21 1000" and ?y = "ref_user 22 500"
  have "ref_payment = create_transfer ref_crypto (fa_account_id ?x) 0 (fa_account_id ?y) 400 (fa_private_key ?x)"
    by (simp add: ref_payment_def ref_user_def)
  moreover have "?x \<in> set ref_users" "?y \<in> set ref_users" by (simp_all add: ref_users_def)
  ultimately have "ref_payment \<in> {tx. \<exists>u u'. arb_fuzz_native_transfer ref_input ref_crypto ref_users u = (Drawn tx, u')}"
    by (subst transfers_exact [OF ref_replay.replayable_axioms]) (auto simp: ref_users_def)
  then show ?thesis by simp
qed

text \<open>
  C17. The lockstep target keeps the precondition of its reference model: among two to 256
  accounts with different ids, resolving a recipient for a sender panics on no byte, and the
  accounts that some byte resolves to are exactly all the others. No payment goes to its own
  sender, and no recipient is out of reach.
\<close>

theorem recipients_exact:
  assumes "i < length accs" and "2 \<le> length accs" and "length accs \<le> 256" and "distinct (map fa_account_id accs)"
  shows "(\<forall>raw. is_ok (resolve_recipient raw i (length accs))) \<and>
    (\<lambda>j. fa_account_id (accs ! j)) ` {j. \<exists>raw. resolve_recipient raw i (length accs) = Inr j} =
      fa_account_id ` set accs - {fa_account_id (accs ! i)}"
proof
  show "\<forall>raw. is_ok (resolve_recipient raw i (length accs))"
    using resolve_recipient_spec [OF assms(1,2)] unfolding is_ok_iff by blast
  let ?id = "\<lambda>j. fa_account_id (accs ! j)"
  have "{j. \<exists>raw. resolve_recipient raw i (length accs) = Inr j} = {..<length accs} - {i}"
    using resolve_recipient_spec [OF assms(1,2)] resolve_recipient_onto [OF assms(1) _ _ assms(3)] by fastforce
  moreover have "?id ` ({..<length accs} - {i}) = ?id ` {..<length accs} - {?id i}"
    using assms(1,4) by (auto simp: distinct_conv_nth)
  moreover have "fa_account_id ` set accs = ?id ` {..<length accs}"
    unfolding set_conv_nth by blast
  ultimately show "?id ` {j. \<exists>raw. resolve_recipient raw i (length accs) = Inr j} = fa_account_id ` set accs - {?id i}"
    by simp
qed

theorem recipients_exact_witness:
  "(\<lambda>j. fa_account_id (ref_users ! j)) ` {j. \<exists>raw. resolve_recipient raw 0 (length ref_users) = Inr j} =
     fa_account_id ` set ref_users - {fa_account_id (ref_users ! 0)}"
proof -
  have "0 < length ref_users" "2 \<le> length ref_users" "length ref_users \<le> 256" by (simp_all add: ref_users_def)
  moreover have "distinct (map fa_account_id ref_users)" using ref_users_ok by (simp add: fuzz_state_ok_def)
  ultimately show ?thesis using recipients_exact [of 0 ref_users] by simp
qed

text \<open>
  C15. Exactly which public transactions and blocks the Arbitrary impls yield: the values within
  the stated bounds on counts and byte lengths whose keys, ids and signatures come from drawable
  keys, every one of them reached by some input.
\<close>

theorem wrapper_values_exact:
  assumes "replayable A"
  shows "{tx. \<exists>u u'. arb_public_transaction A C u = (Drawn tx, u')} = {tx. drawable_public_tx C tx} \<and>
    {b. \<exists>u u'. arb_hashable_block_data A C u = (Drawn b, u')} = {b. drawable_block C b}"
  by (simp add: exact_gen.drawn_values [OF replayable.exact_public_transaction [OF assms]]
      exact_gen.drawn_values [OF replayable.exact_hashable_block_data [OF assms]])

theorem wrapper_values_exact_witness:
  "\<exists>u u'. arb_hashable_block_data ref_input ref_crypto u =
     (Drawn \<lparr>hbd_block_id = 7, hbd_prev_block_hash = replicate 32 1, hbd_timestamp = - 1, hbd_transactions = []\<rparr>, u')"
proof -
  let ?b = "\<lparr>hbd_block_id = 7, hbd_prev_block_hash = replicate 32 1, hbd_timestamp = - 1, hbd_transactions = []\<rparr>"
  have "?b \<in> {b. \<exists>u u'. arb_hashable_block_data ref_input ref_crypto u = (Drawn b, u')}"
    unfolding conjunct2 [OF wrapper_values_exact [OF ref_replay.replayable_axioms]] by (simp add: drawable_block_def)
  then show ?thesis by simp
qed

end
