(* ===== verification/Chain_Properties.thy ===== *)
theory Chain_Properties
  imports Reference_Instances
begin

text \<open>
  The properties of the targets on state diffs, replay, blocks, the Merkle tree and the codecs.
\<close>

text \<open>
  C18. The consistency target decides its rule: with a usable fallback key and replayable input
  it returns on every input exactly if, on the genesis state of every drawable account list and
  for every drawable transaction the gate admits, validation and execution both reject, or both
  accept and the diff holds the new accounts, every other known account is unchanged, the supply
  over genesis and diff accounts is kept within 128 bits, and every known signer's nonce is one
  higher.
\<close>

theorem consistency_target_exact:
  assumes "replayable A" and "private_key_try_new C seed_bytes \<noteq> None"
  shows "always_returns (fuzz_validate_execute_consistency L C G A) \<longleftrightarrow>
    on_genesis L C G (validates_as_executed L C)"
  by (rule replayable.consistency_target_iff [OF assms])

theorem consistency_target_exact_witness:
  "\<not> always_returns (fuzz_validate_execute_consistency forgetting_lez ref_crypto ref_genesis ref_input)"
proof -
  have seed: "private_key_try_new ref_crypto seed_bytes \<noteq> None" by (simp add: ref_seed)
  have "\<not> validates_as_executed forgetting_lez ref_crypto (fa_account_id ` set ref_users) (ref_empty_tx 1)
      (genesis_state ref_genesis (init_accounts ref_users) [])"
    using forgetting_changes [OF ref_user_id] by (simp add: validates_as_executed_def)
  then show ?thesis
    unfolding consistency_target_exact [OF ref_replay.replayable_axioms seed] on_genesis_def
    using ref_users_state ref_empty_drawable forgetting_calls(3) by blast
qed

text \<open>
  C19. The split-path target decides its rule: it returns on every input exactly if, on every
  drawable genesis state and for every admitted drawable transaction that validates, applying
  the diff raises every signer's nonce by one and, where direct execution accepts as well, both
  paths leave the same account under every genesis and diff id.
\<close>

theorem split_path_target_exact:
  assumes "replayable A" and "private_key_try_new C seed_bytes \<noteq> None"
  shows "always_returns (fuzz_apply_state_diff_split_path L C G A) \<longleftrightarrow>
    on_genesis L C G (splits_as_executed L C)"
  by (rule replayable.split_path_target_iff [OF assms])

theorem split_path_target_exact_witness:
  "\<not> always_returns (fuzz_apply_state_diff_split_path forgetting_lez ref_crypto ref_genesis ref_input)"
proof -
  have seed: "private_key_try_new ref_crypto seed_bytes \<noteq> None" by (simp add: ref_seed)
  have "\<not> splits_as_executed forgetting_lez ref_crypto (fa_account_id ` set ref_users) (ref_empty_tx 1)
      (genesis_state ref_genesis (init_accounts ref_users) [])"
    using forgetting_changes [OF ref_user_id] by (simp add: splits_as_executed_def)
  then show ?thesis
    unfolding split_path_target_exact [OF ref_replay.replayable_axioms seed] on_genesis_def
    using ref_users_state ref_empty_drawable forgetting_calls(3) by blast
qed

text \<open>
  C20. The diff target decides containment: it returns on every input exactly if, on every
  drawable genesis state and for every drawable public transaction that validates, the diff only
  names declared accounts and, where the transaction also passes the stateless gate and the
  chain accepts its direct execution, that execution leaves every declared account outside the
  diff as it was. What a rejecting execution does is not compared.
\<close>

theorem diff_containment_target_exact:
  assumes "replayable A" and "private_key_try_new C seed_bytes \<noteq> None"
  shows "always_returns (fuzz_state_diff_computation L P C G A) \<longleftrightarrow>
    (\<forall>accs tx. drawable_state C (reserved_account_ids G) accs \<longrightarrow> drawable_public_tx C tx \<longrightarrow>
       diff_contained L P tx (genesis_state G (init_accounts accs) []))"
  by (rule replayable.diff_containment_target_iff [OF assms])

theorem diff_containment_target_exact_witness:
  "\<not> always_returns (fuzz_state_diff_computation forgetting_lez forgetting_public ref_crypto ref_genesis ref_input)"
proof -
  have seed: "private_key_try_new ref_crypto seed_bytes \<noteq> None" by (simp add: ref_seed)
  obtain p where "drawable_public_tx ref_crypto p"
    using ref_empty_drawable [of ref_crypto 1] by (auto simp: drawable_lee_tx_def)
  moreover have "\<not> diff_contained forgetting_lez forgetting_public p (genesis_state ref_genesis (init_accounts ref_users) [])"
    using forgetting_changes [of "{AccountId (replicate 32 21)}"] by (simp add: diff_contained_def)
  ultimately show ?thesis
    unfolding diff_containment_target_exact [OF ref_replay.replayable_axioms seed] using ref_users_state by blast
qed

text \<open>
  C30. The Merkle target passes iff the input has no whole chunk, or every inserted commitment
  has a membership proof that recomputes to the root, the proof indices are a permutation of
  1..N, and the sentinel, when not inserted, has no proof.
\<close>

theorem merkle_target_verdict:
  "fuzz_merkle_tree M G data = Inr () \<longleftrightarrow>
    (case insert_chunks M G (chunks_exact 32 data) [] [] of
       (seen, pairs) \<Rightarrow> seen = [] \<or> merkle_ok M G seen (genesis_state G [] pairs))"
proof -
  obtain seen pairs where ins: "insert_chunks M G (chunks_exact 32 data) [] [] = (seen, pairs)"
    by (metis surj_pair)
  then have "pairs = map (chunk_pair M G) seen" by (auto simp: insert_chunks_first)
  then have "seen = [] \<Longrightarrow> fuzz_merkle_tree M G data = Inr ()" using ins by (simp add: fuzz_merkle_tree_def)
  with merkle_verdict [OF ins] show ?thesis unfolding ins by auto
qed

text \<open>
  C31. The loop that collects the leaves of the Merkle target refines its specification: the ids
  are the first occurrences of the chunks, in the order of these occurrences (so each chunk once
  and no other), each paired with its own commitment and nullifier. The chunks are the
  consecutive slices of the input, as many as fit, each of exactly 32 bytes, and cover it up to
  the incomplete tail.
\<close>

theorem merkle_leaves_are_distinct_chunks:
  "(case insert_chunks M G (chunks_exact 32 data) [] [] of
     (seen, pairs) \<Rightarrow> seen = first_occurrences (chunks_exact 32 data) \<and> distinct seen \<and>
       set seen = set (chunks_exact 32 data) \<and>
       pairs = map (\<lambda>chunk. (mk_commitment_new M (AccountId chunk) (account_default G),
         mk_nullifier_from_byte_array M chunk)) seen) \<and>
   chunks_exact 32 data = map (\<lambda>i. take 32 (drop (32 * i) data)) [0..<length data div 32] \<and>
   map length (chunks_exact 32 data) = replicate (length data div 32) 32 \<and>
   concat (chunks_exact 32 data) = take (32 * (length data div 32)) data"
  using first_occurrences_distinct [of "chunks_exact 32 data"]
  by (simp add: insert_chunks_first chunk_pair_def chunks_exact_lengths chunks_exact_concat)
    (simp add: chunks_exact_slices)

text \<open>
  C32. The codec targets decide normal forms: the decoding target and the state target pass on
  every input exactly if decoding and encoding any accepted input yields bytes that one more
  round leaves alone, and the nullifier target passes exactly if the encoding of its fixed state
  is non-empty and is such a normal form.
\<close>

theorem codec_targets_exact:
  "(\<forall>data. fuzz_transaction_decoding K block_from_slice hashable_from_slice data = Inr ()) = has_normal_forms K \<and>
   (\<forall>data. fuzz_state_serialization S data = Inr ()) = has_normal_forms S \<and>
   (fuzz_nullifier_set_roundtrip S G new_commitment from_byte_array raw = Inr ()) =
     (\<exists>enc. to_vec S (nullifier_set_state G new_commitment from_byte_array) = Inr enc \<and> enc \<noteq> [] \<and>
        normalise S enc = Some enc)"
  unfolding transaction_decoding_iff state_serialization_iff nullifier_set_roundtrip_iff has_normal_forms_iff
    stable_encoding_normal by auto

text \<open>
  C33. The stateless target decides idempotence: whatever its raw bytes, it returns on every
  draw exactly if every transaction that passed the gate, from a drawable one, passes it again.
\<close>

theorem stateless_target_exact:
  assumes "replayable A" and "private_key_try_new C seed_bytes \<noteq> None"
  shows "always_returns (fuzz_stateless_verification L K A C data) \<longleftrightarrow>
    (\<forall>raw tx. drawable_lee_tx C raw \<longrightarrow> stateless_check L raw = Inr tx \<longrightarrow> is_ok (stateless_check L tx))"
  by (rule replayable.stateless_target_iff [OF assms])

theorem stateless_target_exact_witness:
  "always_returns (fuzz_stateless_verification ref_lez ref_tx_codec ref_input ref_crypto [1, 2])"
proof (subst stateless_target_exact [OF ref_replay.replayable_axioms])
  show "private_key_try_new ref_crypto seed_bytes \<noteq> None" by (simp add: ref_seed)
qed (simp add: ref_lez_def)

text \<open>
  C28. The block target decides its rule: with a usable fallback key and replayable input it
  returns on every input exactly if, for every drawable block, the hash survives the pending
  round trip and changes with the block id, the previous hash, the timestamp (wrap-around
  included), and for two or more transactions both ends encode and, where they encode
  differently, reversing the list changes the hash.
\<close>

theorem block_target_exact:
  assumes "replayable A" and "private_key_try_new C seed_bytes \<noteq> None"
  shows "always_returns (fuzz_block_verification B A C) \<longleftrightarrow> (\<forall>b. drawable_block C b \<longrightarrow> hash_binds B b)"
  by (rule replayable.block_target_iff [OF assms])

theorem block_target_exact_witness: "always_returns (fuzz_block_verification ref_blocks ref_input ref_crypto)"
proof (subst block_target_exact [OF ref_replay.replayable_axioms])
  show "private_key_try_new ref_crypto seed_bytes \<noteq> None" by (simp add: ref_seed)
  show "\<forall>b. drawable_block ref_crypto b \<longrightarrow> hash_binds ref_blocks b"
    using committing_hash_binds [OF ref_committing_hash] drawable_block_prev by blast
qed

text \<open>
  C29. A block hash that depends on the transactions only as a multiset is caught: as soon as
  two drawable transactions encode differently, some input ends the block target without
  returning.
\<close>

theorem order_blind_hash_is_caught:
  assumes "replayable A" and "private_key_try_new C seed_bytes \<noteq> None" and "order_blind B"
    and "drawable_lee_tx C x" and "drawable_lee_tx C y" and "lee_transaction_to_vec B x \<noteq> lee_transaction_to_vec B y"
  shows "\<exists>u. \<forall>a. fst (fuzz_block_verification B A C u) \<noteq> Drawn a"
  using replayable.order_blind_caught [OF assms] by (simp add: always_returns_def)

theorem order_blind_hash_is_caught_witness:
  "\<exists>u. \<forall>a. fst (fuzz_block_verification header_only_blocks ref_input ref_crypto u) \<noteq> Drawn a"
proof (rule order_blind_hash_is_caught [OF ref_replay.replayable_axioms])
  show "order_blind header_only_blocks"
    by (simp add: order_blind_def pending_hash_def header_only_blocks_def ref_blocks_def)
  show "drawable_lee_tx ref_crypto (ref_empty_tx 1)" "drawable_lee_tx ref_crypto (ref_empty_tx 2)"
    by (rule ref_empty_drawable)+
  show "lee_transaction_to_vec header_only_blocks (ref_empty_tx 1) \<noteq> lee_transaction_to_vec header_only_blocks (ref_empty_tx 2)"
    by (simp add: header_only_blocks_def ref_blocks_def unary_bytes_inj ref_empty_tx_def)
qed (simp add: ref_seed)

text \<open>
  C34. The encoding target decides canonicity: with replayable input it returns on every byte
  string exactly if every drawable public transaction decodes from its own encoding and whatever
  decodes re-encodes to the very bytes it came from.
\<close>

theorem encoding_target_exact:
  assumes "replayable A" and "private_key_try_new C seed_bytes \<noteq> None" and "surj unstructured_new"
  shows "(\<forall>data. \<exists>a. fst (fuzz_encoding_roundtrip A C to_bytes from_bytes data (unstructured_new data)) = Drawn a) \<longleftrightarrow>
    (\<forall>tx. drawable_public_tx C tx \<longrightarrow> is_ok (from_bytes (to_bytes tx))) \<and>
    (\<forall>data tx. from_bytes data = Inr tx \<longrightarrow> to_bytes tx = data)"
  by (rule replayable.encoding_target_iff [OF assms])

theorem encoding_target_exact_witness:
  "\<forall>data. \<exists>a. fst (fuzz_encoding_roundtrip ref_input ref_crypto unary_bytes
     (unary_parse :: bytes \<Rightarrow> unit + public_transaction) data (id data)) = Drawn a"
proof (subst encoding_target_exact [OF ref_replay.replayable_axioms _ surj_id])
  show "private_key_try_new ref_crypto seed_bytes \<noteq> None" by (simp add: ref_seed)
qed (simp add: unary_parse_bytes unary_parse_canonical)

end
