(* ===== verification/Privacy_Properties.thy ===== *)
theory Privacy_Properties
  imports Reference_Instances
begin

text \<open>
  The properties of the privacy-preserving generators and checks and of the accessor checks.
\<close>

text \<open>
  C21. Exactly which privacy-preserving transactions and conflicting pairs the generators yield
  in a given state, for encoders that do not fail: distinct signers of the list with their live
  nonces, public accounts without repetition that are the signers or none of them and up to
  three more, up to two effects each, one to three private actions with distinct nullifiers and
  commitments, windows unbounded or validated, any proof; and every such value is reached. All
  of them pass the validator's structural checks.
\<close>

theorem privacy_txs_exact:
  assumes "replayable A" and "length accounts \<le> 256" and "encodable V"
  shows "{tx. \<exists>u u'. arb_privacy_preserving_tx L C G V A st accounts u = (Drawn tx, u')} =
      {tx. drawable_pp_tx L C G V st accounts tx} \<and>
    {pair. \<exists>u u'. arb_conflicting_nullifier_pair L C G V A st accounts u = (Drawn pair, u')} =
      {pair. drawable_nullifier_pair L C G V st accounts pair} \<and>
    (\<forall>tx. drawable_pp_tx L C G V st accounts tx \<longrightarrow> pp_tx_ok L C V st accounts tx)"
  by (simp add: exact_gen.drawn_values [OF replayable.exact_encodable_tx [OF assms(1,3,2)]]
      exact_gen.drawn_values [OF replayable.exact_encodable_pair [OF assms(1,3,2)]] drawable_pp_tx_ok)

theorem privacy_txs_exact_witness:
  "\<exists>u u'. arb_privacy_preserving_tx shielded_lez ref_crypto shielded_genesis ref_privacy ref_input ([], []) [] u =
     (Drawn ref_private_tx, u')"
proof -
  have "ref_private_tx \<in> {tx. \<exists>u u'. arb_privacy_preserving_tx shielded_lez ref_crypto shielded_genesis ref_privacy
      ref_input ([], []) [] u = (Drawn tx, u')}"
    using ref_private_drawable
    by (subst conjunct1 [OF privacy_txs_exact [OF ref_replay.replayable_axioms _ ref_encodable]]) simp_all
  then show ?thesis by simp
qed

text \<open>
  C22. With injective journal and receipt encodings a synthesized proof binds its message: two
  messages with the same proof have the same private actions, public actions and validity
  windows, and the same public accounts signed.
\<close>

theorem proof_binds_journal:
  assumes "binding_receipts V"
    and "synthesize_passing_proof V m1 st1 ids1 = Inr p" and "synthesize_passing_proof V m2 st2 ids2 = Inr p"
  shows "ppm_private_actions m1 = ppm_private_actions m2 \<and>
    ppm_public_actions m1 = ppm_public_actions m2 \<and>
    ppm_block_validity_window m1 = ppm_block_validity_window m2 \<and>
    ppm_timestamp_validity_window m1 = ppm_timestamp_validity_window m2 \<and>
    set ids1 \<inter> set (map pai_account_id (ppm_public_actions m1)) =
      set ids2 \<inter> set (map pai_account_id (ppm_public_actions m1))"
proof -
  note eq = proof_binds [OF assms, unfolded reconstruct_output_def, simplified]
  have acts: "map (reconstruct_public_action ids1) (ppm_public_actions m1) =
      map (reconstruct_public_action ids2) (ppm_public_actions m2)" using eq by blast
  have same: "xs = ys \<and> set ids1 \<inter> set (map pai_account_id xs) = set ids2 \<inter> set (map pai_account_id xs)"
    if "map (reconstruct_public_action ids1) xs = map (reconstruct_public_action ids2) ys" for xs ys
    using that
    by (induction xs ys rule: list_induct2')
      (auto simp: reconstruct_public_action_def intro!: public_action_with_id.equality)
  from eq same [OF acts] show ?thesis by blast
qed

theorem proof_binds_journal_witness:
  "(let m = ref_message 1 in set [AccountId (replicate 32 21)] \<inter> set (map pai_account_id (ppm_public_actions m)) =
     set [AccountId (replicate 32 21), AccountId [5]] \<inter> set (map pai_account_id (ppm_public_actions m)))"
proof -
  let ?p = "Proof (unary_bytes (reconstruct_output ref_privacy (ref_message 1) ([], []) [AccountId (replicate 32 21)]))"
  have a: "synthesize_passing_proof ref_privacy (ref_message 1) ([], []) [AccountId (replicate 32 21)] = Inr ?p"
    by (simp add: synthesize_passing_proof_def ref_privacy_def)
  moreover have "synthesize_passing_proof ref_privacy (ref_message 1) ([], []) [AccountId (replicate 32 21), AccountId [5]]
      = synthesize_passing_proof ref_privacy (ref_message 1) ([], []) [AccountId (replicate 32 21)]"
    by (rule proof_signer_set) (simp add: ref_message_def numeral_eq_Suc)
  ultimately have b: "synthesize_passing_proof ref_privacy (ref_message 1) ([], [])
      [AccountId (replicate 32 21), AccountId [5]] = Inr ?p" by simp
  show ?thesis using proof_binds_journal [OF ref_binding_receipts a b] by (simp only: Let_def)
qed

text \<open>
  C24. Folding native effects succeeds iff every effect is native and decodes and no prefix
  underflows or overflows; the new balance is then the old one plus the credits minus the
  debits, exactly.
\<close>

theorem native_effects_fold_exact:
  "fold_native_effects V E es b = Inr (Some b') \<longleftrightarrow>
     native_only V es \<and> (\<exists>ns. list_all2 (\<lambda>e n. native_effect_from_slice E (eff_data e) = Some n) es ns \<and>
       solvent (unat b) ns \<and> unat b' + debits ns = unat b + credits ns)"
  by (rule fold_native_effects_Some_iff)

end
