(* ===== verification/Spec2Isabelle.thy ===== *)
theory Spec2Isabelle
  imports Ledger_Properties Chain_Properties Privacy_Properties
begin

text \<open>
  A model of the fuzzing harness for the LEZ chain: the library \<open>src/fuzz_props/src\<close> (generators,
  genesis, invariant checks, proof synthesis) and the twenty-two targets of
  \<open>src/fuzz/fuzz_targets\<close>. A target reads bytes, generates a chain state and transactions, calls the
  chain's crates and asserts protocol rules; a failed assertion is a panic. Two things make such a
  harness correct and both are proved here: it reports nothing on a lawful chain (no false alarm, no
  panic of its own), and it misses nothing within its reach (a chain, codec or signature scheme that
  breaks the rule on a drawable input makes some input panic).

  \<^bold>\<open>What is a parameter.\<close> The crates \<open>nssa\<close>, \<open>nssa_core\<close>, \<open>common\<close>, \<open>borsh\<close>, \<open>risc0\<close>,
  \<open>system_accounts\<close>, \<open>programs\<close> and \<open>arbitrary\<close> are not in the repository. Their functions are the
  fields of records (\<open>lez\<close>, \<open>crypto\<close>, \<open>genesis_api\<close>, \<open>arbitrary_api\<close>, \<open>privacy_api\<close>, \<open>public_api\<close>,
  \<open>pp_exec_api\<close>, \<open>codec\<close>, \<open>merkle_api\<close>, \<open>block_api\<close>, \<open>signature_api\<close>, \<open>witness_api\<close>, \<open>accessor_api\<close>,
  \<open>pp_encoding_api\<close>) passed to every definition that calls them. Laws about them are named
  predicates (\<open>native_transfer_rules\<close>, \<open>lawful_genesis\<close>, \<open>executes_by_diff\<close>, \<open>nullifiers_spent_once\<close>,
  \<open>lawful_private_chain\<close>, \<open>sound_pp_witnesses\<close> and so on) and hypotheses of the theorems that need them;
  verdict theorems need none. The exactness theorems assume of the input source only what the
  \<open>arbitrary\<close> crate documents of \<open>Unstructured\<close>: any primitive value can be the next one drawn
  (\<open>replayable\<close>), and for the lockstep commands that the derived impl reaches every command
  (\<open>covers_commands\<close>). \<open>Reference_Chain\<close> and \<open>Reference_Instances\<close> give concrete providers that
  satisfy the laws together, and the witnesses run on them. The derived \<open>Arbitrary\<close> impl of the
  lockstep commands is generated code, so the command generator is a parameter too.

  \<^bold>\<open>Conventions.\<close> A panic is the left of a sum (\<open>outcome\<close>): \<open>Violation\<close> with the bracketed tag of the
  message, \<open>Expect_Failed\<close>, arithmetic overflow, index out of range, remainder by zero. A function
  that draws from \<open>Unstructured\<close> is a \<open>gen\<close>: a state-passing function whose result is a value, a draw
  error or a panic. Mutable chain state is passed and returned. \<open>u8\<close>, \<open>u64\<close>, \<open>u128\<close> are words; \<open>usize\<close>
  is \<open>nat\<close>. A \<open>HashMap\<close> is its list of entries with distinct keys. All loops run over a drawn count
  below 32 or over a list, so every definition is total by structural recursion and no fuel is used;
  \<open>Target_Returns\<close> shows that no target ends with an unhandled draw error.

  \<^bold>\<open>Theories.\<close>
  \<open>Prelude\<close> (words, panics, maps), \<open>Lez_Types\<close> (values and interfaces of the crates), \<open>Unstructured\<close>
  (drawing; the locale \<open>contract_gen\<close> of what a generator may yield and how it may panic).
  \<open>Arbitrary_Types\<close>, \<open>Genesis\<close>, \<open>Generators\<close>, \<open>Invariants\<close>, \<open>Privacy\<close> model the five modules of
  \<open>fuzz_props\<close> under the same names; each generator is an interpretation of \<open>contract_gen\<close>, each
  invariant one of \<open>protocol_invariant\<close>.
  \<open>Model_Lockstep\<close> and \<open>Lockstep_Correct\<close> (\<open>fuzz_stateful_model_lockstep\<close>; the reference model,
  stepped by payments between different accounts in \<open>model_step\<close>, is an interpretation of
  \<open>replay_protected_ledger\<close>); \<open>State_Transition\<close> (\<open>fuzz_state_transition\<close>,
  \<open>fuzz_replay_prevention\<close>, \<open>fuzz_multi_block_state_sequence\<close>); \<open>State_Diffs\<close>
  (\<open>fuzz_validate_execute_consistency\<close>, \<open>fuzz_apply_state_diff_split_path\<close>,
  \<open>fuzz_state_diff_computation\<close>, \<open>fuzz_sequencer_vs_replayer\<close>); \<open>Privacy_Targets\<close>
  (\<open>fuzz_privacy_preserving_state_transition\<close>, \<open>fuzz_transaction_ordering_independence\<close>); \<open>Codecs\<close>
  (\<open>fuzz_transaction_decoding\<close>, \<open>fuzz_encoding_roundtrip\<close>, \<open>fuzz_state_serialization\<close>,
  \<open>fuzz_nullifier_set_roundtrip\<close>, \<open>fuzz_stateless_verification\<close>); \<open>Chain_Structure\<close>
  (\<open>fuzz_merkle_tree\<close>, whose leaves are the \<open>first_occurrences\<close> of the chunks, \<open>fuzz_block_verification\<close>); \<open>Authentication\<close> (\<open>fuzz_signature_verification\<close>,
  \<open>fuzz_witness_set_verification\<close>, \<open>fuzz_transaction_properties\<close>); \<open>Privacy_Encoding\<close>
  (\<open>fuzz_encoding_privacy_preserving\<close>, \<open>fuzz_privacy_preserving_witness\<close>).
  A target keeps its file's name; the steps of its body are definitions of their own.
  \<open>Countable_Types\<close> makes transactions and blocks countable, for injective encodings.
  \<open>Coverage\<close> and \<open>Privacy_Coverage\<close> determine the exact set of values of the generators (locale
  \<open>exact_gen\<close>, over a source with the laws of the locale \<open>replayable\<close>). \<open>Target_Coverage\<close>,
  \<open>Diff_Coverage\<close>, \<open>Lockstep_Coverage\<close>, \<open>Transition_Coverage\<close>, \<open>Sequencer_Coverage\<close>,
  \<open>Executor_Coverage\<close> and \<open>Accessor_Coverage\<close> turn the verdicts of the checks into statements about
  targets: a target returns on every input iff its rule holds for every drawable value. For the
  lockstep target that rule is a simulation of the reference ledger for 31 steps (\<open>simulates\<close>), which
  mentions no command. For the targets that apply one transaction after the other it speaks of the
  states an inductive relation without input reaches (\<open>audit_run\<close>, \<open>private_run\<close>, \<open>seeded\<close>);
  \<open>Stepped_Loops\<close> relates such relations to the loops of the targets once for all (\<open>visits\<close>). The
  targets are put together from their parts with \<open>judged\<close> (\<open>Target_Coverage\<close>).

  \<^bold>\<open>Properties.\<close> \<open>Ledger_Properties\<close> (model, generators, invariants, executions), \<open>Chain_Properties\<close>
  (diffs, replay, blocks, Merkle tree, codecs) and \<open>Privacy_Properties\<close> hold the verdicts of the
  single checks, the exact ranges of the generators and the exactness of the targets on blocks,
  codecs and diffs; this theory holds the end-to-end results, where a whole target meets a lawful
  chain or decides its rule. Every target but the Merkle one, whose verdict is given input by input,
  has an exactness theorem; its rule is then shown to follow from the laws of a lawful chain, or to
  fail on a concrete unlawful one. The bounds are the targets' own, a count byte reduced: 31 steps
  for the lockstep target (no clock or nonce overflows within them, \<open>has_room\<close>), 7 transactions for
  the state-transition and the sequencer target, 15 for the multi-block target, 5 for the privacy
  target, 3 seeding transactions for the ordering target.

  \<^bold>\<open>Not modelled.\<close> \<open>fuzz_entry!\<close> in \<open>lib.rs\<close> and \<open>_template.rs\<close> (the engine's entry point),
  \<open>test_accounts\<close> (keys of an external crate), the unit tests, the scripts, workflows and corpora. Of
  the proptest strategies the ranges and the mapped bodies are modelled, not the sampling. Calls that
  are made only to see that they do not panic (decoders on raw bytes) are total functions here: their
  own panics are the crates' business. Stack and memory limits are not modelled.
\<close>

text \<open>
  C1. On a chain whose native transfers follow the account rules (right nonce, payable amount,
  room at the recipient), and whose genesis stores what it is given, the lockstep target returns
  on every input: no assertion fails, no arithmetic of the model or of the clock overflows, no
  index is out of range, whatever schedule of up to 31 commands is drawn.
\<close>

theorem lockstep_no_false_alarm:
  assumes "native_transfer_rules L C (reserved_account_ids G)" and "lawful_genesis L G"
    and "programs_apart C G" and "private_key_try_new C seed_bytes \<noteq> None"
    and "contract_gen draw_command (\<lambda>_. True) (\<lambda>_. False)"
  shows "fst (fuzz_stateful_model_lockstep L C G A draw_command u) = Drawn ()"
  using verdict_returns [OF contract_lockstep [OF assms(1-3,5)] unfailing_lockstep] assms(4)
  by (auto simp: bad_seed_def)

theorem lockstep_no_false_alarm_witness:
  "fst (fuzz_stateful_model_lockstep ref_lez ref_crypto ref_genesis ref_input ref_command (replicate 400 7)) = Drawn ()"
  by (rule lockstep_no_false_alarm [OF ref_transfer_rules ref_lawful_genesis ref_programs_apart _ ref_command_total])
    (simp add: ref_seed)

text \<open>
  C2. The lockstep target decides its rule. When the input source can replay any primitive draw
  and the command source any command, the target returns on every input exactly if, from every
  drawable initial state of at least two accounts, the chain simulates the reference ledger for
  31 steps: whatever payment between two accounts is submitted, it answers as the ledger does
  and ends with the ledger's balances and nonces, it refuses the last applied transaction, and
  idle blocks change nothing. A chain that deviates within reach is reported by some input, and
  no other chain is.
\<close>

theorem lockstep_target_exact:
  assumes "replayable A" and "private_key_try_new C seed_bytes \<noteq> None" and "covers_commands draw_command"
  shows "always_returns (fuzz_stateful_model_lockstep L C G A draw_command) \<longleftrightarrow> simulates_ledger L C G"
  unfolding simulates_ledger_iff by (rule replayable.lockstep_target_iff [OF assms])

theorem lockstep_target_exact_witness: "simulates_ledger ref_lez ref_crypto ref_genesis"
proof -
  have seed: "private_key_try_new ref_crypto seed_bytes \<noteq> None" by (simp add: ref_seed)
  have "always_returns (fuzz_stateful_model_lockstep ref_lez ref_crypto ref_genesis ref_input ref_command)"
    using contract_lockstep [OF ref_transfer_rules ref_lawful_genesis ref_programs_apart ref_command_total] ref_no_bad_seed
    by (intro always_returnsI [where P = "\<lambda>_. True"] unfailing_lockstep) (rule contract_weaken, blast, auto)
  then show ?thesis by (simp only: lockstep_target_exact [OF ref_replay.replayable_axioms seed ref_covers])
qed

text \<open>
  C4. The command language is complete for transfers between different accounts: if after some
  schedule of at most 30 commands from a drawable initial state the chain's reaction to such a
  transfer, with any nonce and any amount, differs from the model's in the verdict or in a
  resulting balance or nonce, then some input makes the lockstep target panic.
\<close>

theorem deviation_is_caught:
  assumes "replayable A" and "covers_commands draw_command"
    and "drawable_fuzz_state C (reserved_account_ids G) accs" and "i < length accs" and "j < length accs" and "i \<noteq> j"
    and "length cmds \<le> 30" and "lockstep_schedule L C accs cmds (lockstep_init G accs) = Inr s"
    and "\<not> transfer_faithful L C s (accs ! i) (fa_account_id (accs ! j)) nonce amount"
  shows "\<exists>u p. fst (fuzz_stateful_model_lockstep L C G A draw_command u) = Panicked p"
  using replayable.deviation_panics [OF assms] by (auto simp: can_panic_def)

theorem deviation_is_caught_witness:
  "\<exists>u p. fst (fuzz_stateful_model_lockstep refusing_lez ref_crypto ref_genesis ref_input ref_command u) = Panicked p"
proof (rule deviation_is_caught [OF ref_replay.replayable_axioms ref_covers ref_users_drawable])
  show "lockstep_schedule refusing_lez ref_crypto ref_users [] (lockstep_init ref_genesis ref_users) = Inr ref_start"
    by (simp add: ref_start_def)
  show "\<not> transfer_faithful refusing_lez ref_crypto ref_start (ref_users ! 0) (fa_account_id (ref_users ! 1)) 0 400"
    by (simp add: transfer_faithful_def refusing_lez_def ref_users_def ref_user_def ref_start_predicts)
qed (simp_all add: ref_users_def)

text \<open>
  C8. The state-transition and the replay target decide the protocol rules: each returns on
  every input exactly if, from every drawable genesis state, every submittable transaction that
  passes the gate meets the rules in every state an audited run reaches, within seven steps for
  the one and in the first step for the other. The tracked accounts are those of the genesis
  list. The rules are that their balances decode, a rejection leaves their balances and nonces
  alone, and an acceptance keeps the exact total of their balances, which fits 128 bits, raises
  by one the nonce of every signer among them (of no other signer is anything asked), and is not
  accepted again in the next block.
\<close>

theorem transition_targets_exact:
  assumes "replayable A" and "private_key_try_new C seed_bytes \<noteq> None"
  shows "(always_returns (fuzz_state_transition L C G A) \<longleftrightarrow> rules_on_genesis L C G of_nat 7) \<and>
    (always_returns (fuzz_replay_prevention L C G A) \<longleftrightarrow> rules_on_genesis L C G of_nat 1)"
  by (intro conjI replayable.state_transition_target_iff [OF assms] replayable.replay_prevention_target_iff [OF assms])

theorem transition_targets_exact_witness:
  "\<not> always_returns (fuzz_state_transition forgetting_lez ref_crypto ref_genesis ref_input) \<and>
   \<not> always_returns (fuzz_replay_prevention forgetting_lez ref_crypto ref_genesis ref_input)"
  using transition_targets_exact [OF ref_replay.replayable_axioms, of ref_crypto forgetting_lez ref_genesis]
    forgetting_breaks_rules by (simp add: ref_seed)

text \<open>
  C10. The multi-block target decides the protocol rules over fifteen blocks and the constancy
  of the supply along every audited run. The long-range conservation check adds nothing on a
  chain that isolates rejections and whose genesis stores what it is given: there the target
  returns on every input exactly if the rules of the single steps hold.
\<close>

theorem multi_block_target_exact:
  assumes "replayable A" and "private_key_try_new C seed_bytes \<noteq> None"
  shows "(always_returns (fuzz_multi_block_state_sequence L C G A) \<longleftrightarrow>
      (\<forall>accs. drawable_state C (reserved_account_ids G) accs \<longrightarrow>
         rules_hold L C accs (\<lambda>i. of_nat i * 1000) 15 (genesis_state G (init_accounts accs) []) \<and>
         supply_constant L C accs (\<lambda>i. of_nat i * 1000) 15 (genesis_state G (init_accounts accs) []))) \<and>
    (rejections_isolated L \<longrightarrow> lawful_genesis L G \<longrightarrow> programs_apart C G \<longrightarrow>
      (always_returns (fuzz_multi_block_state_sequence L C G A) \<longleftrightarrow> rules_on_genesis L C G (\<lambda>i. of_nat i * 1000) 15))"
  using lawful_supply_constant [of L G C]
  unfolding replayable.multi_block_target_iff [OF assms] rules_on_genesis_def by blast

theorem multi_block_target_exact_witness:
  "\<not> always_returns (fuzz_multi_block_state_sequence forgetting_lez ref_crypto ref_genesis ref_input)"
proof -
  have seed: "private_key_try_new ref_crypto seed_bytes \<noteq> None" by (simp add: ref_seed)
  show ?thesis
    unfolding conjunct1 [OF multi_block_target_exact [OF ref_replay.replayable_axioms seed]]
    using forgetting_breaks_rules [of 15 "\<lambda>i. of_nat i * 1000"] unfolding rules_on_genesis_def by auto
qed

text \<open>
  C16. The sequencer target decides replayability: it returns on every input exactly if, for
  every drawable genesis state, time stamp and mempool of up to seven submittable transactions,
  the block of accepted transactions replays to the same touched accounts, with the clock
  invocation (where the sequencer's own succeeds) and without it. A chain whose execution is
  validation followed by the diff, with a stable stateless check, is replayable.
\<close>

theorem sequencer_target_exact:
  assumes "replayable A" and "private_key_try_new C seed_bytes \<noteq> None"
  shows "(always_returns (fuzz_sequencer_vs_replayer L P C G A) \<longleftrightarrow> sequencer_replays L P C G) \<and>
    (executes_by_diff L \<longrightarrow> stateless_stable L \<longrightarrow> sequencer_replays L P C G)"
proof (intro conjI impI)
  show "always_returns (fuzz_sequencer_vs_replayer L P C G A) \<longleftrightarrow> sequencer_replays L P C G"
    by (rule replayable.sequencer_target_iff [OF assms])
  assume "executes_by_diff L" "stateless_stable L"
  then have "contract_gen (fuzz_sequencer_vs_replayer L P C G A) (\<lambda>_. True) (\<lambda>_. False)"
    using assms(2) by (intro contract_weaken [OF contract_sequencer_vs_replayer]) (auto simp: bad_seed_def)
  from always_returnsI [OF this unfailing_sequencer] show "sequencer_replays L P C G"
    unfolding replayable.sequencer_target_iff [OF assms] .
qed

theorem sequencer_target_exact_witness: "sequencer_replays ref_lez ref_public ref_crypto ref_genesis"
  using sequencer_target_exact [OF ref_replay.replayable_axioms, of ref_crypto ref_lez ref_public ref_genesis]
    ref_executes_by_diff ref_stateless_stable by (simp add: ref_seed)

text \<open>
  C23. The privacy target decides the rules of private execution: it returns on every input
  exactly if, from every drawable genesis state and along every audited run of up to five steps,
  every drawable transaction that passes the gate finds the balances of the tracked accounts
  (genesis, signers, public accounts of the message) readable and is either rejected, with the
  balances and nonces of these accounts and the digest of the commitment set as before, or
  accepted, with a membership proof for every commitment, every signer's nonce one higher, every
  public account whose effects are all native at its old value with the effects folded in, and
  its replay rejected. Of a public account with an effect on another program or shard only the
  effects before that one are checked: they decode and neither underflow nor overflow the
  balance.
\<close>

theorem privacy_target_exact:
  assumes "replayable A" and "private_key_try_new C seed_bytes \<noteq> None" and "encodable V"
  shows "always_returns (fuzz_privacy_preserving_state_transition L C G V E A) \<longleftrightarrow> private_rules_on_genesis L C G V E 5"
  by (rule replayable.privacy_target_iff [OF assms])

theorem privacy_target_exact_witness:
  "private_rules_on_genesis shielded_lez ref_crypto shielded_genesis ref_privacy ref_pp_exec 5"
proof -
  have seed: "private_key_try_new ref_crypto seed_bytes \<noteq> None" by (simp add: ref_seed)
  have "always_returns (fuzz_privacy_preserving_state_transition shielded_lez ref_crypto shielded_genesis ref_privacy
      ref_pp_exec ref_input)"
    using contract_privacy_state_transition [OF shielded_lawful] ref_no_bad_seed encodable_no_panic [OF ref_encodable]
    by (intro always_returnsI [where P = "\<lambda>_. True"] unfailing_privacy) (rule contract_weaken, blast, auto)
  then show ?thesis by (simp only: privacy_target_exact [OF ref_replay.replayable_axioms seed ref_encodable])
qed

text \<open>
  C27. The ordering target decides order independence: it returns on every input exactly if, in
  every state reached from a drawable genesis by up to three seeding transactions, of every
  drawable nullifier-conflicting pair that passes the gate no order accepts both, and one order
  accepts one just when the other does.
\<close>

theorem ordering_target_exact:
  assumes "replayable A" and "private_key_try_new C seed_bytes \<noteq> None" and "encodable V"
  shows "always_returns (fuzz_transaction_ordering_independence L C G V A) \<longleftrightarrow> ordering_on_genesis L C G V 3"
  by (rule replayable.ordering_target_iff [OF assms])

theorem ordering_target_exact_witness: "ordering_on_genesis shielded_lez ref_crypto shielded_genesis ref_privacy 3"
proof -
  have seed: "private_key_try_new ref_crypto seed_bytes \<noteq> None" by (simp add: ref_seed)
  have "always_returns (fuzz_transaction_ordering_independence shielded_lez ref_crypto shielded_genesis ref_privacy ref_input)"
    using contract_ordering_independence [OF shielded_gate_identity shielded_rejection_is_noop shielded_spent_once]
      ref_no_bad_seed encodable_no_panic [OF ref_encodable]
    by (intro always_returnsI [where P = "\<lambda>_. True"] unfailing_ordering) (rule contract_weaken, blast, auto)
  then show ?thesis by (simp only: ordering_target_exact [OF ref_replay.replayable_axioms seed ref_encodable])
qed

text \<open>
  C25. No false alarm on the privacy-preserving executor: on a chain that settles accepted
  transactions by the ledger rules, spends nullifiers once and leaves the state alone on
  rejection, the target ends without a violation on every input, whatever effects, keys and
  proofs are drawn. The replay it tries is rejected because every generated transaction has a
  nullifier.
\<close>

theorem privacy_target_never_alarms:
  assumes "lawful_private_chain L C V E"
  shows "case fst (fuzz_privacy_preserving_state_transition L C G V E A u) of
      Drawn _ \<Rightarrow> True
    | Failed _ \<Rightarrow> False
    | Panicked p \<Rightarrow> bad_seed C p \<or> encode_panic V p"
  by (rule verdict_case [OF contract_privacy_state_transition [OF assms] unfailing_privacy])

theorem privacy_target_never_alarms_witness:
  "case fst (fuzz_privacy_preserving_state_transition shielded_lez ref_crypto shielded_genesis ref_privacy
      ref_pp_exec ref_input (replicate 600 11)) of
      Drawn _ \<Rightarrow> True
    | Failed _ \<Rightarrow> False
    | Panicked p \<Rightarrow> bad_seed ref_crypto p \<or> encode_panic ref_privacy p"
  by (rule privacy_target_never_alarms [OF shielded_lawful])

text \<open>
  C26. On a chain that spends each nullifier at most once, leaves the state alone on rejection
  and whose gate changes nothing, the ordering target ends without a violation on every input;
  only an unusable fallback key or a failing encoder can panic.
\<close>

theorem ordering_target_never_alarms:
  assumes "gate_identity L" and "rejection_is_noop L" and "nullifiers_spent_once L"
  shows "case fst (fuzz_transaction_ordering_independence L C G V A u) of
      Drawn _ \<Rightarrow> True
    | Failed _ \<Rightarrow> False
    | Panicked p \<Rightarrow> bad_seed C p \<or> encode_panic V p"
  by (rule verdict_case [OF contract_ordering_independence [OF assms] unfailing_ordering])

theorem ordering_target_never_alarms_witness:
  "case fst (fuzz_transaction_ordering_independence shielded_lez ref_crypto shielded_genesis ref_privacy
      ref_input (replicate 600 11)) of
      Drawn _ \<Rightarrow> True
    | Failed _ \<Rightarrow> False
    | Panicked p \<Rightarrow> bad_seed ref_crypto p \<or> encode_panic ref_privacy p"
  by (rule ordering_target_never_alarms [OF shielded_gate_identity shielded_rejection_is_noop shielded_spent_once])

text \<open>
  C35. The signature target decides its rule: with a usable fallback key and an input source
  that can replay any draw, it returns on every input exactly if, for all drawable keys and
  32-byte messages, a signature verifies under a key just when that is the signer's public key.
\<close>

theorem signature_target_exact:
  assumes "replayable A" and "private_key_try_new C seed_bytes \<noteq> None"
  shows "always_returns (fuzz_signature_verification S A C) \<longleftrightarrow>
    (\<forall>k1 k2 msg. drawable_private_key C k1 \<longrightarrow> drawable_private_key C k2 \<longrightarrow> length msg = 32 \<longrightarrow>
       (signature_is_valid_for S (signature_new S k1 msg) msg (public_key_new_from_private_key C k2) \<longleftrightarrow>
        public_key_new_from_private_key C k1 = public_key_new_from_private_key C k2))"
  using replayable.signature_target_iff [OF assms] unfolding signatures_exact_def .

theorem signature_target_exact_witness: "always_returns (fuzz_signature_verification ref_signatures ref_input ref_crypto)"
proof (subst signature_target_exact [OF ref_replay.replayable_axioms])
  show "private_key_try_new ref_crypto seed_bytes \<noteq> None" by (simp add: ref_seed)
qed (rule sound_signatures_exact [OF ref_sound_signatures, unfolded signatures_exact_def])

text \<open>
  C36. The witness target decides its rule: with a usable fallback key and replayable input it
  returns on every input exactly if a witness set made by any up to three drawable keys is valid
  for its drawable message, and one made by a single key is valid for no drawable message with
  another encoding.
\<close>

theorem witness_target_exact:
  assumes "replayable A" and "private_key_try_new C seed_bytes \<noteq> None"
  shows "always_returns (fuzz_witness_set_verification W A C) \<longleftrightarrow> witnesses_exact W C"
  by (rule replayable.witness_target_iff [OF assms])

theorem witness_target_exact_witness: "always_returns (fuzz_witness_set_verification ref_witnesses ref_input ref_crypto)"
proof (subst witness_target_exact [OF ref_replay.replayable_axioms])
  show "private_key_try_new ref_crypto seed_bytes \<noteq> None" by (simp add: ref_seed)
qed (rule sound_witnesses_exact [OF ref_sound_witnesses])

text \<open>
  C37. The transaction-properties target decides the exposure of signers: it returns on every
  input exactly if the two checks on fixed keys pass and, for every drawable genesis state and
  correlated transfer that passes the gate, the signers are among the affected accounts and in
  the diff when it validates, and a transaction signed by any one drawable key names that key
  alone. Accessors that expose the signers of every transaction meet it.
\<close>

theorem properties_target_exact:
  assumes "replayable A" and "private_key_try_new C seed_bytes \<noteq> None"
  shows "(always_returns (fuzz_transaction_properties L T P W C G A) \<longleftrightarrow> properties_hold L T P W C G) \<and>
    (sound_accessors L T P W C \<longrightarrow> (\<forall>b\<in>{1, 2, 9}. private_key_try_new C (replicate 32 b) \<noteq> None) \<longrightarrow>
       properties_hold L T P W C G)"
proof (intro conjI impI)
  show "always_returns (fuzz_transaction_properties L T P W C G A) \<longleftrightarrow> properties_hold L T P W C G"
    by (rule replayable.properties_target_iff [OF assms])
  assume "sound_accessors L T P W C" and "\<forall>b\<in>{1, 2, 9}. private_key_try_new C (replicate 32 b) \<noteq> None"
  then have "contract_gen (fuzz_transaction_properties L T P W C G A) (\<lambda>_. True) (\<lambda>_. False)"
    using assms(2) by (intro contract_weaken [OF contract_transaction_properties]) (auto simp: bad_seed_def bad_fixed_key_def)
  from always_returnsI [OF this unfailing_properties] show "properties_hold L T P W C G"
    unfolding replayable.properties_target_iff [OF assms] .
qed

theorem properties_target_exact_witness:
  "properties_hold ref_lez ref_accessors ref_public ref_witnesses ref_crypto ref_genesis"
  using properties_target_exact [OF ref_replay.replayable_axioms, of ref_crypto ref_lez ref_accessors ref_public
      ref_witnesses ref_genesis] ref_sound_accessors ref_fixed_keys by (simp add: ref_seed)

text \<open>
  C38. The privacy-preserving encoding target decides canonicity: it passes on every byte string
  exactly if whatever message decodes encodes to the very bytes it came from, the messages of
  zero to three accounts have non-empty encodings that decode, the fixed transaction round-trips
  and the fixed circuit output is mapped field by field. The other assertions of the target
  follow from these. A lossless canonical codec with a field-wise mapping meets them.
\<close>

theorem pp_encoding_target_exact:
  "((\<forall>data. fuzz_encoding_privacy_preserving K C V data = Inr ()) \<longleftrightarrow> pp_codec_exact K C V) \<and>
   (sound_pp_encoding K \<longrightarrow> private_key_try_new C (replicate 32 1) \<noteq> None \<longrightarrow> pp_codec_exact K C V)"
proof (intro conjI impI)
  show iff: "(\<forall>data. fuzz_encoding_privacy_preserving K C V data = Inr ()) \<longleftrightarrow> pp_codec_exact K C V"
    by (rule pp_encoding_target_iff)
  assume sound: "sound_pp_encoding K" and key: "private_key_try_new C (replicate 32 1) \<noteq> None"
  have "fuzz_encoding_privacy_preserving K C V data = Inr ()" for data
    using encoding_target_ok [OF sound, of C V data] key by (cases "fuzz_encoding_privacy_preserving K C V data") auto
  then show "pp_codec_exact K C V" by (simp add: iff [symmetric])
qed

theorem pp_encoding_target_exact_witness: "pp_codec_exact ref_pp_encoding ref_crypto ref_privacy"
  using pp_encoding_target_exact [of ref_pp_encoding ref_crypto ref_privacy] ref_sound_pp_encoding ref_fixed_keys by simp

text \<open>
  C39. The privacy-preserving witness target decides its rule: it returns on every input exactly
  if the checks on the two fixed keys pass and a witness set made by any one to three drawable
  keys, repeated ones included, has one entry for each, is valid for its message and exposes the
  accounts of all of them. Witness sets bound to the encoding of their message meet it.
\<close>

theorem pp_witness_target_exact:
  assumes "replayable A" and "private_key_try_new C seed_bytes \<noteq> None"
  shows "(always_returns (fuzz_privacy_preserving_witness K C V A) \<longleftrightarrow> pp_witnesses_exact K C V) \<and>
    (sound_pp_witnesses K C V \<longrightarrow> (\<forall>b\<in>{1, 2, 9}. private_key_try_new C (replicate 32 b) \<noteq> None) \<longrightarrow>
       pp_witnesses_exact K C V)"
proof (intro conjI impI)
  show "always_returns (fuzz_privacy_preserving_witness K C V A) \<longleftrightarrow> pp_witnesses_exact K C V"
    by (rule replayable.pp_witness_target_iff [OF assms])
  assume "sound_pp_witnesses K C V" and "\<forall>b\<in>{1, 2, 9}. private_key_try_new C (replicate 32 b) \<noteq> None"
  then have "contract_gen (fuzz_privacy_preserving_witness K C V A) (\<lambda>_. True) (\<lambda>_. False)"
    using assms(2) by (intro contract_weaken [OF contract_pp_witness_target]) (auto simp: bad_seed_def bad_fixed_key_def)
  from always_returnsI [OF this unfailing_pp_witness] show "pp_witnesses_exact K C V"
    unfolding replayable.pp_witness_target_iff [OF assms] .
qed

theorem pp_witness_target_exact_witness: "pp_witnesses_exact ref_pp_encoding ref_crypto ref_privacy"
  using pp_witness_target_exact [OF ref_replay.replayable_axioms, of ref_crypto ref_pp_encoding ref_privacy]
    ref_pp_witnesses ref_fixed_keys by (simp add: ref_seed)

text \<open>
  C40. On any chain whatsoever the state-transition and the replay target end: with no verdict,
  or in a panic of one of the documented kinds, that is an invariant tag, an undecodable
  balance, an overflowing total or nonce, or a rejected fallback key. No draw error, index error
  or other panic escapes them.
\<close>

theorem transaction_targets_end:
  "(case fst (fuzz_state_transition L C G A u) of
      Drawn _ \<Rightarrow> True | Failed _ \<Rightarrow> False | Panicked p \<Rightarrow> bad_seed C p \<or> check_panic p) \<and>
   (case fst (fuzz_replay_prevention L C G A u) of
      Drawn _ \<Rightarrow> True | Failed _ \<Rightarrow> False | Panicked p \<Rightarrow> bad_seed C p \<or> check_panic p)"
  by (intro conjI verdict_case [OF contract_fuzz_state_transition unfailing_state_transition]
      verdict_case [OF contract_fuzz_replay_prevention unfailing_replay_prevention])

end
